(* ===== verification/Prelude.thy ===== *)
theory Prelude
  imports Complex_Main "HOL-Library.Multiset"
begin

text \<open>
  What every component of the development shares: the exceptions of the modelled Python code
  and the sequencing of fallible steps, Python's indexing and decimal rendering of integers,
  the generic search for a free name, and the interface of an encoding with its decoder.
\<close>

named_theorems exn_simps \<open>unfolding of the sequencing of fallible steps\<close>

section \<open>Exceptions and sequencing\<close>

text \<open>The exceptions the modelled code raises itself or lets through.\<close>

datatype py_exn =
    KeyError
  | IndexError
  | ValueError
  | OverflowError
  | ZeroDivisionError
  | TypeError
  | StopIteration
  | EOFError
  | OSError
  | CsvError
  | CalledProcessError
  | RuntimeError string
  | ArgumentError string

text \<open>A statement that may raise, followed by the rest of its block.\<close>

fun seq :: "py_exn + 'a \<Rightarrow> ('a \<Rightarrow> py_exn + 'b) \<Rightarrow> py_exn + 'b" where
  "seq (Inl e) f = Inl e"
| "seq (Inr x) f = f x"

lemma seq_Inr_iff [exn_simps]: "seq r f = Inr y \<longleftrightarrow> (\<exists>x. r = Inr x \<and> f x = Inr y)"
  by (cases r) auto

lemma seq_Inl_iff: "seq r f = Inl e \<longleftrightarrow> r = Inl e \<or> (\<exists>x. r = Inr x \<and> f x = Inl e)"
  by (cases r) auto

lemma seq_assoc: "seq (seq r f) g = seq r (\<lambda>x. seq (f x) g)"
  by (cases r) auto

lemma seq_cong [fundef_cong]:
  "r = r' \<Longrightarrow> (\<And>x. r' = Inr x \<Longrightarrow> f x = f' x) \<Longrightarrow> seq r f = seq r' f'"
  by (cases r') auto

text \<open>A \<open>for\<close> loop whose body may raise: the first exception leaves the loop.\<close>

fun for_each :: "'x list \<Rightarrow> ('x \<Rightarrow> 's \<Rightarrow> py_exn + 's) \<Rightarrow> 's \<Rightarrow> py_exn + 's" where
  "for_each [] body s = Inr s"
| "for_each (x # xs) body s = seq (body x s) (for_each xs body)"

lemma for_each_append:
  "for_each (xs @ ys) body s = seq (for_each xs body s) (for_each ys body)"
proof (induction xs arbitrary: s)
  case Nil
  then show ?case by simp
next
  case (Cons x xs)
  then show ?case by (cases "body x s") simp_all
qed

text \<open>An invariant of the body is an invariant of the loop.\<close>

lemma for_each_invariant:
  assumes "for_each xs body s = Inr s'" and "P s"
    and "\<And>x s s'. x \<in> set xs \<Longrightarrow> P s \<Longrightarrow> body x s = Inr s' \<Longrightarrow> P s'"
  shows "P s'"
  using assms
proof (induction xs arbitrary: s)
  case Nil
  then show ?case by simp
next
  case (Cons x xs)
  from Cons.prems(1) obtain t where t: "body x s = Inr t" "for_each xs body t = Inr s'"
    by (auto simp: exn_simps)
  have "P t" by (rule Cons.prems(3)[of x s t]) (simp_all add: Cons.prems(2) t(1))
  then show ?case
    using Cons.IH[OF t(2)] Cons.prems(3) by (meson list.set_intros(2))
qed

text \<open>A loop whose body never raises under an invariant does not raise either.\<close>

lemma for_each_total:
  assumes "P s"
    and "\<And>x s. x \<in> set xs \<Longrightarrow> P s \<Longrightarrow> \<exists>s'. body x s = Inr s' \<and> P s'"
  shows "\<exists>s'. for_each xs body s = Inr s' \<and> P s'"
  using assms
proof (induction xs arbitrary: s)
  case Nil
  then show ?case by simp
next
  case (Cons x xs)
  from Cons.prems(2)[of x s] Cons.prems(1) obtain t where "body x s = Inr t" "P t" by auto
  with Cons.IH[of t] Cons.prems(2) show ?case by simp
qed

text \<open>What a loop raises, its body raises under the invariant.\<close>

lemma for_each_raise:
  assumes "for_each xs body s = Inl e" "P s"
    and "\<And>x s s'. x \<in> set xs \<Longrightarrow> P s \<Longrightarrow> body x s = Inr s' \<Longrightarrow> P s'"
    and "\<And>x s. x \<in> set xs \<Longrightarrow> P s \<Longrightarrow> body x s = Inl e \<Longrightarrow> Q"
  shows Q
  using assms
proof (induction xs arbitrary: s)
  case (Cons x xs)
  show ?case
  proof (cases "body x s")
    case (Inl e')
    then show ?thesis using Cons.prems(1,2,4) by auto
  next
    case (Inr t)
    then have "for_each xs body t = Inl e" "P t" using Cons.prems(1,2,3) by auto
    then show ?thesis using Cons.IH[of t] Cons.prems(3,4) by (meson list.set_intros(2))
  qed
qed simp

section \<open>Loops that may go on\<close>

text \<open>
  A \<open>while\<close> loop whose end depends on what it observes: the body either goes on with a new state or
  leaves with a result, and the fuel bounds the rounds. \<open>None\<close> is running out of fuel.
\<close>

fun loop :: "nat \<Rightarrow> ('s \<Rightarrow> py_exn + 's + 'r) \<Rightarrow> 's \<Rightarrow> (py_exn + 'r) option" where
  "loop 0 body s = None"
| "loop (Suc n) body s =
     (case body s of
        Inl e \<Rightarrow> Some (Inl e)
      | Inr (Inl s') \<Rightarrow> loop n body s'
      | Inr (Inr r) \<Rightarrow> Some (Inr r))"

lemma loop_invariant:
  assumes "loop n body s = Some (Inr r)" "P s"
    and "\<And>s s'. P s \<Longrightarrow> body s = Inr (Inl s') \<Longrightarrow> P s'"
    and "\<And>s r. P s \<Longrightarrow> body s = Inr (Inr r) \<Longrightarrow> Q r"
  shows "Q r"
  using assms(1,2)
proof (induction n arbitrary: s)
  case (Suc n)
  then show ?case using assms(3,4) by (auto split: sum.splits)
qed simp

lemma loop_raise:
  assumes "loop n body s = Some (Inl e)" "P s"
    and "\<And>s s'. P s \<Longrightarrow> body s = Inr (Inl s') \<Longrightarrow> P s'"
    and "\<And>s. P s \<Longrightarrow> body s = Inl e \<Longrightarrow> Q"
  shows Q
  using assms(1,2)
proof (induction n arbitrary: s)
  case (Suc n)
  then show ?case using assms(3,4) by (auto split: sum.splits)
qed simp

text \<open>A measure that every round decreases bounds the fuel.\<close>

lemma loop_total:
  assumes "\<And>s s'. P s \<Longrightarrow> body s = Inr (Inl s') \<Longrightarrow> P s' \<and> m s' < m s" "P s" "m s < n"
  shows "\<exists>x. loop n body s = Some x"
  using assms(2,3)
proof (induction n arbitrary: s)
  case (Suc n)
  show ?case
  proof (cases "\<exists>s'. body s = Inr (Inl s')")
    case True
    then obtain s' where s': "body s = Inr (Inl s')" by blast
    then have "m s' < n" "P s'" using assms(1)[OF Suc.prems(1) s'] Suc.prems(2) by auto
    with Suc.IH s' show ?thesis by simp
  qed (auto split: sum.splits)
qed simp

text \<open>More fuel does not change a result.\<close>

lemma loop_mono: "loop n body s = Some x \<Longrightarrow> n \<le> k \<Longrightarrow> loop k body s = Some x"
proof (induction n arbitrary: s k)
  case (Suc n)
  then show ?case by (cases k) (auto split: sum.splits)
qed simp

text \<open>A computation with fuel settles if from some amount on it has one and the same result.\<close>

definition settles :: "(nat \<Rightarrow> 'a option) \<Rightarrow> bool" where
  "settles f \<longleftrightarrow> (\<exists>n x. \<forall>fuel\<ge>n. f fuel = Some x)"

lemma settles_loop:
  fixes m :: "'s \<Rightarrow> nat"
  assumes "\<And>s s'. P s \<Longrightarrow> body s = Inr (Inl s') \<Longrightarrow> P s' \<and> m s' < m s" "P s"
  shows "settles (\<lambda>fuel. loop fuel body s)"
proof -
  obtain x where x: "loop (Suc (m s)) body s = Some x"
    using loop_total[of P body m s "Suc (m s)"] assms by blast
  show ?thesis unfolding settles_def using loop_mono[OF x] by blast
qed

lemma settles_const: "settles (\<lambda>fuel. Some x)"
  by (simp add: settles_def)

section \<open>Python lists\<close>

text \<open>\<open>xs[i]\<close>: negative indices count from the end, anything else out of range raises.\<close>

definition py_nth :: "'a list \<Rightarrow> int \<Rightarrow> py_exn + 'a" where
  "py_nth xs i =
     (if - int (length xs) \<le> i \<and> i < int (length xs)
      then Inr (xs ! nat (i mod int (length xs)))
      else Inl IndexError)"

lemma py_nth_in_range: "0 \<le> i \<Longrightarrow> i < int (length xs) \<Longrightarrow> py_nth xs i = Inr (xs ! nat i)"
  by (simp add: py_nth_def mod_pos_pos_trivial)

text \<open>\<open>xs[start::step]\<close> for a positive step.\<close>

definition stride :: "nat \<Rightarrow> nat \<Rightarrow> 'a list \<Rightarrow> 'a list" where
  "stride start step xs = map ((!) xs) (filter (\<lambda>i. start \<le> i \<and> (i - start) mod step = 0) [0..<length xs])"

lemma sort_eq_Nil [simp]: "sort xs = [] \<longleftrightarrow> xs = []"
  by (metis length_0_conv length_sort)

lemma insort_key_map: "insort_key f (g x) (map g xs) = map g (insort_key (\<lambda>x. f (g x)) x xs)"
  by (induction xs) auto

lemma sort_key_map: "sort_key f (map g xs) = map g (sort_key (\<lambda>x. f (g x)) xs)"
  by (induction xs) (simp_all add: insort_key_map)

lemma sum_list_sort_key [simp]: "(\<Sum>x\<leftarrow>sort_key f xs. (g x :: 'a::comm_monoid_add)) = (\<Sum>x\<leftarrow>xs. g x)"
  by (metis mset_map mset_sort sum_mset_sum_list)

text \<open>Replacing one of the objects that a list names changes a sum over them by the difference.\<close>

lemma sum_list_upd:
  fixes f :: "'b \<Rightarrow> int"
  assumes "distinct xs" "i \<in> set xs"
  shows "(\<Sum>j\<leftarrow>xs. f ((g(i := c)) j)) = (\<Sum>j\<leftarrow>xs. f (g j)) - f (g i) + f c"
proof -
  have "(\<Sum>j\<leftarrow>xs. f ((g(i := c)) j)) = (\<Sum>j\<in>set xs. f ((g(i := c)) j))"
    using assms(1) by (simp add: sum_list_distinct_conv_sum_set)
  also have "\<dots> = f c + (\<Sum>j\<in>set xs - {i}. f (g j))"
    using assms(2) by (simp add: sum.remove[of "set xs" i])
  also have "(\<Sum>j\<in>set xs - {i}. f (g j)) = (\<Sum>j\<in>set xs. f (g j)) - f (g i)"
    using assms(2) by (simp add: sum_diff1)
  finally show ?thesis using assms(1) by (simp add: sum_list_distinct_conv_sum_set)
qed

lemma map_add_dom: "dom m \<subseteq> dom n \<Longrightarrow> m ++ n = n"
  by (rule ext) (auto simp: map_add_def split: option.split)

section \<open>Decimal rendering of integers\<close>

definition digit_char :: "nat \<Rightarrow> char" where
  "digit_char d = char_of (48 + d)"

definition is_digit_char :: "char \<Rightarrow> bool" where
  "is_digit_char c \<longleftrightarrow> 48 \<le> (of_char c :: nat) \<and> (of_char c :: nat) \<le> 57"

definition digit_val :: "char \<Rightarrow> nat" where
  "digit_val c = of_char c - 48"

fun show_nat :: "nat \<Rightarrow> string" where
  "show_nat n = (if n < 10 then [digit_char n] else show_nat (n div 10) @ [digit_char (n mod 10)])"

declare show_nat.simps [simp del]

text \<open>\<open>str(n)\<close> of a Python integer.\<close>

definition show_int :: "int \<Rightarrow> string" where
  "show_int n = (if n < 0 then CHR ''-'' # show_nat (nat (- n)) else show_nat (nat n))"

definition read_digits :: "string \<Rightarrow> nat" where
  "read_digits s = foldl (\<lambda>n c. 10 * n + digit_val c) 0 s"

lemma digit_char_code [simp]: "d < 10 \<Longrightarrow> (of_char (digit_char d) :: nat) = 48 + d"
  by (simp add: digit_char_def)

lemma digit_char_is_digit [simp]: "d < 10 \<Longrightarrow> is_digit_char (digit_char d)"
  by (simp add: is_digit_char_def)

lemma digit_val_digit_char [simp]: "d < 10 \<Longrightarrow> digit_val (digit_char d) = d"
  by (simp add: digit_val_def)

lemma show_nat_nonempty [simp]: "show_nat n \<noteq> []"
  by (subst show_nat.simps) simp

lemma show_nat_digits: "c \<in> set (show_nat n) \<Longrightarrow> is_digit_char c"
proof (induction n rule: show_nat.induct)
  case (1 n)
  then show ?case
    by (cases "n < 10") (auto simp: show_nat.simps[of n])
qed

lemma read_digits_show_nat [simp]: "read_digits (show_nat n) = n"
proof (induction n rule: show_nat.induct)
  case (1 n)
  show ?case
  proof (cases "n < 10")
    case True
    then show ?thesis by (simp add: show_nat.simps[of n] read_digits_def)
  next
    case False
    with 1 show ?thesis by (simp add: show_nat.simps[of n] read_digits_def)
  qed
qed

lemma show_nat_inject [simp]: "show_nat m = show_nat n \<longleftrightarrow> m = n"
  by (metis read_digits_show_nat)

section \<open>Encodings with a decoder\<close>

text \<open>
  Several routines of the program turn a value into text (a worksheet column, a decimal number, a
  command line, a CSV file). What their users rely on is that the value can be read back.
\<close>

locale codec =
  fixes enc :: "'a \<Rightarrow> 'b" and dec :: "'b \<Rightarrow> 'a" and ok :: "'a \<Rightarrow> bool"
  assumes dec_enc: "ok x \<Longrightarrow> dec (enc x) = x"
begin

lemma enc_inject: "ok x \<Longrightarrow> ok y \<Longrightarrow> enc x = enc y \<longleftrightarrow> x = y"
  by (metis dec_enc)

lemma distinct_map_enc: "(\<And>x. x \<in> set xs \<Longrightarrow> ok x) \<Longrightarrow> distinct (map enc xs) \<longleftrightarrow> distinct xs"
  by (auto simp: distinct_map inj_on_def enc_inject)

end

interpretation decimal: codec show_nat read_digits "\<lambda>_. True"
  by unfold_locales simp

end
