(* ===== verification/Py_Float.thy ===== *)
theory Py_Float
  imports Prelude "HOL-Library.Log_Nat"
begin

text \<open>
  Python's \<^verbatim>\<open>float\<close>: IEEE binary64 with rounding to nearest, ties to even. A finite float is
  the rational number it denotes; every operation computes exactly and rounds once, as the
  hardware does. Overflow, infinities and NaN are values; signed zeros are one value, since no
  modelled routine tells them apart. The conversions between \<^verbatim>\<open>int\<close> and \<^verbatim>\<open>float\<close>, the true
  division of integers and the exceptions these raise follow the language reference.
\<close>

named_theorems float_simps \<open>evaluation of float operations on finite operands\<close>

section \<open>Rounding to binary64\<close>

text \<open>Rounding a rational to an integer, ties to even.\<close>

definition round_half_even :: "rat \<Rightarrow> int" where
  "round_half_even x =
     (let f = \<lfloor>x\<rfloor>; r = x - of_int f
      in if r < 1/2 then f else if r > 1/2 then f + 1 else if even f then f else f + 1)"

text \<open>The exponent of the leading bit.\<close>

definition bin_exp :: "rat \<Rightarrow> int" where
  "bin_exp x =
     (let (n, d) = quotient_of \<bar>x\<bar>; k = bitlen n - bitlen d
      in if 2 powi k \<le> \<bar>x\<bar> then k else k - 1)"

text \<open>The weight of the last of the 53 bits of the significand, at least that of a subnormal.\<close>

definition grid_exp :: "rat \<Rightarrow> int" where
  "grid_exp x = max (bin_exp x - 52) (- 1074)"

definition rnd64 :: "rat \<Rightarrow> rat" where
  "rnd64 x =
     (if x = 0 then 0
      else of_int (round_half_even (x / 2 powi grid_exp x)) * 2 powi grid_exp x)"

text \<open>What the users of a rounding rely on: it is monotone and fixes its own results.\<close>

locale rounding =
  fixes rnd :: "rat \<Rightarrow> rat"
  assumes rnd_mono: "x \<le> y \<Longrightarrow> rnd x \<le> rnd y"
    and rnd_idem: "rnd (rnd x) = rnd x"
    and rnd_zero: "rnd 0 = 0"
begin

lemma rnd_le: "x \<le> b \<Longrightarrow> rnd b = b \<Longrightarrow> rnd x \<le> b"
  by (metis rnd_mono)

lemma rnd_ge: "b \<le> x \<Longrightarrow> rnd b = b \<Longrightarrow> b \<le> rnd x"
  by (metis rnd_mono)

lemma rnd_nonneg: "0 \<le> x \<Longrightarrow> 0 \<le> rnd x"
  by (metis rnd_mono rnd_zero)

lemma rnd_nonpos: "x \<le> 0 \<Longrightarrow> rnd x \<le> 0"
  by (metis rnd_mono rnd_zero)

lemma rnd_between: "a \<le> x \<Longrightarrow> x \<le> b \<Longrightarrow> rnd a = a \<Longrightarrow> rnd b = b \<Longrightarrow> a \<le> rnd x \<and> rnd x \<le> b"
  by (metis rnd_mono)

end

text \<open>Rounding that treats both signs alike.\<close>

locale odd_rounding = rounding +
  assumes rnd_minus: "rnd (- x) = - rnd x"
begin

lemma abs_rnd: "\<bar>rnd x\<bar> = rnd \<bar>x\<bar>"
proof (cases "0 \<le> x")
  case True
  then show ?thesis using rnd_nonneg[of x] by simp
next
  case False
  then have "rnd x \<le> 0" by (intro rnd_nonpos) simp
  with False show ?thesis by (simp add: rnd_minus)
qed

lemma abs_rnd_le: "\<bar>x\<bar> \<le> b \<Longrightarrow> rnd b = b \<Longrightarrow> \<bar>rnd x\<bar> \<le> b"
  by (simp add: abs_rnd rnd_le)

end

subsection \<open>Ties to even\<close>

lemma round_half_even_of_int [simp]: "round_half_even (of_int n) = n"
  by (simp add: round_half_even_def)

lemma round_half_even_bounds: "\<lfloor>x\<rfloor> \<le> round_half_even x \<and> round_half_even x \<le> \<lfloor>x\<rfloor> + 1"
  by (simp add: round_half_even_def Let_def)

lemma round_half_even_le: "of_int (round_half_even x) - 1 / 2 \<le> x"
proof -
  have "of_int \<lfloor>x\<rfloor> - 1 / 2 \<le> x" using of_int_floor_le[of x] by linarith
  then show ?thesis by (auto simp: round_half_even_def Let_def)
qed

lemma round_half_even_down: "of_int k < x \<Longrightarrow> x < of_int k + 1 / 2 \<Longrightarrow> round_half_even x = k"
proof -
  assume x: "of_int k < x" "x < of_int k + 1 / 2"
  then have "\<lfloor>x\<rfloor> = k" by (intro floor_unique) auto
  with x show ?thesis by (simp add: round_half_even_def)
qed

lemma round_half_even_up: "of_int k + 1 / 2 < x \<Longrightarrow> x < of_int k + 1 \<Longrightarrow> round_half_even x = k + 1"
proof -
  assume x: "of_int k + 1 / 2 < x" "x < of_int k + 1"
  then have "\<lfloor>x\<rfloor> = k" by (intro floor_unique) auto
  with x show ?thesis by (simp add: round_half_even_def)
qed

lemma round_half_even_mono: "x \<le> y \<Longrightarrow> round_half_even x \<le> round_half_even y"
proof -
  assume le: "x \<le> y"
  show ?thesis
  proof (cases "\<lfloor>x\<rfloor> = \<lfloor>y\<rfloor>")
    case True
    with le show ?thesis by (auto simp: round_half_even_def Let_def)
  next
    case False
    with floor_mono[OF le] have "\<lfloor>x\<rfloor> + 1 \<le> \<lfloor>y\<rfloor>" by simp
    with round_half_even_bounds[of x] round_half_even_bounds[of y] show ?thesis by linarith
  qed
qed

lemma round_half_even_minus: "round_half_even (- x) = - round_half_even x"
proof (cases "x = of_int \<lfloor>x\<rfloor>")
  case True
  then show ?thesis by (metis round_half_even_of_int of_int_minus)
next
  case False
  then have f: "\<lfloor>- x\<rfloor> = - \<lfloor>x\<rfloor> - 1"
    by linarith
  show ?thesis
    unfolding round_half_even_def Let_def f by (auto simp: field_simps)
qed

subsection \<open>The binade of a number\<close>

lemma bin_exp_bounds:
  assumes "x \<noteq> 0"
  shows "2 powi bin_exp x \<le> \<bar>x\<bar> \<and> \<bar>x\<bar> < 2 powi (bin_exp x + 1)"
proof -
  obtain n d where q: "quotient_of \<bar>x\<bar> = (n, d)" by fastforce
  then have d: "d > 0" and x: "\<bar>x\<bar> = of_int n / of_int d"
    using quotient_of_denom_pos[OF q] quotient_of_div[OF q] by auto
  from assms d x have n: "n > 0"
    by (metis abs_ge_zero abs_eq_0 divide_eq_0_iff linorder_not_less of_int_0_eq_iff
        of_int_le_0_iff of_int_pos order_antisym_conv zero_le_divide_iff not_less)
  let ?bn = "bitlen n" and ?bd = "bitlen d"
  have bn: "2 ^ nat (?bn - 1) \<le> n" "n < 2 ^ nat ?bn" and bd: "2 ^ nat (?bd - 1) \<le> d" "d < 2 ^ nat ?bd"
    using bitlen_bounds[OF n] bitlen_bounds[OF d] by auto
  have pos: "1 \<le> ?bn" "1 \<le> ?bd"
    using n d bitlen_bounds[OF n] bitlen_bounds[OF d] by (auto simp: bitlen_alt_def)
  have pw: "of_int (2 ^ nat k) = (2 powi k :: rat)" if "0 \<le> k" for k
    using that by (simp add: power_int_def)
  have "of_int (2 ^ nat (?bn - 1)) \<le> (of_int n :: rat)" "of_int n < (of_int (2 ^ nat ?bn) :: rat)"
    "of_int (2 ^ nat (?bd - 1)) \<le> (of_int d :: rat)" "of_int d < (of_int (2 ^ nat ?bd) :: rat)"
    using bn bd by (simp_all only: of_int_le_iff of_int_less_iff)
  then have n1: "2 powi (?bn - 1) \<le> (of_int n :: rat)" and n2: "(of_int n :: rat) < 2 powi ?bn"
    and d1: "2 powi (?bd - 1) \<le> (of_int d :: rat)" and d2: "(of_int d :: rat) < 2 powi ?bd"
    using pos by (simp_all only: pw)
  let ?k = "?bn - ?bd"
  have d0: "(0::rat) < of_int d" using d by simp
  have "2 powi (?k - 1) * of_int d < 2 powi (?k - 1) * (2 powi ?bd :: rat)"
    using d2 by simp
  also have "\<dots> = 2 powi (?bn - 1)" by (simp add: power_int_add[symmetric])
  also note n1
  finally have lo: "2 powi (?k - 1) < \<bar>x\<bar>" using d0 by (simp add: x pos_less_divide_eq)
  have "(of_int n :: rat) < 2 powi ?bn" by (rule n2)
  also have "\<dots> = 2 powi (?k + 1) * (2 powi (?bd - 1) :: rat)" by (simp add: power_int_add[symmetric])
  also have "\<dots> \<le> 2 powi (?k + 1) * of_int d" using d1 by simp
  finally have hi: "\<bar>x\<bar> < 2 powi (?k + 1)" using d0 by (simp add: x pos_divide_less_eq)
  show ?thesis
    using lo hi by (auto simp: bin_exp_def q Let_def not_le)
qed

lemma bin_exp_unique:
  assumes "2 powi k \<le> \<bar>x\<bar>" "\<bar>x\<bar> < 2 powi (k + 1)"
  shows "bin_exp x = k"
proof -
  have "x \<noteq> 0"
    using assms(1) by (metis abs_0 leD zero_less_numeral zero_less_power_int)
  from bin_exp_bounds[OF this] have b: "2 powi bin_exp x \<le> \<bar>x\<bar>" "\<bar>x\<bar> < 2 powi (bin_exp x + 1)"
    by auto
  have "\<not> bin_exp x + 1 \<le> k"
    using b(2) assms(1) power_int_increasing[of "bin_exp x + 1" k "2::rat"] by auto
  moreover have "\<not> k + 1 \<le> bin_exp x"
    using b(1) assms(2) power_int_increasing[of "k + 1" "bin_exp x" "2::rat"] by auto
  ultimately show ?thesis by simp
qed

lemma bin_exp_minus [simp]: "bin_exp (- x) = bin_exp x"
  by (simp add: bin_exp_def)

lemma grid_exp_minus [simp]: "grid_exp (- x) = grid_exp x"
  by (simp add: grid_exp_def)

lemma bin_exp_mono:
  assumes "0 < x" "x \<le> y"
  shows "bin_exp x \<le> bin_exp y"
proof (rule ccontr)
  assume "\<not> bin_exp x \<le> bin_exp y"
  then have "2 powi (bin_exp y + 1) \<le> (2 powi bin_exp x :: rat)"
    by (intro power_int_increasing) auto
  with bin_exp_bounds[of x] bin_exp_bounds[of y] assms show False by auto
qed

lemma rnd64_minus: "rnd64 (- x) = - rnd64 x"
  by (simp add: rnd64_def round_half_even_minus)

subsection \<open>Representable numbers are fixed, results are representable\<close>

definition representable :: "rat \<Rightarrow> bool" where
  "representable x \<longleftrightarrow> (\<exists>m e. x = of_int m * 2 powi e \<and> \<bar>m\<bar> \<le> 2 ^ 53 \<and> - 1074 \<le> e)"

lemma rnd64_grid:
  assumes "x \<noteq> 0" "x / 2 powi grid_exp x = of_int m"
  shows "rnd64 x = x"
  using assms by (simp add: rnd64_def) (metis assms(2) nonzero_eq_divide_eq power_int_not_zero zero_neq_numeral)

lemma powi_int: "0 \<le> k \<Longrightarrow> (2::rat) powi k = of_int (2 ^ nat k)"
  by (simp add: power_int_def)

lemma representableI: "\<bar>m\<bar> \<le> 2 ^ 53 \<Longrightarrow> - 1074 \<le> e \<Longrightarrow> representable (of_int m * 2 powi e)"
  unfolding representable_def by blast

lemma powi_quot: "g \<le> e \<Longrightarrow> (2::rat) powi e / 2 powi g = of_int (2 ^ nat (e - g))"
  using powi_int[of "e - g"] by (simp add: power_int_diff)

lemma rnd64_representable:
  assumes "representable x"
  shows "rnd64 x = x"
proof (cases "x = 0")
  case True
  then show ?thesis by (simp add: rnd64_def)
next
  case False
  from assms obtain m e where x: "x = of_int m * 2 powi e" and m: "\<bar>m\<bar> \<le> 2 ^ 53" and e: "- 1074 \<le> e"
    by (auto simp: representable_def)
  let ?g = "grid_exp x"
  show ?thesis
  proof (cases "?g \<le> e")
    case True
    then have "x / 2 powi ?g = of_int (m * 2 ^ nat (e - ?g))"
      using powi_quot[OF True] by (simp add: x flip: times_divide_eq_right)
    then show ?thesis by (rule rnd64_grid[OF False])
  next
    case less: False
    then have g: "?g = bin_exp x - 52" using e by (simp add: grid_exp_def)
    have lower: "2 powi (?g + 52) \<le> \<bar>x\<bar>" using bin_exp_bounds[OF False] g by simp
    have "of_int \<bar>m\<bar> \<le> (of_int (2 ^ 53) :: rat)" using m by (simp only: of_int_le_iff)
    then have "\<bar>x\<bar> \<le> 2 ^ 53 * 2 powi e" by (simp add: x abs_mult)
    also have "\<dots> = 2 powi (e + 53)" by (simp add: power_int_add)
    also have "\<dots> \<le> 2 powi (?g + 52)" using less by (intro power_int_increasing) auto
    finally have "\<bar>x\<bar> = 2 powi (?g + 52)" using lower by simp
    then have "\<bar>x\<bar> / 2 powi ?g = 2 ^ 52" by (simp add: power_int_add)
    then have "x / 2 powi ?g = of_int (if 0 \<le> x then 2 ^ 52 else - (2 ^ 52))"
      by (auto simp: abs_if split: if_splits)
    then show ?thesis by (rule rnd64_grid[OF False])
  qed
qed

lemma representable_rnd64: "representable (rnd64 x)"
proof (cases "x = 0")
  case True
  then show ?thesis by (auto simp: rnd64_def representable_def intro: exI[of _ 0])
next
  case False
  let ?g = "grid_exp x" and ?m = "round_half_even (x / 2 powi grid_exp x)"
  have "\<bar>x\<bar> < 2 powi (bin_exp x + 1)" using bin_exp_bounds[OF False] by simp
  also have "\<dots> \<le> 2 powi (?g + 53)" by (intro power_int_increasing) (auto simp: grid_exp_def)
  finally have "\<bar>x / 2 powi ?g\<bar> \<le> of_int (2 ^ 53)" by (simp add: power_int_add abs_mult field_simps)
  then have "x / 2 powi ?g \<le> of_int (2 ^ 53)" "- of_int (2 ^ 53) \<le> x / 2 powi ?g"
    by (simp_all only: abs_le_iff) linarith
  then have "?m \<le> 2 ^ 53" "- (2 ^ 53) \<le> ?m"
    using round_half_even_mono round_half_even_of_int
    by (metis, metis of_int_minus)
  then have "\<bar>?m\<bar> \<le> 2 ^ 53" by auto
  moreover have "- 1074 \<le> ?g" by (simp add: grid_exp_def)
  ultimately show ?thesis
    unfolding representable_def using False
    by (intro exI[of _ ?m] exI[of _ ?g]) (simp add: rnd64_def)
qed

lemma rnd64_fixed_iff: "rnd64 x = x \<longleftrightarrow> representable x"
  by (metis representable_rnd64 rnd64_representable)

lemma representable_of_int: "\<bar>n\<bar> \<le> 2 ^ 53 \<Longrightarrow> representable (of_int n)"
  unfolding representable_def by (rule exI[of _ n], rule exI[of _ 0]) simp

subsection \<open>Monotonicity\<close>

lemma rnd64_le_grid:
  assumes "x \<le> b" "b / 2 powi grid_exp x = of_int m" "x \<noteq> 0"
  shows "rnd64 x \<le> b"
proof -
  have "x / 2 powi grid_exp x \<le> of_int m" using assms(1) by (simp flip: assms(2) add: divide_right_mono)
  then have "round_half_even (x / 2 powi grid_exp x) \<le> m"
    by (metis round_half_even_mono round_half_even_of_int)
  then have "of_int (round_half_even (x / 2 powi grid_exp x)) \<le> b / 2 powi grid_exp x"
    by (simp add: assms(2))
  then show ?thesis using assms(3) by (simp add: rnd64_def field_simps)
qed

lemma rnd64_ge_grid:
  assumes "b \<le> x" "b / 2 powi grid_exp x = of_int m" "x \<noteq> 0"
  shows "b \<le> rnd64 x"
  using rnd64_le_grid[of "- x" "- b" "- m"] assms by (simp add: rnd64_minus)

lemma rnd64_mono_pos:
  assumes "0 < x" "x \<le> y"
  shows "rnd64 x \<le> rnd64 y"
proof (cases "grid_exp x = grid_exp y")
  case True
  have "round_half_even (x / 2 powi grid_exp y) \<le> round_half_even (y / 2 powi grid_exp y)"
    using assms by (intro round_half_even_mono divide_right_mono) auto
  then show ?thesis using assms True by (simp add: rnd64_def mult_right_mono)
next
  case False
  let ?b = "2 powi bin_exp y :: rat"
  from False bin_exp_mono[OF assms] have g: "grid_exp x < grid_exp y" "bin_exp x < bin_exp y"
    by (auto simp: grid_exp_def max_def split: if_splits)
  then have gy: "grid_exp y = bin_exp y - 52" by (auto simp: grid_exp_def max_def split: if_splits)
  have "?b / 2 powi grid_exp x = of_int (2 ^ nat (bin_exp y - grid_exp x))"
    using g gy by (intro powi_quot) simp
  moreover have "x \<le> ?b"
    using bin_exp_bounds[of x] assms(1) g power_int_increasing[of "bin_exp x + 1" "bin_exp y" "2::rat"]
    by auto
  ultimately have "rnd64 x \<le> ?b" using assms(1) by (intro rnd64_le_grid) auto
  moreover have "?b \<le> rnd64 y"
  proof (rule rnd64_ge_grid)
    show "?b \<le> y" using bin_exp_bounds[of y] assms by simp
    show "?b / 2 powi grid_exp y = of_int (2 ^ 52)" by (simp add: gy power_int_diff)
    show "y \<noteq> 0" using assms by simp
  qed
  ultimately show ?thesis by simp
qed

lemma rnd64_sign: "0 \<le> x \<Longrightarrow> 0 \<le> rnd64 x"
proof (cases "x = 0")
  case False
  assume "0 \<le> x"
  with False show ?thesis by (intro rnd64_ge_grid[of 0 x 0]) auto
qed (simp add: rnd64_def)

lemma rnd64_mono: "x \<le> y \<Longrightarrow> rnd64 x \<le> rnd64 y"
proof -
  assume le: "x \<le> y"
  consider "0 < x" | "x \<le> 0" "0 \<le> y" | "y < 0" by linarith
  then show ?thesis
  proof cases
    case 1
    then show ?thesis using le by (rule rnd64_mono_pos)
  next
    case 2
    then show ?thesis using rnd64_sign[of y] rnd64_sign[of "- x"] by (simp add: rnd64_minus)
  next
    case 3
    then show ?thesis using rnd64_mono_pos[of "- y" "- x"] le by (simp add: rnd64_minus)
  qed
qed

interpretation r64: odd_rounding rnd64
  by unfold_locales
    (simp_all add: rnd64_mono rnd64_minus rnd64_representable[OF representable_rnd64], simp add: rnd64_def)

section \<open>Float values and operations\<close>

datatype pyfloat = Fin rat | PInf | NInf | NaN

text \<open>The float nearest to an exact result; \<open>2 ^ 1024\<close> and beyond is an infinity.\<close>

definition to_float :: "rat \<Rightarrow> pyfloat" where
  "to_float x =
     (let r = rnd64 x in if 2 ^ 1024 \<le> r then PInf else if r \<le> - (2 ^ 1024) then NInf else Fin r)"

fun fneg :: "pyfloat \<Rightarrow> pyfloat" where
  "fneg (Fin a) = Fin (- a)"
| "fneg PInf = NInf"
| "fneg NInf = PInf"
| "fneg NaN = NaN"

fun fadd :: "pyfloat \<Rightarrow> pyfloat \<Rightarrow> pyfloat" where
  "fadd (Fin a) (Fin b) = to_float (a + b)"
| "fadd NaN y = NaN"
| "fadd x NaN = NaN"
| "fadd PInf NInf = NaN"
| "fadd NInf PInf = NaN"
| "fadd PInf y = PInf"
| "fadd NInf y = NInf"
| "fadd x PInf = PInf"
| "fadd x NInf = NInf"

definition fsub :: "pyfloat \<Rightarrow> pyfloat \<Rightarrow> pyfloat" where
  "fsub x y = fadd x (fneg y)"

fun inf_times :: "rat \<Rightarrow> pyfloat" where
  "inf_times b = (if b = 0 then NaN else if 0 < b then PInf else NInf)"

fun fmul :: "pyfloat \<Rightarrow> pyfloat \<Rightarrow> pyfloat" where
  "fmul (Fin a) (Fin b) = to_float (a * b)"
| "fmul NaN y = NaN"
| "fmul x NaN = NaN"
| "fmul PInf (Fin b) = inf_times b"
| "fmul NInf (Fin b) = inf_times (- b)"
| "fmul (Fin a) PInf = inf_times a"
| "fmul (Fin a) NInf = inf_times (- a)"
| "fmul PInf y = y"
| "fmul NInf y = fneg y"

fun fdiv :: "pyfloat \<Rightarrow> pyfloat \<Rightarrow> py_exn + pyfloat" where
  "fdiv x (Fin b) =
     (if b = 0 then Inl ZeroDivisionError
      else case x of Fin a \<Rightarrow> Inr (to_float (a / b)) | NaN \<Rightarrow> Inr NaN
        | PInf \<Rightarrow> Inr (inf_times b) | NInf \<Rightarrow> Inr (inf_times (- b)))"
| "fdiv (Fin a) NaN = Inr NaN"
| "fdiv (Fin a) y = Inr (Fin 0)"
| "fdiv x y = Inr NaN"

fun flt :: "pyfloat \<Rightarrow> pyfloat \<Rightarrow> bool" where
  "flt (Fin a) (Fin b) = (a < b)"
| "flt NaN y = False"
| "flt x NaN = False"
| "flt NInf y = (y \<noteq> NInf)"
| "flt x NInf = False"
| "flt x PInf = (x \<noteq> PInf)"
| "flt PInf y = False"

definition fle :: "pyfloat \<Rightarrow> pyfloat \<Rightarrow> bool" where
  "fle x y \<longleftrightarrow> flt x y \<or> (x = y \<and> x \<noteq> NaN)"

text \<open>The built-ins \<^verbatim>\<open>max(a, b)\<close> and \<^verbatim>\<open>min(a, b)\<close> keep the first unless the second is strictly better.\<close>

definition py_max :: "pyfloat \<Rightarrow> pyfloat \<Rightarrow> pyfloat" where
  "py_max x y = (if flt x y then y else x)"

definition py_min :: "pyfloat \<Rightarrow> pyfloat \<Rightarrow> pyfloat" where
  "py_min x y = (if flt y x then y else x)"

text \<open>Conversion of an integer, as in mixed arithmetic, and the true division of two integers.\<close>

definition of_py_int :: "int \<Rightarrow> py_exn + pyfloat" where
  "of_py_int n = (case to_float (of_int n) of Fin r \<Rightarrow> Inr (Fin r) | _ \<Rightarrow> Inl OverflowError)"

definition int_div :: "int \<Rightarrow> int \<Rightarrow> py_exn + pyfloat" where
  "int_div a b =
     (if b = 0 then Inl ZeroDivisionError
      else case to_float (of_int a / of_int b) of Fin r \<Rightarrow> Inr (Fin r) | _ \<Rightarrow> Inl OverflowError)"

text \<open>\<^verbatim>\<open>int(x)\<close> truncates towards zero.\<close>

fun to_py_int :: "pyfloat \<Rightarrow> py_exn + int" where
  "to_py_int (Fin a) = Inr (if 0 \<le> a then \<lfloor>a\<rfloor> else \<lceil>a\<rceil>)"
| "to_py_int NaN = Inl ValueError"
| "to_py_int x = Inl OverflowError"

subsection \<open>Facts for finite operands\<close>

lemma representable_0 [simp]: "representable 0"
  using representable_of_int[of 0] by simp

lemma representable_1 [simp]: "representable 1"
  using representable_of_int[of 1] by simp

lemma representable_numeral: "numeral k \<le> (2 ^ 53 :: int) \<Longrightarrow> representable (numeral k)"
  using representable_of_int[of "numeral k"] by simp

lemma representable_pow2: "representable (2 ^ k)" if "k \<le> 1074"
  unfolding representable_def by (rule exI[of _ 1], rule exI[of _ "int k"]) (simp add: power_int_def)

lemma to_float_fixed [float_simps]:
  assumes "representable x" "\<bar>x\<bar> < 2 ^ 1024"
  shows "to_float x = Fin x"
  using assms by (auto simp: to_float_def rnd64_representable Let_def abs_less_iff)

lemma to_float_of_int [float_simps]: "\<bar>n\<bar> \<le> 2 ^ 53 \<Longrightarrow> to_float (of_int n) = Fin (of_int n)"
proof (rule to_float_fixed)
  assume n: "\<bar>n\<bar> \<le> 2 ^ 53"
  then show "representable (of_int n)" by (rule representable_of_int)
  have "of_int \<bar>n\<bar> \<le> (of_int (2 ^ 53) :: rat)" using n by (simp only: of_int_le_iff)
  also have "\<dots> < 2 ^ 1024" by simp
  finally show "\<bar>of_int n\<bar> < (2 ^ 1024 :: rat)" by simp
qed

lemma to_float_numeral [float_simps]: "numeral k \<le> (2 ^ 53 :: int) \<Longrightarrow> to_float (numeral k) = Fin (numeral k)"
  using to_float_of_int[of "numeral k"] by simp

lemma to_float_0 [float_simps, simp]: "to_float 0 = Fin 0"
  using to_float_of_int[of 0] by simp

lemma to_float_1 [float_simps, simp]: "to_float 1 = Fin 1"
  using to_float_of_int[of 1] by simp

lemma to_float_bounded:
  assumes "\<bar>x\<bar> \<le> 2 ^ 1023"
  shows "to_float x = Fin (rnd64 x)" and "\<bar>rnd64 x\<bar> \<le> 2 ^ 1023"
proof -
  have "rnd64 (2 ^ 1023) = 2 ^ 1023" by (rule rnd64_representable[OF representable_pow2]) simp
  with assms show b: "\<bar>rnd64 x\<bar> \<le> 2 ^ 1023" by (rule r64.abs_rnd_le)
  have "(2::rat) ^ 1023 < 2 ^ 1024" by simp
  with b have "\<bar>rnd64 x\<bar> < 2 ^ 1024" by (rule le_less_trans)
  then show "to_float x = Fin (rnd64 x)" by (auto simp: to_float_def Let_def abs_less_iff)
qed

lemma of_py_int_small [float_simps]: "\<bar>n\<bar> \<le> 2 ^ 53 \<Longrightarrow> of_py_int n = Inr (Fin (of_int n))"
  by (simp add: of_py_int_def to_float_of_int)

lemma of_py_int_Inr: "of_py_int n = Inr x \<Longrightarrow> x = Fin (rnd64 (of_int n))"
  by (auto simp: of_py_int_def to_float_def Let_def split: if_splits)

lemma int_div_Inr: "int_div a b = Inr x \<Longrightarrow> x = Fin (rnd64 (of_int a / of_int b)) \<and> b \<noteq> 0"
  by (auto simp: int_div_def to_float_def Let_def split: if_splits)

lemma to_py_int_nonneg: "0 \<le> a \<Longrightarrow> to_py_int (Fin a) = Inr \<lfloor>a\<rfloor>"
  by simp

lemma fle_Fin [simp]: "fle (Fin a) (Fin b) \<longleftrightarrow> a \<le> b"
  by (auto simp: fle_def)

lemma not_flt: "x \<noteq> NaN \<Longrightarrow> y \<noteq> NaN \<Longrightarrow> \<not> flt x y \<longleftrightarrow> fle y x"
  by (cases x; cases y) (auto simp: fle_def)

lemma fle_trans: "fle x y \<Longrightarrow> fle y z \<Longrightarrow> fle x z"
  by (cases x; cases y; cases z) (auto simp: fle_def)

lemma fle_refl: "x \<noteq> NaN \<Longrightarrow> fle x x"
  by (simp add: fle_def)

lemma py_max_Fin [simp]: "py_max (Fin a) (Fin b) = Fin (max a b)"
  by (simp add: py_max_def max_def)

lemma py_min_Fin [simp]: "py_min (Fin a) (Fin b) = Fin (min a b)"
  by (auto simp: py_min_def min_def)

lemma to_float_unit:
  assumes "0 \<le> x" "x \<le> 1"
  shows "to_float x = Fin (rnd64 x)" "0 \<le> rnd64 x" "rnd64 x \<le> 1"
proof -
  have "(1::rat) \<le> 2 ^ 1023" by simp
  with assms have "\<bar>x\<bar> \<le> 2 ^ 1023" by linarith
  then show "to_float x = Fin (rnd64 x)" by (rule to_float_bounded(1))
  show "0 \<le> rnd64 x" "rnd64 x \<le> 1"
    using assms by (simp_all add: r64.rnd_nonneg r64.rnd_le rnd64_representable)
qed

text \<open>Division of a part by its whole, the shape of every ratio the harness reports.\<close>

lemma int_div_ratio:
  assumes "0 \<le> a" "a \<le> b" "0 < b"
  shows "\<exists>q. int_div a b = Inr (Fin q) \<and> 0 \<le> q \<and> q \<le> 1 \<and> (a = b \<longrightarrow> q = 1)"
proof -
  let ?x = "of_int a / of_int b :: rat"
  have x: "0 \<le> ?x" "?x \<le> 1" using assms by (simp_all add: pos_divide_le_eq)
  have "int_div a b = Inr (Fin (rnd64 ?x))" using assms by (simp add: int_div_def to_float_unit(1)[OF x])
  moreover have "rnd64 ?x = 1" if "a = b" using that assms by (simp add: rnd64_representable)
  ultimately show ?thesis using to_float_unit(2,3)[OF x] by blast
qed

text \<open>Evaluation of a rounding from its binade and its rounded significand.\<close>

lemma rnd64_eval:
  assumes "2 powi k \<le> \<bar>x\<bar>" "\<bar>x\<bar> < 2 powi (k + 1)" "g = max (k - 52) (- 1074)"
    and "round_half_even (x / 2 powi g) = m"
  shows "rnd64 x = of_int m * 2 powi g"
proof -
  have g: "grid_exp x = g" using bin_exp_unique[OF assms(1,2)] assms(3) by (simp add: grid_exp_def)
  have "x \<noteq> 0" using assms(1) by (metis abs_0 leD zero_less_numeral zero_less_power_int)
  then show ?thesis by (simp add: rnd64_def g assms(4))
qed

subsection \<open>Linear interpolation in binary64\<close>

text \<open>The smallest positive float, of which every float is a multiple.\<close>

definition tiny :: rat where
  "tiny = 2 powi (- 1074)"

lemma tiny_pos: "0 < tiny"
  unfolding tiny_def by (rule zero_less_power_int) simp

lemma representable_multiple: "representable x \<Longrightarrow> \<exists>k. x = of_int k * tiny"
proof -
  assume "representable x"
  then obtain m e where x: "x = of_int m * 2 powi e" and e: "- 1074 \<le> e"
    by (auto simp: representable_def)
  have q: "(2::rat) powi e / tiny = of_int (2 ^ nat (e - (- 1074)))"
    unfolding tiny_def by (rule powi_quot[OF e])
  have nz: "tiny \<noteq> 0" using tiny_pos by simp
  have "(2::rat) powi e = of_int (2 ^ nat (e - (- 1074))) * tiny"
    by (rule iffD1[OF nonzero_divide_eq_eq[OF nz] q])
  then have "x = of_int (m * 2 ^ nat (e - (- 1074))) * tiny"
    by (simp only: x of_int_mult mult.assoc)
  then show ?thesis ..
qed

lemma representable_frac:
  assumes "representable x" "0 \<le> x"
  shows "representable (x - of_int \<lfloor>x\<rfloor>)" and "x - of_int \<lfloor>x\<rfloor> \<le> 1 - 1 / 2 ^ 53"
proof -
  from assms(1) obtain m e where x: "x = of_int m * 2 powi e" and m: "\<bar>m\<bar> \<le> 2 ^ 53" and e: "- 1074 \<le> e"
    by (auto simp: representable_def)
  have m0: "0 \<le> m"
  proof (rule ccontr)
    assume "\<not> 0 \<le> m"
    then have "x < 0" unfolding x by (intro mult_neg_pos) simp_all
    with assms(2) show False by simp
  qed
  let ?f = "x - of_int \<lfloor>x\<rfloor>"
  have "representable ?f \<and> ?f \<le> 1 - 1 / 2 ^ 53"
  proof (cases "0 \<le> e")
    case True
    then have "x = of_int (m * 2 ^ nat e)" by (simp add: x powi_int)
    then have "?f = 0" by (metis diff_self floor_of_int)
    then show ?thesis by simp
  next
    case False
    let ?k = "nat (- e)"
    have p: "(2::rat) powi e = 1 / of_int (2 ^ ?k)" using False by (simp add: power_int_def field_simps)
    have xf: "x = of_int m / of_int (2 ^ ?k)" by (simp add: x p)
    have fl: "\<lfloor>x\<rfloor> = m div 2 ^ ?k" unfolding xf by (rule floor_divide_of_int_eq)
    have "(of_int m :: rat) = of_int (2 ^ ?k) * of_int (m div 2 ^ ?k) + of_int (m mod 2 ^ ?k)"
      by (metis mult_div_mod_eq of_int_add of_int_mult)
    then have f: "?f = of_int (m mod 2 ^ ?k) * 2 powi e"
      unfolding fl unfolding xf p by (simp add: field_simps)
    have mm: "0 \<le> m mod 2 ^ ?k" "m mod 2 ^ ?k \<le> m" "m mod 2 ^ ?k \<le> 2 ^ ?k - 1"
      using m0 pos_mod_bound[of "2 ^ ?k" m] by (simp_all add: zmod_le_nonneg_dividend del: pos_mod_bound)
    have "representable ?f" unfolding f using mm m e by (intro representableI) auto
    moreover have "?f \<le> 1 - 1 / 2 ^ 53"
    proof (cases "?k \<le> 53")
      case True
      have "?f \<le> of_int (2 ^ ?k - 1) * 2 powi e"
        unfolding f using mm(3) by (intro mult_right_mono) (simp_all only: of_int_le_iff, simp)
      also have "\<dots> = 1 - 1 / 2 ^ ?k" by (simp add: p field_simps)
      also have "\<dots> \<le> 1 - 1 / 2 ^ 53"
        using True power_increasing[of ?k 53 "2::rat"] by (simp add: frac_le)
      finally show ?thesis .
    next
      case k: False
      have "?f \<le> of_int (2 ^ 53) * 2 powi e"
        unfolding f using mm m m0 by (intro mult_right_mono) (simp_all only: of_int_le_iff, simp_all)
      also have "\<dots> \<le> of_int (2 ^ 53) * 2 powi (- 54)"
        using k by (intro mult_left_mono power_int_increasing) auto
      also have "\<dots> \<le> 1 - 1 / 2 ^ 53" by (simp add: power_int_def power_divide)
      finally show ?thesis .
    qed
    ultimately show ?thesis ..
  qed
  then show "representable ?f" and "?f \<le> 1 - 1 / 2 ^ 53" by auto
qed

text \<open>
  Rounding up by less than half a unit is undone by a factor below one: the step back that the
  factor takes is at least as long as the one the rounding took forward.
\<close>

lemma rnd64_scaled_le:
  assumes x: "0 \<le> x" "x = of_int k * tiny" and t: "0 \<le> t" "t \<le> 1 - 1 / 2 ^ 53"
  shows "rnd64 (rnd64 x * t) \<le> x"
proof (cases "rnd64 x \<le> x")
  case True
  have "rnd64 x * t \<le> rnd64 x * 1" using t x rnd64_sign[of x] by (intro mult_left_mono) auto
  then have "rnd64 (rnd64 x * t) \<le> rnd64 x" by (metis mult.right_neutral r64.rnd_idem rnd64_mono)
  with True show ?thesis by simp
next
  case up: False
  then have x0: "x \<noteq> 0" by (auto simp: rnd64_def)
  let ?g = "grid_exp x" and ?M = "round_half_even (x / 2 powi grid_exp x)"
  let ?u = "2 powi grid_exp x :: rat"
  have D: "rnd64 x = of_int ?M * ?u" using x0 by (simp add: rnd64_def)
  have u: "0 < ?u" by simp
  have "?g \<noteq> - 1074"
  proof
    assume "?g = - 1074"
    then have "x / 2 powi ?g = of_int k"
      using tiny_pos by (simp only: x(2) tiny_def[symmetric]) simp
    then have "rnd64 x = x" by (rule rnd64_grid[OF x0])
    with up show False by simp
  qed
  then have g: "?g = bin_exp x - 52" "- 1074 < ?g" by (auto simp: grid_exp_def max_def split: if_splits)
  have xb: "2 ^ 52 * ?u \<le> x" "x < 2 ^ 53 * ?u"
    using bin_exp_bounds[OF x0] x(1) by (simp_all add: g power_int_diff power_int_add)
  let ?q = "x / ?u"
  have q: "of_int (2 ^ 52) \<le> ?q" "?q \<le> of_int (2 ^ 53)" "?q < of_int ?M"
    using xb up u by (simp_all add: D field_simps)
  have M: "2 ^ 52 < ?M" "?M \<le> 2 ^ 53"
    using q round_half_even_mono[OF q(2)] by (simp_all only: round_half_even_of_int)
  have half: "of_int ?M - 1 / 2 \<le> ?q" by (rule round_half_even_le)
  let ?z = "rnd64 x * t"
  have "?z \<le> rnd64 x * (1 - 1 / 2 ^ 53)" using t(2) rnd64_sign[OF x(1)] by (rule mult_left_mono)
  also have "\<dots> = (of_int ?M - of_int ?M / 2 ^ 53) * ?u" by (simp add: D field_simps)
  also have "\<dots> < (of_int ?M - 1 / 2) * ?u"
  proof (rule mult_strict_right_mono[OF _ u])
    have "of_int (2 ^ 52) < (of_int ?M :: rat)" using M(1) by (simp only: of_int_less_iff)
    then show "of_int ?M - of_int ?M / 2 ^ 53 < (of_int ?M - 1 / 2 :: rat)" by (simp add: field_simps)
  qed
  finally have z: "?z / ?u < of_int ?M - 1 / 2" using u by (simp add: field_simps)
  have rep: "rnd64 (of_int (?M - 1) * ?u) = of_int (?M - 1) * ?u"
    using M g by (intro rnd64_representable representableI) auto
  have "rnd64 ?z \<le> of_int (?M - 1) * ?u"
  proof (cases "?z \<le> of_int (?M - 1) * ?u")
    case True
    then show ?thesis using rep by (rule r64.rnd_le)
  next
    case above: False
    then have zq: "of_int (?M - 1) < ?z / ?u" using u by (simp add: field_simps)
    have M1: "of_int (2 ^ 52) \<le> (of_int (?M - 1) :: rat)" using M(1) by (simp only: of_int_le_iff)
    have M2: "(of_int ?M :: rat) \<le> of_int (2 ^ 53)" using M(2) by (simp only: of_int_le_iff)
    have "of_int (2 ^ 52) < ?z / ?u" "?z / ?u < of_int (2 ^ 53)" using zq z M1 M2 by linarith+
    then have zb: "2 ^ 52 * ?u < ?z" "?z < 2 ^ 53 * ?u" using u by (simp_all add: field_simps)
    have z0: "0 < ?z" using zb(1) u by (meson less_trans mult_pos_pos zero_less_numeral zero_less_power)
    have "bin_exp ?z = bin_exp x"
      using zb z0 by (intro bin_exp_unique) (simp_all add: g power_int_diff power_int_add)
    then have gz: "grid_exp ?z = ?g" by (simp add: grid_exp_def)
    have down: "round_half_even (?z / ?u) = ?M - 1"
      using zq z by (intro round_half_even_down) simp_all
    have "rnd64 ?z = of_int (round_half_even (?z / ?u)) * ?u"
      unfolding rnd64_def[of ?z] gz by (rule if_not_P) (use z0 in auto)
    then show ?thesis by (simp only: down)
  qed
  also have "\<dots> \<le> x"
  proof -
    have "of_int (?M - 1) \<le> ?q" using half by simp
    then show ?thesis using u by (simp only: pos_le_divide_eq)
  qed
  finally show ?thesis .
qed

text \<open>Interpolating between two floats stays between them.\<close>

lemma lerp_bounds:
  assumes a: "representable a" "0 \<le> a" and b: "representable b" "a \<le> b"
    and t: "0 \<le> t" "t \<le> 1 - 1 / 2 ^ 53"
  shows "a \<le> rnd64 (a + rnd64 (rnd64 (b - a) * t))"
    and "rnd64 (a + rnd64 (rnd64 (b - a) * t)) \<le> b"
proof -
  have D: "0 \<le> rnd64 (b - a)" using b by (intro rnd64_sign) simp
  then have p: "0 \<le> rnd64 (rnd64 (b - a) * t)" using t by (intro rnd64_sign) simp
  then show "a \<le> rnd64 (a + rnd64 (rnd64 (b - a) * t))"
    using a by (intro r64.rnd_ge) (simp_all add: rnd64_representable)
  obtain k j where "a = of_int k * tiny" "b = of_int j * tiny"
    using representable_multiple a(1) b(1) by blast
  then have "b - a = of_int (j - k) * tiny" by (simp add: algebra_simps)
  then have "rnd64 (rnd64 (b - a) * t) \<le> b - a" using b t by (intro rnd64_scaled_le[of "b - a" "j - k"]) auto
  then show "rnd64 (a + rnd64 (rnd64 (b - a) * t)) \<le> b"
    using b by (intro r64.rnd_le) (simp_all add: rnd64_representable)
qed

section \<open>Floats in order\<close>

text \<open>The order of the floats, with \<^verbatim>\<open>nan\<close>, which no comparison of Python places, at the end.\<close>

instantiation pyfloat :: linorder
begin

definition less_eq_pyfloat :: "pyfloat \<Rightarrow> pyfloat \<Rightarrow> bool" where
  "less_eq_pyfloat x y \<longleftrightarrow> y = NaN \<or> fle x y"

definition less_pyfloat :: "pyfloat \<Rightarrow> pyfloat \<Rightarrow> bool" where
  "less_pyfloat x y \<longleftrightarrow> x \<noteq> NaN \<and> (y = NaN \<or> flt x y)"

instance
proof
  fix x y z :: pyfloat
  show "x < y \<longleftrightarrow> x \<le> y \<and> \<not> y \<le> x"
    by (cases x; cases y) (auto simp: less_eq_pyfloat_def less_pyfloat_def fle_def)
  show "x \<le> x" by (cases x) (simp_all add: less_eq_pyfloat_def fle_def)
  show "x \<le> z" if "x \<le> y" "y \<le> z"
    using that by (cases x; cases y; cases z) (auto simp: less_eq_pyfloat_def fle_def)
  show "x = y" if "x \<le> y" "y \<le> x" using that by (cases x; cases y) (auto simp: less_eq_pyfloat_def fle_def)
  show "x \<le> y \<or> y \<le> x" by (cases x; cases y) (auto simp: less_eq_pyfloat_def fle_def)
qed

end

lemma flt_less: "x \<noteq> NaN \<Longrightarrow> y \<noteq> NaN \<Longrightarrow> flt x y \<longleftrightarrow> x < y"
  by (simp add: less_pyfloat_def)

lemma fle_less_eq: "x \<noteq> NaN \<Longrightarrow> y \<noteq> NaN \<Longrightarrow> fle x y \<longleftrightarrow> x \<le> y"
  by (simp add: less_eq_pyfloat_def)

end
