(* ===== verification/Statistics.thy ===== *)
theory Statistics
  imports Py_Float
begin

text \<open>
  The sample statistics of the harness (\<^verbatim>\<open>bench/benchmark.py\<close>): \<^verbatim>\<open>percentile\<close>, evaluated in
  binary64 arithmetic exactly as the code computes it, rounding included, and the ordering
  facts that the reported p50, p95 and p99 columns rest on.
\<close>

section \<open>Definitions\<close>

text \<open>
  The samples are finite floats (each one is an integer divided by \<open>1_000_000\<close>); \<^verbatim>\<open>sorted\<close> on
  them is \<open>sort\<close>. The result is \<^verbatim>\<open>None\<close> for no samples.
\<close>

definition percentile :: "rat list \<Rightarrow> pyfloat \<Rightarrow> py_exn + pyfloat option" where
  "percentile samples fraction =
     (if samples = [] then Inr None
      else
        let ordered = sort samples; n = int (length ordered) in
        seq (of_py_int (n - 1)) (\<lambda>span.
        let position = fmul span fraction in
        seq (to_py_int position) (\<lambda>lower.
        let upper = min (lower + 1) (n - 1) in
        seq (py_nth ordered lower) (\<lambda>low.
        seq (py_nth ordered upper) (\<lambda>high.
        seq (of_py_int lower) (\<lambda>base.
          Inr (Some (fadd (Fin low) (fmul (fsub (Fin high) (Fin low)) (fsub position base))))))))))"

text \<open>Samples the harness can produce: nonnegative floats far from overflow.\<close>

definition sample_ok :: "rat \<Rightarrow> bool" where
  "sample_ok x \<longleftrightarrow> representable x \<and> 0 \<le> x \<and> x \<le> 2 ^ 1022"

text \<open>The place of a fraction among the sorted samples, and the value read off there.\<close>

definition rank_of :: "rat list \<Rightarrow> rat \<Rightarrow> rat" where
  "rank_of samples f = rnd64 (of_int (int (length samples) - 1) * f)"

definition lerp_at :: "rat list \<Rightarrow> rat \<Rightarrow> rat" where
  "lerp_at xs p =
     (let k = nat \<lfloor>p\<rfloor>; a = xs ! k; b = xs ! min (k + 1) (length xs - 1)
      in rnd64 (a + rnd64 (rnd64 (b - a) * (p - of_int \<lfloor>p\<rfloor>))))"

section \<open>Evaluation\<close>

lemma rank_of_bounds:
  assumes "samples \<noteq> []" "int (length samples) \<le> 2 ^ 53" "0 \<le> f" "f \<le> 1"
  shows "0 \<le> rank_of samples f" "rank_of samples f \<le> of_int (int (length samples) - 1)"
    "representable (rank_of samples f)"
proof -
  let ?n = "int (length samples) - 1"
  have n: "0 \<le> ?n" "\<bar>?n\<bar> \<le> 2 ^ 53" using assms(1,2) by (cases samples; simp)+
  have n': "(0::rat) \<le> of_int ?n" using n(1) by (simp only: of_int_0_le_iff)
  show "0 \<le> rank_of samples f"
    unfolding rank_of_def using n' assms(3) by (intro r64.rnd_nonneg mult_nonneg_nonneg)
  have "of_int ?n * f \<le> of_int ?n * 1" using n' assms(4) by (intro mult_left_mono)
  then show "rank_of samples f \<le> of_int ?n"
    unfolding rank_of_def
    using rnd64_representable[OF representable_of_int[OF n(2)]] by (intro r64.rnd_le) (simp_all del: of_int_diff)
  show "representable (rank_of samples f)"
    unfolding rank_of_def by (rule representable_rnd64)
qed

lemma rank_of_mono: "f \<le> g \<Longrightarrow> samples \<noteq> [] \<Longrightarrow> rank_of samples f \<le> rank_of samples g"
  unfolding rank_of_def by (intro rnd64_mono mult_left_mono) (cases samples; simp)+

lemma floor_in_range:
  assumes "0 \<le> p" "p \<le> of_int (int n - 1)"
  shows "0 \<le> \<lfloor>p\<rfloor>" "\<lfloor>p\<rfloor> \<le> int n - 1" "nat \<lfloor>p\<rfloor> < n"
proof -
  show 1: "0 \<le> \<lfloor>p\<rfloor>" using assms(1) by simp
  show 2: "\<lfloor>p\<rfloor> \<le> int n - 1" using floor_mono[OF assms(2)] by (simp only: floor_of_int)
  show "nat \<lfloor>p\<rfloor> < n" using 1 2 by linarith
qed

lemma diff_float:
  assumes "0 \<le> a" "a \<le> b" "b \<le> 2 ^ 1022"
  shows "fsub (Fin b) (Fin a) = Fin (rnd64 (b - a))" "0 \<le> rnd64 (b - a)" "rnd64 (b - a) \<le> 2 ^ 1022"
proof -
  have e: "(2::rat) ^ 1022 \<le> 2 ^ 1023" by simp
  have d: "0 \<le> b - a" "b - a \<le> 2 ^ 1022" using assms by auto
  then have "\<bar>b - a\<bar> \<le> 2 ^ 1023" using e by linarith
  then show "fsub (Fin b) (Fin a) = Fin (rnd64 (b - a))" by (simp add: fsub_def to_float_bounded(1))
  show "0 \<le> rnd64 (b - a)" using d(1) by (rule r64.rnd_nonneg)
  show "rnd64 (b - a) \<le> 2 ^ 1022"
    using d(2) by (rule r64.rnd_le) (rule rnd64_representable[OF representable_pow2], simp)
qed

lemma lerp_float:
  assumes "0 \<le> a" "a \<le> b" "b \<le> 2 ^ 1022" "0 \<le> t" "t \<le> 1"
  shows "fadd (Fin a) (fmul (fsub (Fin b) (Fin a)) (Fin t)) =
    Fin (rnd64 (a + rnd64 (rnd64 (b - a) * t)))"
proof -
  let ?D = "rnd64 (b - a)"
  have e: "(2::rat) ^ 1022 + 2 ^ 1022 \<le> 2 ^ 1023" by simp
  note D = diff_float[OF assms(1-3)]
  have m: "0 \<le> ?D * t" "?D * t \<le> 2 ^ 1022"
    using D assms(4,5) mult_mono[of ?D "2 ^ 1022" t 1] by auto
  then have "\<bar>?D * t\<bar> \<le> 2 ^ 1023" using e by linarith
  then have p: "fmul (Fin ?D) (Fin t) = Fin (rnd64 (?D * t))" by (simp add: to_float_bounded(1))
  have q: "0 \<le> rnd64 (?D * t)" "rnd64 (?D * t) \<le> 2 ^ 1022"
    using m(1) r64.rnd_le[OF m(2) rnd64_representable[OF representable_pow2]] by (simp_all add: r64.rnd_nonneg)
  then have "\<bar>a + rnd64 (?D * t)\<bar> \<le> 2 ^ 1023" using e assms by linarith
  then show ?thesis by (simp only: D(1) p fadd.simps to_float_bounded(1))
qed

lemma percentile_eval:
  assumes ne: "samples \<noteq> []" and ok: "\<And>x. x \<in> set samples \<Longrightarrow> sample_ok x"
    and len: "int (length samples) \<le> 2 ^ 53" and f: "0 \<le> f" "f \<le> 1"
  shows "percentile samples (Fin f) = Inr (Some (Fin (lerp_at (sort samples) (rank_of samples f))))"
proof -
  let ?s = "sort samples" and ?p = "rank_of samples f"
  let ?n = "int (length samples)" and ?l = "\<lfloor>rank_of samples f\<rfloor>"
  note p = rank_of_bounds[OF ne len f]
  note fl = floor_in_range[OF p(1,2)]
  have n1: "0 \<le> ?n - 1" using ne by (cases samples) auto
  have nf: "\<bar>?n - 1\<bar> \<le> 2 ^ 53" "\<bar>?l\<bar> \<le> 2 ^ 53" using n1 len fl(1,2) by linarith+
  let ?u = "min (?l + 1) (?n - 1)"
  have u: "0 \<le> ?u" "?u < ?n" "nat ?u = min (nat ?l + 1) (length samples - 1)" "nat ?l \<le> nat ?u"
    using fl n1 by (auto simp: min_def nat_diff_distrib nat_add_distrib)
  have mem: "?s ! nat ?l \<in> set samples" "?s ! nat ?u \<in> set samples"
    using fl u n1 by (metis length_sort nth_mem set_sort, metis length_sort nat_less_iff nth_mem set_sort u(1,2))
  have lt: "nat ?u < length ?s" using u(1,2) by (simp add: nat_less_iff)
  have ab: "?s ! nat ?l \<le> ?s ! nat ?u"
    by (rule sorted_nth_mono[OF sorted_sort u(4) lt])
  have ok': "0 \<le> ?s ! nat ?l" "?s ! nat ?u \<le> 2 ^ 1022"
    using ok[OF mem(1)] ok[OF mem(2)] by (auto simp: sample_ok_def)
  have span: "fmul (Fin (of_int (?n - 1))) (Fin f) = Fin ?p"
  proof -
    have "\<bar>of_int (?n - 1) * f\<bar> \<le> 2 ^ 1023"
    proof -
      have "of_int (?n - 1) * f \<le> of_int (?n - 1) * 1" using n1 f by (intro mult_left_mono) (simp_all only: of_int_0_le_iff)
      also have "\<dots> \<le> of_int (2 ^ 53)" using len by (simp only: mult_1_right of_int_le_iff)
      also have "\<dots> \<le> 2 ^ 1023" by simp
      finally have up: "of_int (?n - 1) * f \<le> 2 ^ 1023" .
      have "0 \<le> of_int (?n - 1) * f" using n1 f by (intro mult_nonneg_nonneg) (simp_all only: of_int_0_le_iff)
      with up show ?thesis by simp
    qed
    then show ?thesis by (simp add: to_float_bounded(1) rank_of_def del: of_int_diff)
  qed
  have pn: "of_int ?l \<le> ?p" by simp
  have frac: "fsub (Fin ?p) (Fin (of_int ?l)) = Fin (?p - of_int ?l)"
  proof -
    have r: "representable (?p - of_int ?l)" by (rule representable_frac(1)[OF p(3,1)])
    have "\<bar>?p - of_int ?l\<bar> \<le> 1" using pn by linarith
    also have "(1::rat) < 2 ^ 1024" by simp
    finally show ?thesis using r by (simp add: fsub_def to_float_fixed)
  qed
  have t: "0 \<le> ?p - of_int ?l" "?p - of_int ?l \<le> 1" using pn by linarith+
  have idx: "py_nth ?s ?l = Inr (?s ! nat ?l)" "py_nth ?s ?u = Inr (?s ! nat ?u)"
    using fl u by (simp_all add: py_nth_in_range)
  have li: "to_py_int (Fin ?p) = Inr ?l" using p(1) by simp
  show ?thesis
    unfolding percentile_def Let_def
    using ne lerp_float[OF ok'(1) ab ok'(2) t]
    by (simp add: of_py_int_small[OF nf(1)] of_py_int_small[OF nf(2)] span idx li frac lerp_at_def
        u(3) Let_def del: of_int_diff to_py_int.simps fmul.simps)
qed

section \<open>Bounds and ordering\<close>

lemma lerp_at_bounds:
  assumes "sorted xs" "\<And>x. x \<in> set xs \<Longrightarrow> sample_ok x"
    and p: "0 \<le> p" "p \<le> of_int (int (length xs) - 1)" "representable p" and ne: "xs \<noteq> []"
  shows "xs ! nat \<lfloor>p\<rfloor> \<le> lerp_at xs p" "lerp_at xs p \<le> xs ! min (nat \<lfloor>p\<rfloor> + 1) (length xs - 1)"
proof -
  let ?k = "nat \<lfloor>p\<rfloor>" and ?u = "min (nat \<lfloor>p\<rfloor> + 1) (length xs - 1)"
  have k: "?k < length xs" "?u < length xs" "?k \<le> ?u"
    using floor_in_range[OF p(1,2)] ne by (auto simp: min_def)
  have "representable (xs ! ?k)" "0 \<le> xs ! ?k" "representable (xs ! ?u)"
    using assms(2)[OF nth_mem[OF k(1)]] assms(2)[OF nth_mem[OF k(2)]] by (auto simp: sample_ok_def)
  moreover have "xs ! ?k \<le> xs ! ?u" by (rule sorted_nth_mono[OF assms(1) k(3,2)])
  moreover have "0 \<le> p - of_int \<lfloor>p\<rfloor>" by simp
  ultimately show "xs ! ?k \<le> lerp_at xs p" "lerp_at xs p \<le> xs ! ?u"
    using lerp_bounds[of "xs ! ?k" "xs ! ?u" "p - of_int \<lfloor>p\<rfloor>"] representable_frac(2)[OF p(3,1)]
    by (simp_all add: lerp_at_def Let_def)
qed

lemma lerp_at_mono:
  assumes xs: "sorted xs" "\<And>x. x \<in> set xs \<Longrightarrow> sample_ok x" "xs \<noteq> []"
    and p: "0 \<le> p" "p \<le> of_int (int (length xs) - 1)" "representable p"
    and q: "q \<le> of_int (int (length xs) - 1)" "representable q" "p \<le> q"
  shows "lerp_at xs p \<le> lerp_at xs q"
proof (cases "\<lfloor>p\<rfloor> = \<lfloor>q\<rfloor>")
  case True
  let ?k = "nat \<lfloor>q\<rfloor>" and ?u = "min (nat \<lfloor>q\<rfloor> + 1) (length xs - 1)"
  have q0: "0 \<le> q" using p q by simp
  have k: "?u < length xs" "?k \<le> ?u" using floor_in_range[OF q0 q(1)] xs(3) by (auto simp: min_def)
  have "0 \<le> rnd64 (xs ! ?u - xs ! ?k)"
    using sorted_nth_mono[OF xs(1) k(2,1)] by (intro rnd64_sign) simp
  then have "rnd64 (xs ! ?u - xs ! ?k) * (p - of_int \<lfloor>q\<rfloor>) \<le> rnd64 (xs ! ?u - xs ! ?k) * (q - of_int \<lfloor>q\<rfloor>)"
    using q(3) by (intro mult_left_mono) auto
  then show ?thesis
    unfolding lerp_at_def Let_def True by (intro rnd64_mono add_left_mono)
next
  case False
  then have lt: "\<lfloor>p\<rfloor> + 1 \<le> \<lfloor>q\<rfloor>" using floor_mono[OF q(3)] by simp
  have q0: "0 \<le> q" using p q by simp
  have "lerp_at xs p \<le> xs ! min (nat \<lfloor>p\<rfloor> + 1) (length xs - 1)"
    by (rule lerp_at_bounds(2)[OF xs(1,2) p xs(3)])
  also have "\<dots> \<le> xs ! nat \<lfloor>q\<rfloor>"
  proof (rule sorted_nth_mono[OF xs(1)])
    show "nat \<lfloor>q\<rfloor> < length xs" by (rule floor_in_range(3)[OF q0 q(1)])
    have "nat \<lfloor>p\<rfloor> + 1 \<le> nat \<lfloor>q\<rfloor>" using lt floor_in_range(1)[OF p(1,2)] by linarith
    then show "min (nat \<lfloor>p\<rfloor> + 1) (length xs - 1) \<le> nat \<lfloor>q\<rfloor>" by simp
  qed
  also have "\<dots> \<le> lerp_at xs q" by (rule lerp_at_bounds(1)[OF xs(1,2) q0 q(1,2) xs(3)])
  finally show ?thesis .
qed

text \<open>C21: \<^verbatim>\<open>percentile\<close> of nonempty samples raises nothing and, for all its roundings, returns a
  value inside the bracket of neighbouring samples that the exact rank falls in: never below the
  sample at the truncated rank, never above the next one.\<close>

theorem percentile_in_bracket:
  assumes "samples \<noteq> []" "\<forall>x\<in>set samples. sample_ok x" "int (length samples) \<le> 2 ^ 53"
    and "0 \<le> f" "f \<le> 1"
  shows "\<exists>v k. percentile samples (Fin f) = Inr (Some (Fin v)) \<and> k < length samples \<and>
    k = nat \<lfloor>rnd64 (of_int (int (length samples) - 1) * f)\<rfloor> \<and>
    sort samples ! k \<le> v \<and> v \<le> sort samples ! min (k + 1) (length samples - 1)"
proof -
  let ?p = "rank_of samples f"
  note p = rank_of_bounds[OF assms(1,3-5)]
  have "percentile samples (Fin f) = Inr (Some (Fin (lerp_at (sort samples) ?p)))"
    using assms by (intro percentile_eval) auto
  moreover have "nat \<lfloor>?p\<rfloor> < length samples" by (rule floor_in_range(3)[OF p(1,2)])
  moreover have "sort samples ! nat \<lfloor>?p\<rfloor> \<le> lerp_at (sort samples) ?p"
    "lerp_at (sort samples) ?p \<le> sort samples ! min (nat \<lfloor>?p\<rfloor> + 1) (length samples - 1)"
    using lerp_at_bounds[of "sort samples" ?p] assms(1,2) p by simp_all
  ultimately show ?thesis by (auto simp: rank_of_def)
qed

theorem percentile_in_bracket_witness:
  "\<exists>v k. percentile [3, 1, 2] (Fin (1/2)) = Inr (Some (Fin v)) \<and> k < length [3, 1, 2 :: rat] \<and>
    k = nat \<lfloor>rnd64 (of_int (int (length [3, 1, 2 :: rat]) - 1) * (1/2))\<rfloor> \<and>
    sort [3, 1, 2 :: rat] ! k \<le> v \<and> v \<le> sort [3, 1, 2] ! min (k + 1) (length [3, 1, 2 :: rat] - 1)"
proof (rule percentile_in_bracket)
  show "\<forall>x\<in>set [3, 1, 2]. sample_ok x"
    using representable_of_int[of 1] representable_of_int[of 2] representable_of_int[of 3]
    by (simp add: sample_ok_def)
qed simp_all

text \<open>The percentiles of one sample set are ordered as their fractions are, so the reported
  columns always satisfy p50 \<open>\<le>\<close> p95 \<open>\<le>\<close> p99.\<close>

theorem percentile_mono:
  assumes "samples \<noteq> []" "\<forall>x\<in>set samples. sample_ok x" "int (length samples) \<le> 2 ^ 53"
    and "0 \<le> f" "f \<le> g" "g \<le> 1"
  shows "\<exists>v w. percentile samples (Fin f) = Inr (Some (Fin v)) \<and>
    percentile samples (Fin g) = Inr (Some (Fin w)) \<and> v \<le> w"
proof -
  have f1: "f \<le> 1" and g0: "0 \<le> g" using assms by auto
  note p = rank_of_bounds[OF assms(1,3,4) f1] and q = rank_of_bounds[OF assms(1,3) g0 assms(6)]
  have "percentile samples (Fin f) = Inr (Some (Fin (lerp_at (sort samples) (rank_of samples f))))"
    "percentile samples (Fin g) = Inr (Some (Fin (lerp_at (sort samples) (rank_of samples g))))"
    using assms f1 g0 by (auto intro!: percentile_eval)
  moreover have "lerp_at (sort samples) (rank_of samples f) \<le> lerp_at (sort samples) (rank_of samples g)"
    using assms(1,2) p q rank_of_mono[OF assms(5,1)] by (intro lerp_at_mono) auto
  ultimately show ?thesis by blast
qed

theorem percentile_mono_witness:
  "\<exists>v w. percentile [5, 1] (Fin (1/2)) = Inr (Some (Fin v)) \<and>
    percentile [5, 1] (Fin (19/20)) = Inr (Some (Fin w)) \<and> v \<le> w"
proof (rule percentile_mono)
  show "\<forall>x\<in>set [5, 1]. sample_ok x"
    using representable_of_int[of 1] representable_of_int[of 5] by (simp add: sample_ok_def)
qed simp_all

section \<open>The median\<close>

text \<open>
  \<^verbatim>\<open>statistics.median\<close>, which the summaries apply; \<^verbatim>\<open>StatisticsError\<close> for no data is a
  \<^verbatim>\<open>ValueError\<close>.
\<close>

definition median :: "rat list \<Rightarrow> py_exn + pyfloat" where
  "median data =
     (let xs = sort data; n = length xs
      in if n = 0 then Inl ValueError
         else if odd n then Inr (Fin (xs ! (n div 2)))
         else fdiv (fadd (Fin (xs ! (n div 2 - 1))) (Fin (xs ! (n div 2)))) (Fin 2))"

lemma midpoint_bounds:
  assumes "sample_ok a" "sample_ok b" "a \<le> b"
  shows "\<exists>m. fdiv (fadd (Fin a) (Fin b)) (Fin 2) = Inr (Fin m) \<and> a \<le> m \<and> m \<le> b"
proof -
  have twice: "representable (2 * x)" if x: "representable x" for x
  proof -
    obtain m e where me: "x = of_int m * 2 powi e" "\<bar>m\<bar> \<le> 2 ^ 53" "- 1074 \<le> e"
      using x by (auto simp: representable_def)
    have "2 * x = of_int m * 2 powi (e + 1)" using me(1) by (simp add: power_int_add)
    moreover have "representable (of_int m * 2 powi (e + 1))" using me by (intro representableI) simp_all
    ultimately show ?thesis by (simp only:)
  qed
  have ab: "representable a" "representable b" "0 \<le> a" "a \<le> 2 ^ 1022" "0 \<le> b" "b \<le> 2 ^ 1022"
    using assms by (simp_all add: sample_ok_def)
  have p: "(2::rat) ^ 1022 + 2 ^ 1022 = 2 ^ 1023" by simp
  have "a + b \<le> 2 ^ 1022 + 2 ^ 1022" using ab by (intro add_mono)
  then have "\<bar>a + b\<bar> \<le> 2 ^ 1023" using ab unfolding p by (simp add: abs_of_nonneg)
  note s = to_float_bounded[OF this]
  let ?s = "rnd64 (a + b)"
  have sum: "2 * a \<le> ?s" "?s \<le> 2 * b"
    using r64.rnd_between[of "2 * a" "a + b" "2 * b"] assms(3) rnd64_representable[OF twice[OF ab(1)]]
      rnd64_representable[OF twice[OF ab(2)]] by simp_all
  have m: "a \<le> rnd64 (?s / 2)" "rnd64 (?s / 2) \<le> b"
    using r64.rnd_between[of a "?s / 2" b] sum rnd64_representable[OF ab(1)] rnd64_representable[OF ab(2)] by simp_all
  have "0 \<le> ?s" using sum(1) ab(3) by simp
  then have "\<bar>?s / 2\<bar> \<le> 2 ^ 1023" using s(2) by (simp add: abs_of_nonneg)
  then have "to_float (?s / 2) = Fin (rnd64 (?s / 2))" by (rule to_float_bounded)
  then show ?thesis using s(1) m by simp
qed

text \<open>The median of nonempty samples is the middle one or, rounding included, lies between the two
  middle ones.\<close>

lemma median_between:
  assumes "data \<noteq> []" "\<forall>x\<in>set data. sample_ok x"
  shows "\<exists>m. median data = Inr (Fin m) \<and>
    sort data ! ((length data - 1) div 2) \<le> m \<and> m \<le> sort data ! (length data div 2)"
proof (cases "odd (length data)")
  case True
  then have "(length data - 1) div 2 = length data div 2" by (auto elim!: oddE)
  then show ?thesis using True assms(1) by (simp add: median_def Let_def)
next
  case False
  let ?i = "length data div 2 - 1" and ?j = "length data div 2"
  from False obtain k where k: "length data = 2 * k" by auto
  then have "0 < k" using assms(1) by (cases k) auto
  with k have len: "0 < ?j" "?j < length data" and i: "(length data - 1) div 2 = ?i" by simp_all
  have "?i \<le> ?j" "?j < length (sort data)" using len by simp_all
  then have ord: "sort data ! ?i \<le> sort data ! ?j" by (intro sorted_nth_mono) simp_all
  have "sample_ok (sort data ! k)" if "k < length data" for k
    using assms(2) that nth_mem[of k "sort data"] by simp
  then have "sample_ok (sort data ! ?i)" "sample_ok (sort data ! ?j)" using len by auto
  note mid = midpoint_bounds[OF this ord]
  have med: "median data = fdiv (fadd (Fin (sort data ! ?i)) (Fin (sort data ! ?j))) (Fin 2)"
    unfolding median_def Let_def using False assms(1) by (simp only: length_sort if_False) simp
  show ?thesis unfolding med i by (rule mid)
qed

end
