(* ===== verification/Min_Heap.thy ===== *)
theory Min_Heap
  imports Prelude
begin

text \<open>
  The standard library's \<^verbatim>\<open>heapq\<close> on Python lists, which the load generator uses for its
  offer schedule: \<^verbatim>\<open>heappush\<close> and \<^verbatim>\<open>heappop\<close> with their two sift loops, on lists of pairs
  compared by their first component (the code's tuples differ in their first two fields, so the
  third is never compared). The priority queue contract they meet is the locale \<open>min_queue\<close>; in
  it, once, what any client that pops a bounded number of due items relies on.
\<close>

section \<open>The sift loops\<close>

definition parent :: "nat \<Rightarrow> nat" where
  "parent i = (i - 1) div 2"

lemma parent_less: "0 < i \<Longrightarrow> parent i < i"
  by (auto simp: parent_def)

lemma parent_neq [simp]: "0 < i \<Longrightarrow> parent i \<noteq> i" "0 < i \<Longrightarrow> i \<noteq> parent i"
  using parent_less[of i] by auto

lemma parent_children [simp]: "parent (2 * pos + 1) = pos" "parent (2 * pos + 2) = pos"
  "parent (Suc (2 * pos)) = pos" "parent (Suc (Suc (2 * pos))) = pos"
  by (simp_all add: parent_def)

lemma parent_eqD: "parent i = pos \<Longrightarrow> 0 < i \<Longrightarrow> i = 2 * pos + 1 \<or> i = 2 * pos + 2"
  by (auto simp: parent_def)

function sift_down :: "('k::linorder \<times> 'v) list \<Rightarrow> 'k \<times> 'v \<Rightarrow> nat \<Rightarrow> ('k \<times> 'v) list" where
  "sift_down h x pos =
     (if 0 < pos \<and> fst x < fst (h ! parent pos)
      then sift_down (h[pos := h ! parent pos]) x (parent pos)
      else h[pos := x])"
  by pat_completeness auto
termination
  by (relation "measure (\<lambda>(h, x, pos). pos)") (auto simp: parent_less)

function sift_up :: "('k::linorder \<times> 'v) list \<Rightarrow> 'k \<times> 'v \<Rightarrow> nat \<Rightarrow> ('k \<times> 'v) list" where
  "sift_up h x pos =
     (let child = 2 * pos + 1; right = child + 1 in
      if child < length h
      then let m = (if right < length h \<and> \<not> fst (h ! child) < fst (h ! right) then right else child)
           in sift_up (h[pos := h ! m]) x m
      else sift_down (h[pos := x]) x pos)"
  by pat_completeness auto
termination
  by (relation "measure (\<lambda>(h, x, pos). length h - pos)") (auto simp: Let_def)

declare sift_down.simps [simp del] sift_up.simps [simp del]

lemma sift_down_step: "0 < pos \<Longrightarrow> fst x < fst (h ! parent pos) \<Longrightarrow>
    sift_down h x pos = sift_down (h[pos := h ! parent pos]) x (parent pos)"
  by (simp add: sift_down.simps[of h x pos])

lemma sift_down_stop: "\<not> (0 < pos \<and> fst x < fst (h ! parent pos)) \<Longrightarrow> sift_down h x pos = h[pos := x]"
  by (subst sift_down.simps) (rule if_not_P)

text \<open>The smaller child of a position, as the loop of \<^verbatim>\<open>_siftup\<close> picks it.\<close>

definition min_child :: "('k::linorder \<times> 'v) list \<Rightarrow> nat \<Rightarrow> nat" where
  "min_child h pos =
     (let child = 2 * pos + 1; right = child + 1
      in if right < length h \<and> \<not> fst (h ! child) < fst (h ! right) then right else child)"

lemma sift_up_step: "2 * pos + 1 < length h \<Longrightarrow>
    sift_up h x pos = sift_up (h[pos := h ! min_child h pos]) x (min_child h pos)"
  by (subst sift_up.simps) (simp only: Let_def min_child_def if_True)

lemma sift_up_stop: "\<not> 2 * pos + 1 < length h \<Longrightarrow> sift_up h x pos = sift_down (h[pos := x]) x pos"
  by (subst sift_up.simps) (simp only: Let_def if_False)

lemma min_child_props:
  assumes "2 * pos + 1 < length h"
  shows "min_child h pos < length h" "0 < min_child h pos" "parent (min_child h pos) = pos"
    "pos < min_child h pos"
    "\<And>i. 0 < i \<Longrightarrow> i < length h \<Longrightarrow> parent i = pos \<Longrightarrow> fst (h ! min_child h pos) \<le> fst (h ! i)"
proof -
  show "min_child h pos < length h" "0 < min_child h pos" "parent (min_child h pos) = pos" "pos < min_child h pos"
    using assms by (auto simp: min_child_def Let_def)
  fix i assume i: "0 < i" "i < length h" "parent i = pos"
  then have "i = 2 * pos + 1 \<or> i = 2 * pos + 2" using parent_eqD by blast
  then show "fst (h ! min_child h pos) \<le> fst (h ! i)"
    using i(2) by (auto simp: min_child_def Let_def)
qed

text \<open>Induction along the path that \<^verbatim>\<open>_siftup\<close> takes.\<close>

lemma sift_up_induct [case_names step stop]:
  assumes "\<And>h pos. 2 * pos + 1 < length h \<Longrightarrow>
      P (h[pos := h ! min_child h pos]) (min_child h pos) \<Longrightarrow> P h pos"
    and "\<And>h pos. \<not> 2 * pos + 1 < length h \<Longrightarrow> P h pos"
  shows "P (h :: ('k::linorder \<times> 'v) list) pos"
proof (induction "length h - pos" arbitrary: h pos rule: less_induct)
  case less
  show ?case
  proof (cases "2 * pos + 1 < length h")
    case True
    show ?thesis
      by (rule assms(1)[OF True], rule less) (use min_child_props(1,4)[OF True] in simp)
  next
    case False
    then show ?thesis by (rule assms(2))
  qed
qed

definition heappush :: "('k::linorder \<times> 'v) list \<Rightarrow> 'k \<times> 'v \<Rightarrow> ('k \<times> 'v) list" where
  "heappush h x = sift_down (h @ [x]) x (length h)"

text \<open>\<open>None\<close> is the \<^verbatim>\<open>IndexError\<close> of an empty heap.\<close>

definition heappop :: "('k::linorder \<times> 'v) list \<Rightarrow> (('k \<times> 'v) \<times> ('k \<times> 'v) list) option" where
  "heappop h =
     (if h = [] then None
      else let lastelt = last h; rest = butlast h in
        if rest = [] then Some (lastelt, [])
        else Some (rest ! 0, sift_up (rest[0 := lastelt]) lastelt 0))"

section \<open>The heap order\<close>

definition is_heap :: "('k::linorder \<times> 'v) list \<Rightarrow> bool" where
  "is_heap h \<longleftrightarrow> (\<forall>i<length h. 0 < i \<longrightarrow> fst (h ! parent i) \<le> fst (h ! i))"

text \<open>A list that is a heap but for one position: too small an item there, or a hole.\<close>

definition heap_but_small :: "('k::linorder \<times> 'v) list \<Rightarrow> nat \<Rightarrow> bool" where
  "heap_but_small g pos \<longleftrightarrow>
     pos < length g \<and>
     (\<forall>i. 0 < i \<and> i < length g \<and> i \<noteq> pos \<longrightarrow> fst (g ! parent i) \<le> fst (g ! i)) \<and>
     (\<forall>i. 0 < i \<and> i < length g \<and> parent i = pos \<and> 0 < pos \<longrightarrow> fst (g ! parent pos) \<le> fst (g ! i))"

definition heap_but_hole :: "('k::linorder \<times> 'v) list \<Rightarrow> nat \<Rightarrow> bool" where
  "heap_but_hole g pos \<longleftrightarrow>
     pos < length g \<and>
     (\<forall>i. 0 < i \<and> i < length g \<and> i \<noteq> pos \<and> parent i \<noteq> pos \<longrightarrow> fst (g ! parent i) \<le> fst (g ! i)) \<and>
     (\<forall>i. 0 < i \<and> i < length g \<and> parent i = pos \<and> 0 < pos \<longrightarrow> fst (g ! parent pos) \<le> fst (g ! i))"

lemma heap_min: "is_heap h \<Longrightarrow> i < length h \<Longrightarrow> fst (h ! 0) \<le> fst (h ! i)"
proof (induction i rule: less_induct)
  case (less i)
  show ?case
  proof (cases "i = 0")
    case False
    then have "fst (h ! 0) \<le> fst (h ! parent i)" using less parent_less[of i] by simp
    also have "\<dots> \<le> fst (h ! i)" using less.prems False by (auto simp: is_heap_def)
    finally show ?thesis .
  qed simp
qed

lemma small_step:
  assumes pre: "heap_but_small (h[pos := x]) pos" and pos: "0 < pos" "fst x < fst (h ! parent pos)"
  shows "heap_but_small (h[pos := h ! parent pos, parent pos := x]) (parent pos)"
proof -
  let ?g = "h[pos := x]" and ?p = "parent pos"
  let ?g' = "h[pos := h ! ?p, ?p := x]"
  have len: "pos < length h" using pre by (simp add: heap_but_small_def)
  have p: "?p < pos" "?p \<noteq> pos" using pos(1) parent_less by auto
  have g': "?g' ! i = (if i = ?p then x else if i = pos then h ! ?p else h ! i)" if "i < length h" for i
    using that by (simp add: nth_list_update)
  have 1: "fst (?g ! parent i) \<le> fst (?g ! i)" if "0 < i" "i < length h" "i \<noteq> pos" for i
    using pre that by (simp add: heap_but_small_def)
  have 2: "fst (h ! ?p) \<le> fst (h ! i)" if "0 < i" "i < length h" "parent i = pos" for i
  proof -
    have "i \<noteq> pos" using that(1,3) by auto
    moreover have "fst (?g ! ?p) \<le> fst (?g ! i)"
      using pre that pos(1) unfolding heap_but_small_def by simp
    ultimately show ?thesis using p len that by (simp add: nth_list_update)
  qed
  have old: "fst (h ! parent i) \<le> fst (h ! i)" if "0 < i" "i < length h" "i \<noteq> pos" "parent i \<noteq> pos" for i
    using 1[OF that(1-3)] that by (simp add: nth_list_update)
  show ?thesis
    unfolding heap_but_small_def
  proof (intro conjI allI impI)
    show "?p < length ?g'" using len p by simp
  next
    fix i assume i: "0 < i \<and> i < length ?g' \<and> i \<noteq> ?p"
    then have il: "i < length h" "parent i < length h" using parent_less[of i] by auto
    consider "i = pos" | "i \<noteq> pos" "parent i = pos" | "i \<noteq> pos" "parent i = ?p" | "i \<noteq> pos" "parent i \<noteq> pos" "parent i \<noteq> ?p"
      by blast
    then show "fst (?g' ! parent i) \<le> fst (?g' ! i)"
    proof cases
      case 1
      then show ?thesis using i il pos p by (simp add: g')
    next
      case c: 2
      then show ?thesis using i il p 2[of i] by (simp add: g')
    next
      case 3
      then have "fst (h ! ?p) \<le> fst (h ! i)" using old[of i] i il p by simp
      then show ?thesis using 3 i il p pos(2) by (simp add: g')
    next
      case 4
      then show ?thesis using old[of i] i il by (simp add: g')
    qed
  next
    fix i assume i: "0 < i \<and> i < length ?g' \<and> parent i = ?p \<and> 0 < ?p"
    then have il: "i < length h" "i \<noteq> ?p" using parent_less[of i] by auto
    have pp: "parent ?p < ?p" "parent ?p \<noteq> pos" using i p parent_less[of ?p] by auto
    have up: "fst (h ! parent ?p) \<le> fst (h ! ?p)" using old[of ?p] i p pp len by simp
    have "fst (h ! parent ?p) \<le> fst (?g' ! i)"
      using up old[of i] i il p by (cases "i = pos") (auto simp: g')
    then show "fst (?g' ! parent ?p) \<le> fst (?g' ! i)" using pp p len by (simp add: g')
  qed
qed

lemma small_done:
  assumes "heap_but_small (h[pos := x]) pos" "\<not> (0 < pos \<and> fst x < fst (h ! parent pos))"
  shows "is_heap (h[pos := x])"
  unfolding is_heap_def
proof (intro allI impI)
  fix i assume "i < length (h[pos := x])" "0 < i"
  then have i: "0 < i \<and> i < length (h[pos := x])" by simp
  show "fst (h[pos := x] ! parent i) \<le> fst (h[pos := x] ! i)"
  proof (cases "i = pos")
    case True
    then show ?thesis using assms(2) i by (simp add: nth_list_update)
  next
    case False
    then show ?thesis using assms(1) i unfolding heap_but_small_def by blast
  qed
qed

lemma sift_down_heap: "heap_but_small (h[pos := x]) pos \<Longrightarrow> is_heap (sift_down h x pos)"
proof (induction h x pos rule: sift_down.induct)
  case (1 h x pos)
  show ?case
  proof (cases "0 < pos \<and> fst x < fst (h ! parent pos)")
    case True
    then show ?thesis using 1 small_step[of h pos x] by (simp add: sift_down_step)
  next
    case False
    then show ?thesis using small_done[OF "1.prems" False] sift_down_stop[OF False] by simp
  qed
qed

lemma hole_step:
  assumes pre: "heap_but_hole h pos" and m: "m < length h" "0 < m" "parent m = pos"
    and least: "\<And>i. 0 < i \<Longrightarrow> i < length h \<Longrightarrow> parent i = pos \<Longrightarrow> fst (h ! m) \<le> fst (h ! i)"
  shows "heap_but_hole (h[pos := h ! m]) m"
proof -
  let ?g = "h[pos := h ! m]"
  have mp: "pos < m" using m parent_less[of m] by auto
  have g: "?g ! i = (if i = pos then h ! m else h ! i)" if "i < length h" for i
    using that by (simp add: nth_list_update)
  have 1: "fst (h ! parent i) \<le> fst (h ! i)" if "0 < i" "i < length h" "i \<noteq> pos" "parent i \<noteq> pos" for i
    using pre that by (simp add: heap_but_hole_def)
  have 2: "fst (h ! parent pos) \<le> fst (h ! m)" if "0 < pos"
    using pre that m by (simp add: heap_but_hole_def)
  show ?thesis
    unfolding heap_but_hole_def
  proof (intro conjI allI impI)
    show "m < length ?g" using m by simp
  next
    fix i assume i: "0 < i \<and> i < length ?g \<and> i \<noteq> m \<and> parent i \<noteq> m"
    then have il: "i < length h" "parent i < length h" "parent i \<noteq> i" using parent_less[of i] by auto
    consider "i = pos" | "i \<noteq> pos" "parent i = pos" | "i \<noteq> pos" "parent i \<noteq> pos" by blast
    then show "fst (?g ! parent i) \<le> fst (?g ! i)"
      by cases (use i il 1[of i] 2 least[of i] in \<open>auto simp: g\<close>)
  next
    fix i assume i: "0 < i \<and> i < length ?g \<and> parent i = m \<and> 0 < m"
    then have "i \<noteq> pos" "parent i \<noteq> pos" using mp parent_less[of i] by auto
    then show "fst (?g ! parent m) \<le> fst (?g ! i)" using i m mp 1[of i] by (auto simp: g)
  qed
qed

lemma hole_done:
  assumes "heap_but_hole h pos" "\<not> 2 * pos + 1 < length h"
  shows "heap_but_small (h[pos := x]) pos"
proof -
  have no: "parent i \<noteq> pos" if "0 < i" "i < length h" for i
    using assms(2) that parent_eqD[of i pos] by auto
  show ?thesis
    using assms(1) no by (auto simp: heap_but_small_def heap_but_hole_def nth_list_update)
qed

lemma sift_up_heap: "heap_but_hole h pos \<Longrightarrow> is_heap (sift_up h x pos)"
proof (induction h pos rule: sift_up_induct)
  case (step h pos)
  note m = min_child_props[OF step(1)]
  have "heap_but_hole (h[pos := h ! min_child h pos]) (min_child h pos)"
    by (rule hole_step[OF step.prems m(1-3) m(5)])
  then show ?case using step by (simp only: sift_up_step)
next
  case (stop h pos)
  have "heap_but_small (h[pos := x, pos := x]) pos" using hole_done[OF stop.prems stop(1)] by simp
  then show ?case using stop(1) by (simp add: sift_up_stop sift_down_heap)
qed

section \<open>The items of the heap\<close>

lemma mset_hole_move:
  assumes "i < length h" "j < length h" "i \<noteq> j"
  shows "mset (h[i := h ! j, j := x]) = mset (h[i := x])"
proof -
  have "mset ((h[i := x])[i := h[i := x] ! j, j := h[i := x] ! i]) = mset (h[i := x])"
    using assms by (intro mset_swap) auto
  then show ?thesis using assms by simp
qed

lemma mset_sift_down: "pos < length h \<Longrightarrow> mset (sift_down h x pos) = mset (h[pos := x])"
proof (induction h x pos rule: sift_down.induct)
  case (1 h x pos)
  show ?case
  proof (cases "0 < pos \<and> fst x < fst (h ! parent pos)")
    case True
    then have "parent pos < length h" "pos \<noteq> parent pos" using "1.prems" parent_less[of pos] by auto
    with True 1 show ?thesis by (simp add: sift_down_step mset_hole_move)
  next
    case False
    then show ?thesis using sift_down_stop[OF False] by simp
  qed
qed

lemma mset_sift_up: "pos < length h \<Longrightarrow> mset (sift_up h x pos) = mset (h[pos := x])"
proof (induction h pos rule: sift_up_induct)
  case (step h pos)
  note m = min_child_props[OF step(1)]
  have "mset (sift_up h x pos) = mset (h[pos := h ! min_child h pos, min_child h pos := x])"
    using step m(1) by (simp add: sift_up_step)
  also have "\<dots> = mset (h[pos := x])"
    using step.prems m(1,4) by (intro mset_hole_move) auto
  finally show ?case .
next
  case (stop h pos)
  then show ?case by (simp add: sift_up_stop mset_sift_down)
qed

lemma mset_heappush: "mset (heappush h x) = add_mset x (mset h)"
  by (simp add: heappush_def mset_sift_down)

lemma heap_heappush: "is_heap h \<Longrightarrow> is_heap (heappush h x)"
  unfolding heappush_def
proof (rule sift_down_heap)
  assume h: "is_heap h"
  show "heap_but_small ((h @ [x])[length h := x]) (length h)"
    unfolding heap_but_small_def
  proof (intro conjI allI impI)
    fix i assume "0 < i \<and> i < length ((h @ [x])[length h := x]) \<and> i \<noteq> length h"
    then have "0 < i" "i < length h" "parent i < length h" using parent_less[of i] by auto
    then show "fst ((h @ [x])[length h := x] ! parent i) \<le> fst ((h @ [x])[length h := x] ! i)"
      using h by (simp add: is_heap_def nth_append)
  next
    fix i assume "0 < i \<and> i < length ((h @ [x])[length h := x]) \<and> parent i = length h \<and> 0 < length h"
    then have False using parent_less[of i] by auto
    then show "fst ((h @ [x])[length h := x] ! parent (length h)) \<le> fst ((h @ [x])[length h := x] ! i)" ..
  qed simp
qed

lemma heappop_None_iff [simp]: "heappop h = None \<longleftrightarrow> h = []"
  by (simp add: heappop_def Let_def)

lemma heappop_cases:
  assumes "heappop h = Some (x, h')"
  obtains "h = [x]" "h' = []"
  | rest y where "h = rest @ [y]" "rest \<noteq> []" "x = rest ! 0" "h' = sift_up (rest[0 := y]) y 0"
proof (cases h rule: rev_cases)
  case Nil
  with assms show ?thesis by (simp add: heappop_def)
next
  case (snoc rest y)
  with assms that show ?thesis by (cases "rest = []") (auto simp: heappop_def Let_def)
qed

lemma mset_heappop: "heappop h = Some (x, h') \<Longrightarrow> mset h = add_mset x (mset h')"
proof (elim heappop_cases)
  fix rest :: "('a \<times> 'b) list" and y
  assume r: "h = rest @ [y]" "rest \<noteq> []" "x = rest ! 0" "h' = sift_up (rest[0 := y]) y 0"
  then obtain z zs where "rest = z # zs" by (cases rest) auto
  with r show ?thesis by (simp add: mset_sift_up)
qed simp

lemma heap_heappop: "is_heap h \<Longrightarrow> heappop h = Some (x, h') \<Longrightarrow> is_heap h'"
proof (elim heappop_cases)
  fix rest y
  assume h: "is_heap h" and r: "h = rest @ [y]" "rest \<noteq> []" "h' = sift_up (rest[0 := y]) y 0"
  have "heap_but_hole (rest[0 := y]) 0"
    unfolding heap_but_hole_def
  proof (intro conjI allI impI)
    fix i assume i: "0 < i \<and> i < length (rest[0 := y]) \<and> i \<noteq> 0 \<and> parent i \<noteq> 0"
    then have p: "parent i < length rest" using parent_less[of i] by auto
    have "fst (h ! parent i) \<le> fst (h ! i)" using h i r(1) by (simp add: is_heap_def)
    then show "fst (rest[0 := y] ! parent i) \<le> fst (rest[0 := y] ! i)"
      using i p r(1) by (simp add: nth_append nth_list_update)
  qed (use r in auto)
  then show "is_heap h'" using r by (simp add: sift_up_heap)
qed (simp add: is_heap_def)

lemma heappop_min: "is_heap h \<Longrightarrow> heappop h = Some (x, h') \<Longrightarrow> y \<in> set h \<Longrightarrow> fst x \<le> fst y"
proof -
  assume h: "is_heap h" "heappop h = Some (x, h')" "y \<in> set h"
  then obtain i where i: "i < length h" "y = h ! i" by (auto simp: in_set_conv_nth)
  have "x = h ! 0" using h(2) by (elim heappop_cases) (auto simp: nth_append)
  then show ?thesis using heap_min[OF h(1) i(1)] i(2) by simp
qed

lemma heappop_head: "heappop (x # h) = Some (y, h') \<Longrightarrow> y = x"
  by (elim heappop_cases) (auto simp: append_eq_Cons_conv Cons_eq_append_conv nth_append)

lemma heappop_length: "heappop h = Some (x, h') \<Longrightarrow> length h = Suc (length h')"
  by (metis mset_heappop size_add_mset size_mset)

section \<open>The priority queue contract\<close>

text \<open>Popping while the least item is due, at most \<open>n\<close> times.\<close>

fun drain :: "('q \<Rightarrow> ('a \<times> 'q) option) \<Rightarrow> ('a \<Rightarrow> bool) \<Rightarrow> nat \<Rightarrow> 'q \<Rightarrow> 'a list \<times> 'q" where
  "drain pop due 0 q = ([], q)"
| "drain pop due (Suc n) q =
     (case pop q of
        None \<Rightarrow> ([], q)
      | Some (x, q') \<Rightarrow>
          if due x then (let (xs, q'') = drain pop due n q' in (x # xs, q'')) else ([], q))"

locale min_queue =
  fixes wf :: "'q \<Rightarrow> bool"
    and items :: "'q \<Rightarrow> ('k::linorder \<times> 'v) multiset"
    and push :: "'q \<Rightarrow> 'k \<times> 'v \<Rightarrow> 'q"
    and pop :: "'q \<Rightarrow> (('k \<times> 'v) \<times> 'q) option"
  assumes wf_push: "wf q \<Longrightarrow> wf (push q x)"
    and items_push: "items (push q x) = add_mset x (items q)"
    and pop_None: "pop q = None \<longleftrightarrow> items q = {#}"
    and items_pop: "pop q = Some (x, q') \<Longrightarrow> items q = add_mset x (items q')"
    and wf_pop: "wf q \<Longrightarrow> pop q = Some (x, q') \<Longrightarrow> wf q'"
    and pop_min: "wf q \<Longrightarrow> pop q = Some (x, q') \<Longrightarrow> y \<in># items q \<Longrightarrow> fst x \<le> fst y"
begin

lemma drain_items: "drain pop due n q = (xs, q') \<Longrightarrow> items q = mset xs + items q'"
  by (induction n arbitrary: q xs q')
    (auto split: option.splits if_splits prod.splits dest!: items_pop)

lemma drain_wf: "drain pop due n q = (xs, q') \<Longrightarrow> wf q \<Longrightarrow> wf q'"
  by (induction n arbitrary: q xs q') (auto split: option.splits if_splits prod.splits dest: wf_pop)

lemma drain_length: "drain pop due n q = (xs, q') \<Longrightarrow> length xs \<le> n"
  by (induction n arbitrary: q xs q') (auto split: option.splits if_splits prod.splits)

lemma drain_due: "drain pop due n q = (xs, q') \<Longrightarrow> x \<in> set xs \<Longrightarrow> due x"
  by (induction n arbitrary: q xs q') (auto split: option.splits if_splits prod.splits)

text \<open>The items come out in order, before everything that stays.\<close>

lemma drain_sorted:
  "drain pop due n q = (xs, q') \<Longrightarrow> wf q \<Longrightarrow>
    sorted (map fst xs) \<and> (\<forall>x\<in>set xs. \<forall>y\<in>#items q'. fst x \<le> fst y)"
proof (induction n arbitrary: q xs q')
  case 0
  then show ?case by simp
next
  case (Suc n)
  show ?case
  proof (cases "pop q")
    case None
    with Suc.prems show ?thesis by simp
  next
    case (Some p)
    then obtain x r where p: "pop q = Some (x, r)" by (cases p) auto
    show ?thesis
    proof (cases "due x")
      case True
      then obtain ys where ys: "drain pop due n r = (ys, q')" "xs = x # ys"
        using Suc.prems(1) p by (auto split: prod.splits)
      note wfr = wf_pop[OF Suc.prems(2) p]
      have it: "items q = add_mset x (mset ys + items q')"
        using items_pop[OF p] drain_items[OF ys(1)] by simp
      have "\<forall>y\<in>set ys. fst x \<le> fst y" "\<forall>y\<in>#items q'. fst x \<le> fst y"
        using pop_min[OF Suc.prems(2) p] it by auto
      with Suc.IH[OF ys(1) wfr] show ?thesis by (simp add: ys(2))
    next
      case False
      with Suc.prems p show ?thesis by simp
    qed
  qed
qed

text \<open>Only the cap leaves a due item behind, when being due is downward closed.\<close>

lemma drain_complete:
  assumes "drain pop due n q = (xs, q')" "wf q" "length xs < n"
    and down: "\<And>x y. fst x \<le> fst y \<Longrightarrow> due y \<Longrightarrow> due x"
    and y: "y \<in># items q'"
  shows "\<not> due y"
  using assms(1,2,3) y
proof (induction n arbitrary: q xs q')
  case 0
  then show ?case by simp
next
  case (Suc n)
  show ?case
  proof (cases "pop q")
    case None
    with Suc.prems show ?thesis by (simp add: pop_None)
  next
    case (Some p)
    then obtain x r where p: "pop q = Some (x, r)" by (cases p) auto
    show ?thesis
    proof (cases "due x")
      case True
      then obtain ys where "drain pop due n r = (ys, q')" "xs = x # ys"
        using Suc.prems(1) p by (auto split: prod.splits)
      with Suc.IH[of r ys q'] wf_pop[OF Suc.prems(2) p] Suc.prems show ?thesis by simp
    next
      case False
      with Suc.prems p have "y \<in># items q" by simp
      with pop_min[OF Suc.prems(2) p] have "fst x \<le> fst y" by simp
      with False down show ?thesis by blast
    qed
  qed
qed

end

interpretation hq: min_queue is_heap mset heappush heappop
  by unfold_locales
    (simp_all add: heap_heappush mset_heappush, erule mset_heappop, erule (1) heap_heappop, erule (2) heappop_min)

end
