(* ===== verification/Phase_Config.thy ===== *)
theory Phase_Config
  imports Py_Float
begin

text \<open>
  The configuration of a benchmark run (\<^verbatim>\<open>bench/benchmark.py\<close>): the parsed command line with the
  checks that \<^verbatim>\<open>main\<close> makes before any trial, the trials it then plans, and the phase
  description that \<^verbatim>\<open>phase_config\<close> sends to the workers.
\<close>

section \<open>The command line\<close>

text \<open>\<open>arg_server\<close> is the absolute path of the server.\<close>

record bench_args =
  arg_server :: string
  arg_label :: string
  arg_experiment :: string
  arg_tiers :: "int list"
  arg_active_connections :: "int option"
  arg_workloads :: "string list"
  arg_runs :: int
  arg_trial_id :: int
  arg_duration :: pyfloat
  arg_warmup :: pyfloat
  arg_warmup_rate :: "pyfloat option"
  arg_drain :: pyfloat
  arg_rate :: pyfloat
  arg_payload_size :: int
  arg_workers :: int
  arg_server_cpu :: "int option"
  arg_worker_cpus :: "int list"
  arg_max_overdue_sends :: int
  arg_max_offer_lag_ms :: pyfloat
  arg_max_recv_calls :: int
  arg_max_recv_bytes :: int
  arg_min_delivery_ratio :: pyfloat
  arg_min_deadline_completion_ratio :: pyfloat
  arg_max_missed_offer_ratio :: pyfloat
  arg_max_scheduler_lag_ms :: pyfloat
  arg_max_latency_p99_ms :: pyfloat
  arg_max_read_service_gap_ms :: pyfloat
  arg_allow_disconnects :: bool
  arg_allow_queue_overflow :: bool
  arg_profile :: string
  arg_profile_output :: "string option"
  arg_output :: "string option"

text \<open>\<^verbatim>\<open>0 <= x <= 1\<close> and \<^verbatim>\<open>x <= 0\<close> as the code writes them.\<close>

definition in_unit :: "pyfloat \<Rightarrow> bool" where
  "in_unit x \<longleftrightarrow> fle (Fin 0) x \<and> fle x (Fin 1)"

definition not_positive :: "pyfloat \<Rightarrow> bool" where
  "not_positive x \<longleftrightarrow> fle x (Fin 0)"

text \<open>
  The checks of \<^verbatim>\<open>main\<close> in their order; \<^verbatim>\<open>parser.error\<close> leaves the program. Whether the server
  file is executable is asked of the file system and is the argument \<open>executable\<close>.
\<close>

definition check_args :: "bool \<Rightarrow> bench_args \<Rightarrow> py_exn + unit" where
  "check_args executable a =
     (if \<not> executable then Inl (ArgumentError ''server is not executable'')
      else if (\<exists>tier\<in>set (arg_tiers a). tier < 1) \<or> arg_runs a < 1
      then Inl (ArgumentError ''tiers and runs must be positive'')
      else if \<exists>w\<in>set (arg_workloads a). w \<notin> {''direct'', ''broadcast''}
      then Inl (ArgumentError ''workloads must be direct and/or broadcast'')
      else if not_positive (py_min (py_min (arg_duration a) (arg_rate a)) (arg_drain a)) \<or>
        flt (arg_warmup a) (Fin 0)
      then Inl (ArgumentError ''duration, rate, and drain must be positive; warmup cannot be negative'')
      else if (case arg_warmup_rate a of None \<Rightarrow> False | Some r \<Rightarrow> not_positive r)
      then Inl (ArgumentError ''warmup rate must be positive'')
      else if arg_workers a < 1 \<or> arg_max_overdue_sends a < 1 \<or> arg_max_recv_calls a < 1
      then Inl (ArgumentError ''worker and fairness limits must be positive'')
      else if \<not> in_unit (arg_max_missed_offer_ratio a) \<or> \<not> in_unit (arg_min_delivery_ratio a) \<or>
        \<not> in_unit (arg_min_deadline_completion_ratio a)
      then Inl (ArgumentError ''validity ratios must be between zero and one'')
      else if not_positive (py_min (py_min (arg_max_scheduler_lag_ms a) (arg_max_read_service_gap_ms a))
        (arg_max_latency_p99_ms a))
      then Inl (ArgumentError ''validity latency limits must be positive'')
      else if (case arg_server_cpu a of None \<Rightarrow> False | Some c \<Rightarrow> c \<in> set (arg_worker_cpus a))
      then Inl (ArgumentError ''server and worker CPU affinity sets must not overlap'')
      else if arg_profile a \<noteq> ''none'' \<and> arg_profile_output a = None
      then Inl (ArgumentError ''--profile-output is required with --profile'')
      else if arg_profile a \<noteq> ''none'' \<and>
        (length (arg_tiers a) \<noteq> 1 \<or> length (arg_workloads a) \<noteq> 1 \<or> arg_runs a \<noteq> 1)
      then Inl (ArgumentError ''profiling supports exactly one trial configuration'')
      else if \<not> (0 \<le> arg_payload_size a \<and> arg_payload_size a \<le> 4000)
      then Inl (ArgumentError ''payload size is out of range'')
      else Inr ())"

section \<open>The planned trials\<close>

text \<open>A trial: workload, total and active connections, run number.\<close>

type_synonym trial = "string \<times> int \<times> int \<times> int"

definition active_count :: "bench_args \<Rightarrow> int \<Rightarrow> int" where
  "active_count a conns = (case arg_active_connections a of None \<Rightarrow> conns | Some n \<Rightarrow> n)"

text \<open>
  The nested loops of \<^verbatim>\<open>main\<close>: the trials started, in order, and the error that ends them early,
  if one does. Trials started before the error have run.
\<close>

fun plan_tiers :: "bench_args \<Rightarrow> string \<Rightarrow> int list \<Rightarrow> trial list \<times> py_exn option" where
  "plan_tiers a workload [] = ([], None)"
| "plan_tiers a workload (conns # tiers) =
     (let active = active_count a conns in
      if active < 1 \<or> active > conns
      then ([], Some (ArgumentError ''active connections must be between one and total connections''))
      else if workload = ''broadcast'' \<and> conns < 2
      then ([], Some (ArgumentError ''broadcast needs at least two total connections''))
      else let (rest, e) = plan_tiers a workload tiers
           in (map (\<lambda>run. (workload, conns, active, run)) [1..arg_runs a] @ rest, e))"

fun plan_workloads :: "bench_args \<Rightarrow> string list \<Rightarrow> trial list \<times> py_exn option" where
  "plan_workloads a [] = ([], None)"
| "plan_workloads a (w # ws) =
     (case plan_tiers a w (arg_tiers a) of
        (trials, Some e) \<Rightarrow> (trials, Some e)
      | (trials, None) \<Rightarrow> (let (rest, e) = plan_workloads a ws in (trials @ rest, e)))"

definition planned_trials :: "bench_args \<Rightarrow> trial list \<times> py_exn option" where
  "planned_trials a = plan_workloads a (arg_workloads a)"

definition trial_ok :: "trial \<Rightarrow> bool" where
  "trial_ok t = (case t of (workload, conns, active, run) \<Rightarrow>
     1 \<le> active \<and> active \<le> conns \<and> (workload = ''broadcast'' \<longrightarrow> 2 \<le> conns) \<and> 1 \<le> run)"

lemma plan_tiers_ok: "t \<in> set (fst (plan_tiers a w tiers)) \<Longrightarrow> trial_ok t \<and> fst t = w \<and> fst (snd t) \<in> set tiers"
  by (induction tiers) (auto simp: Let_def trial_ok_def split: if_splits prod.splits)

lemma plan_workloads_ok:
  "t \<in> set (fst (plan_workloads a ws)) \<Longrightarrow> trial_ok t \<and> fst t \<in> set ws \<and> fst (snd t) \<in> set (arg_tiers a)"
proof (induction ws)
  case Nil
  then show ?case by simp
next
  case (Cons w ws)
  obtain trials e where p: "plan_tiers a w (arg_tiers a) = (trials, e)" by fastforce
  have tr: "trial_ok t \<and> fst t = w \<and> fst (snd t) \<in> set (arg_tiers a)" if "t \<in> set trials"
    using plan_tiers_ok[of t a w "arg_tiers a"] that p by simp
  show ?case
  proof (cases "t \<in> set trials")
    case True
    with tr show ?thesis by auto
  next
    case False
    with Cons p show ?thesis by (auto split: prod.splits option.splits)
  qed
qed

section \<open>Phases\<close>

record phase =
  ph_workload :: string
  ph_total_connections :: int
  ph_active_indices :: "int list"
  ph_rate :: pyfloat
  ph_duration :: pyfloat
  ph_drain :: pyfloat
  ph_payload_size :: int
  ph_token :: string
  ph_start_ns :: int
  ph_deadline_ns :: int
  ph_max_overdue_sends :: int
  ph_max_offer_lag_ms :: pyfloat
  ph_max_recv_calls :: int
  ph_max_recv_bytes :: int

definition START_DELAY_S :: pyfloat where
  "START_DELAY_S = to_float (1 / 5)"

text \<open>\<open>now_ns\<close> is the clock reading that \<^verbatim>\<open>phase_config\<close> takes.\<close>

definition phase_config ::
  "bench_args \<Rightarrow> string \<Rightarrow> int \<Rightarrow> int \<Rightarrow> pyfloat \<Rightarrow> string \<Rightarrow> int \<Rightarrow> py_exn + phase" where
  "phase_config a workload total_connections active_connections duration token now_ns =
     seq (to_py_int (fmul START_DELAY_S (Fin 1000000000))) (\<lambda>delay.
     seq (to_py_int (fmul duration (Fin 1000000000))) (\<lambda>span.
       Inr \<lparr> ph_workload = workload,
             ph_total_connections = total_connections,
             ph_active_indices = [0..active_connections - 1],
             ph_rate = arg_rate a,
             ph_duration = duration,
             ph_drain = arg_drain a,
             ph_payload_size = (if workload = ''broadcast'' then arg_payload_size a else 0),
             ph_token = token,
             ph_start_ns = now_ns + delay,
             ph_deadline_ns = now_ns + delay + span,
             ph_max_overdue_sends = arg_max_overdue_sends a,
             ph_max_offer_lag_ms = arg_max_offer_lag_ms a,
             ph_max_recv_calls = arg_max_recv_calls a,
             ph_max_recv_bytes = arg_max_recv_bytes a \<rparr>))"

definition configured_warmup_rate :: "bench_args \<Rightarrow> pyfloat" where
  "configured_warmup_rate a =
     py_min (arg_rate a) (case arg_warmup_rate a of Some r \<Rightarrow> r | None \<Rightarrow> Fin 1000)"

lemma start_delay: "to_py_int (fmul START_DELAY_S (Fin 1000000000)) = Inr 200000000"
proof -
  have p55: "(2::rat) powi (- 55) = 1 / 36028797018963968" by (simp add: power_int_def power_divide)
  have "round_half_even (36028797018963968 / 5) = 7205759403792794"
    using round_half_even_up[of 7205759403792793 "36028797018963968 / 5"] by simp
  then have "rnd64 (1 / 5) = of_int 7205759403792794 * 2 powi (- 55)"
    by (intro rnd64_eval[where k = "- 3"]) (simp_all add: p55 power_int_def power_divide)
  then have s: "START_DELAY_S = Fin (7205759403792794 / 36028797018963968)"
    unfolding START_DELAY_S_def by (simp add: to_float_unit(1) p55)
  have "round_half_even (7036874417766400390625 / 1048576) = 6710886400000000"
    by (rule round_half_even_down) simp_all
  then have "rnd64 (7205759403792794 / 36028797018963968 * 1000000000) = of_int 6710886400000000 * 2 powi (- 25)"
    by (intro rnd64_eval[where k = 27]) (simp_all add: power_int_def power_divide)
  then show ?thesis
    unfolding s by (simp add: to_float_def power_int_def power_divide)
qed

lemma check_args_Inr:
  assumes "check_args executable a = Inr u"
  shows "\<forall>tier\<in>set (arg_tiers a). 1 \<le> tier" "1 \<le> arg_runs a"
    "\<forall>w\<in>set (arg_workloads a). w \<in> {''direct'', ''broadcast''}"
    "1 \<le> arg_workers a" "1 \<le> arg_max_overdue_sends a" "1 \<le> arg_max_recv_calls a"
    "in_unit (arg_max_missed_offer_ratio a)" "in_unit (arg_min_delivery_ratio a)"
    "in_unit (arg_min_deadline_completion_ratio a)"
    "0 \<le> arg_payload_size a" "arg_payload_size a \<le> 4000"
  using assms by (auto simp: check_args_def not_less split: if_splits)

text \<open>Whatever arguments are accepted, every trial that is started has between one and all of
  its connections active, two or more connections when it broadcasts, a known workload and a tier
  from the command line; the trials of a run without error are all combinations, in loop order.\<close>

theorem planned_trials_sound:
  assumes "check_args executable a = Inr ()" "planned_trials a = (trials, e)"
  shows "(\<forall>t\<in>set trials. trial_ok t \<and> fst t \<in> {''direct'', ''broadcast''} \<and> fst (snd t) \<in> set (arg_tiers a)) \<and>
    (e = None \<longrightarrow> trials = concat (map (\<lambda>w. concat (map (\<lambda>conns.
       map (\<lambda>run. (w, conns, active_count a conns, run)) [1..arg_runs a]) (arg_tiers a))) (arg_workloads a)))"
proof (intro conjI ballI impI)
  fix t assume "t \<in> set trials"
  then show "trial_ok t" "fst t \<in> {''direct'', ''broadcast''}" "fst (snd t) \<in> set (arg_tiers a)"
    using plan_workloads_ok[of t a "arg_workloads a"] assms check_args_Inr(3)[OF assms(1)]
    by (auto simp: planned_trials_def)
next
  have tiers: "plan_tiers a w ts = (xs, None) \<Longrightarrow>
      xs = concat (map (\<lambda>conns. map (\<lambda>run. (w, conns, active_count a conns, run)) [1..arg_runs a]) ts)" for w ts xs
    by (induction ts arbitrary: xs) (auto simp: Let_def split: if_splits prod.splits)
  have "plan_workloads a ws = (xs, None) \<Longrightarrow> xs = concat (map (\<lambda>w. concat (map (\<lambda>conns.
      map (\<lambda>run. (w, conns, active_count a conns, run)) [1..arg_runs a]) (arg_tiers a))) ws)" for ws xs
    by (induction ws arbitrary: xs) (auto split: prod.splits option.splits dest: tiers)
  moreover assume "e = None"
  ultimately show "trials = concat (map (\<lambda>w. concat (map (\<lambda>conns.
      map (\<lambda>run. (w, conns, active_count a conns, run)) [1..arg_runs a]) (arg_tiers a))) (arg_workloads a))"
    using assms(2) by (simp add: planned_trials_def)
qed

text \<open>The command line's defaults, for a server and a label (the two required options).\<close>

definition default_args :: bench_args where
  "default_args =
     \<lparr> arg_server = ''server'', arg_label = ''epoll'', arg_experiment = ''smoke'', arg_tiers = [100], arg_active_connections = None, arg_workloads = [''direct''], arg_runs = 1,
       arg_trial_id = 1, arg_duration = Fin 5, arg_warmup = Fin 1, arg_warmup_rate = None,
       arg_drain = Fin 2, arg_rate = Fin 1000, arg_payload_size = 128, arg_workers = 4,
       arg_server_cpu = None, arg_worker_cpus = [], arg_max_overdue_sends = 32,
       arg_max_offer_lag_ms = Fin 20, arg_max_recv_calls = 4, arg_max_recv_bytes = 65536,
       arg_min_delivery_ratio = to_float (999 / 1000), arg_min_deadline_completion_ratio = to_float (99 / 100),
       arg_max_missed_offer_ratio = to_float (1 / 100), arg_max_scheduler_lag_ms = Fin 20,
       arg_max_latency_p99_ms = Fin 50, arg_max_read_service_gap_ms = Fin 20,
       arg_allow_disconnects = False, arg_allow_queue_overflow = False, arg_profile = ''none'',
       arg_profile_output = None, arg_output = None \<rparr>"

lemma in_unit_to_float: "0 \<le> x \<Longrightarrow> x \<le> 1 \<Longrightarrow> in_unit (to_float x)"
  using to_float_unit[of x] by (simp add: in_unit_def)

lemma default_args_accepted: "check_args True default_args = Inr ()"
  by (simp add: check_args_def default_args_def in_unit_to_float not_positive_def)

theorem planned_trials_sound_witness:
  "planned_trials default_args = ([(''direct'', 100, 100, 1)], None) \<and> trial_ok (''direct'', 100, 100, 1)"
proof -
  have p: "planned_trials default_args = ([(''direct'', 100, 100, 1)], None)"
    by (simp add: planned_trials_def default_args_def active_count_def)
  then show ?thesis using planned_trials_sound[OF default_args_accepted p] by simp
qed

end
