(* ===== verification/Schedule.thy ===== *)
theory Schedule
  imports Min_Heap Phase_Config "HOL-Library.Product_Lexorder"
begin

text \<open>
  How the load generator distributes and paces its work (\<^verbatim>\<open>bench/benchmark.py\<close>): the partition
  of the connections over the worker processes, the rotation of the ready batch, the offer
  schedule of a phase and the bounded harvest of its due offers.
\<close>

section \<open>Partition of the connections over workers\<close>

definition partition_clients :: "'a list \<Rightarrow> nat \<Rightarrow> 'a list list" where
  "partition_clients clients worker_count =
     map (\<lambda>offset. stride offset worker_count clients) [0..<worker_count]"

lemma stride_class:
  "o' < n \<Longrightarrow> stride o' n xs = map ((!) xs) (filter (\<lambda>i. i mod n = o') [0..<length xs])"
  unfolding stride_def
proof (intro arg_cong[where f = "map _"] filter_cong refl)
  fix i assume "o' < n"
  show "(o' \<le> i \<and> (i - o') mod n = 0) \<longleftrightarrow> i mod n = o'"
  proof
    assume "o' \<le> i \<and> (i - o') mod n = 0"
    then obtain q where "i = o' + q * n" by (metis dvdE le_add_diff_inverse mod_eq_0_iff_dvd mult.commute)
    with \<open>o' < n\<close> show "i mod n = o'" by simp
  next
    assume i: "i mod n = o'"
    then have "o' \<le> i" by (metis mod_less_eq_dividend)
    moreover have "i - o' = n * (i div n)" using i minus_mod_eq_mult_div[of i n] by simp
    ultimately show "o' \<le> i \<and> (i - o') mod n = 0" by simp
  qed
qed

lemma sum_list_single: "k < n \<Longrightarrow> (\<Sum>j\<leftarrow>[0..<n]. if k = j then x else (0 :: 'a::comm_monoid_add)) = x"
  by (simp add: interv_sum_list_conv_sum_set_nat sum.delta)

lemma mset_classes:
  assumes "\<And>i. i \<in> set is \<Longrightarrow> f i < n"
  shows "mset (concat (map (\<lambda>j. map g (filter (\<lambda>i. f i = j) is)) [0..<n])) = mset (map g is)"
  using assms
proof (induction "is")
  case Nil
  then show ?case by (induction n) auto
next
  case (Cons a "is")
  have "mset (concat (map (\<lambda>j. map g (filter (\<lambda>i. f i = j) (a # is))) [0..<n])) =
      (\<Sum>j\<leftarrow>[0..<n]. (if f a = j then {#g a#} else {#}) + mset (map g (filter (\<lambda>i. f i = j) is)))"
    by (simp add: mset_concat comp_def) (rule arg_cong[where f = sum_list], auto)
  also have "\<dots> = {#g a#} + mset (concat (map (\<lambda>j. map g (filter (\<lambda>i. f i = j) is)) [0..<n]))"
    using Cons.prems[of a] sum_list_single[of "f a" n "{#g a#}"]
    by (simp add: sum_list_addf mset_concat comp_def)
  finally show ?case using Cons by simp
qed

lemma class_size:
  assumes "j < n"
  shows "length (filter (\<lambda>i. i mod n = j) [0..<m]) = (m + n - 1 - j) div n"
proof (induction m)
  case 0
  then show ?case using assms by simp
next
  case (Suc m)
  define q r where "q = m div n" and "r = m mod n"
  have m: "m = q * n + r" "r < n" using assms by (simp_all add: q_def r_def)
  have s: "(Suc m + n - 1 - j) div n = (m + n - 1 - j) div n + (if r = j then 1 else 0)"
  proof -
    let ?A = "(Suc m + n - 1 - j) div n" and ?B = "(m + n - 1 - j) div n"
    have "?A = (if j \<le> r then Suc q else q)"
      using m assms by (intro div_nat_eqI) (auto simp: algebra_simps)
    moreover have "?B = (if j < r then Suc q else q)"
      using m assms by (intro div_nat_eqI) (auto simp: algebra_simps)
    ultimately show ?thesis by auto
  qed
  have "length (filter (\<lambda>i. i mod n = j) [0..<Suc m]) =
      length (filter (\<lambda>i. i mod n = j) [0..<m]) + (if r = j then 1 else 0)"
    by (simp add: r_def)
  with Suc s show ?case by simp
qed

lemma partition_clients_classes:
  "partition_clients clients worker_count =
     map (\<lambda>j. map ((!) clients) (filter (\<lambda>i. i mod worker_count = j) [0..<length clients])) [0..<worker_count]"
  by (simp add: partition_clients_def stride_class)

lemma mset_partition_clients:
  "0 < worker_count \<Longrightarrow> mset (concat (partition_clients clients worker_count)) = mset clients"
  unfolding partition_clients_classes by (subst mset_classes) (simp_all add: map_nth)

text \<open>The connections are partitioned over the workers: together the parts hold every client
  exactly once, and no part is more than one client larger than another.\<close>

theorem partition_clients_balanced:
  assumes "0 < worker_count"
  shows "mset (concat (partition_clients clients worker_count)) = mset clients \<and>
    length (partition_clients clients worker_count) = worker_count \<and>
    (\<forall>p\<in>set (partition_clients clients worker_count). \<forall>q\<in>set (partition_clients clients worker_count).
       length p \<le> length q + 1)"
proof (intro conjI ballI)
  note eq = partition_clients_classes[of clients worker_count]
  show "mset (concat (partition_clients clients worker_count)) = mset clients"
    by (rule mset_partition_clients[OF assms])
  show "length (partition_clients clients worker_count) = worker_count"
    by (simp add: partition_clients_def)
  fix p q
  assume "p \<in> set (partition_clients clients worker_count)" "q \<in> set (partition_clients clients worker_count)"
  then obtain i j where ij: "i < worker_count" "j < worker_count"
    and p: "length p = (length clients + worker_count - 1 - i) div worker_count"
    and q: "length q = (length clients + worker_count - 1 - j) div worker_count"
    unfolding eq by (auto simp: class_size)
  have "length p \<le> (length clients + worker_count - 1) div worker_count"
    unfolding p by (intro div_le_mono) simp
  also have "\<dots> \<le> (length clients + worker_count - 1 - j + worker_count) div worker_count"
    using ij by (intro div_le_mono) simp
  also have "\<dots> = length q + 1" unfolding q using assms by simp
  finally show "length p \<le> length q + 1" .
qed

theorem partition_clients_balanced_witness:
  "mset (concat (partition_clients [10, 11, 12, 13, 14 :: int] 2)) = mset [10, 11, 12, 13, 14] \<and>
    length (partition_clients [10, 11, 12, 13, 14 :: int] 2) = 2"
  using partition_clients_balanced[of 2 "[10, 11, 12, 13, 14 :: int]"] by simp

section \<open>Rotation of the ready batch\<close>

definition rotate_ready :: "'e list \<Rightarrow> int \<Rightarrow> 'e list \<times> int" where
  "rotate_ready events cursor =
     (if events = [] then ([], cursor)
      else let offset = cursor mod int (length events)
           in (drop (nat offset) events @ take (nat offset) events,
               (offset + 1) mod int (length events)))"

lemma rotate_ready_mset: "mset (fst (rotate_ready events cursor)) = mset events"
  unfolding rotate_ready_def Let_def
  by simp (metis append_take_drop_id mset_append union_commute)

lemma set_rotate_ready: "set (fst (rotate_ready events cursor)) = set events"
  using rotate_ready_mset[of events cursor] by (metis set_mset_mset)

lemma rotate_ready_head:
  assumes "events \<noteq> []"
  shows "fst (rotate_ready events cursor) ! 0 = events ! nat (cursor mod int (length events))"
proof -
  have "nat (cursor mod int (length events)) < length events"
    using assms by (simp add: nat_less_iff)
  with assms show ?thesis by (simp add: rotate_ready_def Let_def nth_append)
qed

text \<open>The cursor after \<open>k\<close> selector returns with the same batch.\<close>

fun cursor_after :: "'e list \<Rightarrow> int \<Rightarrow> nat \<Rightarrow> int" where
  "cursor_after events cursor 0 = cursor"
| "cursor_after events cursor (Suc k) = snd (rotate_ready events (cursor_after events cursor k))"

lemma cursor_after_mod:
  "events \<noteq> [] \<Longrightarrow> cursor_after events cursor k mod int (length events) = (cursor + int k) mod int (length events)"
proof (induction k)
  case (Suc k)
  then have "cursor_after events cursor (Suc k) =
      (cursor_after events cursor k mod int (length events) + 1) mod int (length events)"
    by (simp add: rotate_ready_def Let_def)
  also have "\<dots> = (cursor + int (Suc k)) mod int (length events)"
    using Suc by (simp add: mod_simps ac_simps)
  finally show ?case by simp
qed simp

text \<open>C22: rotating the ready batch serves every socket and starves none: nothing is lost or
  duplicated, and while the batch stays the same each of its \<open>n\<close> entries leads one of the next
  \<open>n\<close> batches.\<close>

theorem rotate_ready_fair:
  assumes "j < length events"
  shows "mset (fst (rotate_ready events cursor)) = mset events \<and>
    (\<exists>k<length events. fst (rotate_ready events (cursor_after events cursor k)) ! 0 = events ! j)"
proof -
  let ?n = "int (length events)"
  have ne: "events \<noteq> []" and n: "0 < ?n" using assms by auto
  define k where "k = nat ((int j - cursor) mod ?n)"
  have k: "int k = (int j - cursor) mod ?n" using n by (simp add: k_def)
  have "int k < ?n" unfolding k using n by simp
  moreover have "cursor_after events cursor k mod ?n = int j"
    using assms n by (simp add: cursor_after_mod[OF ne] k mod_simps)
  ultimately show ?thesis
    using rotate_ready_head[OF ne, of "cursor_after events cursor k"] by (auto simp: rotate_ready_mset)
qed

theorem rotate_ready_fair_witness:
  "mset (fst (rotate_ready [10, 20, 30 :: int] 5)) = mset [10, 20, 30] \<and>
    (\<exists>k<length [10, 20, 30 :: int].
       fst (rotate_ready [10, 20, 30] (cursor_after [10, 20, 30 :: int] 5 k)) ! 0 = [10, 20, 30 :: int] ! 1)"
  by (rule rotate_ready_fair) simp

section \<open>Harvest of the due offers\<close>

text \<open>A scheduled offer: its time and sequence number, and the client that is to make it.\<close>

type_synonym offer = "(int \<times> int) \<times> int"

text \<open>A harvested offer: time, whether it is missed, sequence number, client.\<close>

type_synonym harvested = "int \<times> bool \<times> int \<times> int"

abbreviation scheduled_ns :: "offer \<Rightarrow> int" where
  "scheduled_ns x \<equiv> fst (fst x)"

abbreviation sequence :: "offer \<Rightarrow> int" where
  "sequence x \<equiv> snd (fst x)"

function due_loop :: "offer list \<Rightarrow> int \<Rightarrow> int \<Rightarrow> int \<Rightarrow> harvested list \<Rightarrow> harvested list \<times> offer list" where
  "due_loop schedule now_ns max_count max_lag_ns ready =
     (if schedule \<noteq> [] \<and> scheduled_ns (hd schedule) \<le> now_ns \<and> int (length ready) < max_count
      then case heappop schedule of
          None \<Rightarrow> (ready, schedule)
        | Some (x, rest) \<Rightarrow>
            due_loop rest now_ns max_count max_lag_ns
              (ready @ [(scheduled_ns x, now_ns - scheduled_ns x > max_lag_ns, sequence x, snd x)])
      else (ready, schedule))"
  by pat_completeness auto
termination
  by (relation "measure (\<lambda>(schedule, _). length schedule)") (auto dest: heappop_length)

declare due_loop.simps [simp del]

definition due_offers :: "offer list \<Rightarrow> int \<Rightarrow> int \<Rightarrow> int \<Rightarrow> harvested list \<times> offer list" where
  "due_offers schedule now_ns max_count max_lag_ns = due_loop schedule now_ns max_count max_lag_ns []"

definition harvest :: "int \<Rightarrow> int \<Rightarrow> offer \<Rightarrow> harvested" where
  "harvest now_ns max_lag_ns x = (scheduled_ns x, now_ns - scheduled_ns x > max_lag_ns, sequence x, snd x)"

text \<open>The loop is the bounded drain of the schedule.\<close>

lemma due_loop_drain:
  "due_loop schedule now_ns max_count max_lag_ns ready =
     (let (xs, rest) = drain heappop (\<lambda>x. scheduled_ns x \<le> now_ns) (nat (max_count - int (length ready))) schedule
      in (ready @ map (harvest now_ns max_lag_ns) xs, rest))"
proof (induction schedule now_ns max_count max_lag_ns ready rule: due_loop.induct)
  case (1 schedule now_ns max_count max_lag_ns ready)
  let ?due = "\<lambda>x. scheduled_ns x \<le> now_ns"
  show ?case
  proof (cases "int (length ready) < max_count")
    case room: True
    obtain n where n: "nat (max_count - int (length ready)) = Suc n"
      using room by (cases "nat (max_count - int (length ready))") auto
    then have n': "nat (max_count - int (length (ready @ [y]))) = n" for y :: harvested by auto
    show ?thesis
    proof (cases schedule)
      case Nil
      then show ?thesis by (simp add: due_loop.simps n heappop_def)
    next
      case (Cons x xs)
      then obtain h rest where pop: "heappop schedule = Some (h, rest)"
        by (cases "heappop schedule") auto
      then have h: "h = x" using heappop_head[of x xs h rest] Cons by simp
      show ?thesis
      proof (cases "?due x")
        case True
        with 1[of "(x, rest)" x rest] room Cons pop h n n' show ?thesis
          by (simp add: due_loop.simps[of "x # xs" now_ns max_count max_lag_ns ready] harvest_def split: prod.splits)
      next
        case False
        then show ?thesis using Cons pop h n by (simp add: due_loop.simps[of "x # xs" now_ns max_count max_lag_ns ready])
      qed
    qed
  next
    case False
    then show ?thesis by (simp add: due_loop.simps)
  qed
qed

lemma due_offers_drain:
  assumes "due_offers schedule now_ns max_count max_lag_ns = (ready, rest)"
  obtains xs where "drain heappop (\<lambda>x. scheduled_ns x \<le> now_ns) (nat max_count) schedule = (xs, rest)"
    "ready = map (harvest now_ns max_lag_ns) xs"
  using assms that by (auto simp: due_offers_def due_loop_drain split: prod.splits)

text \<open>C17: one harvest takes at most \<^verbatim>\<open>max_count\<close> offers, all of them due, in the order of their
  times; it marks exactly those as missed that are later than the lag limit; every offer is either
  taken or still scheduled; and a due offer is left behind only when the cap was reached.\<close>

theorem due_offers_bounded:
  assumes "is_heap schedule" "due_offers schedule now_ns max_count max_lag_ns = (ready, rest)"
  shows "length ready \<le> nat max_count \<and>
    (\<forall>(t, missed, s, c)\<in>set ready. t \<le> now_ns \<and> (missed \<longleftrightarrow> now_ns - t > max_lag_ns)) \<and>
    sorted (map fst ready) \<and>
    mset (map (\<lambda>(t, missed, s, c). ((t, s), c)) ready) + mset rest = mset schedule \<and>
    is_heap rest \<and>
    (length ready < nat max_count \<longrightarrow> (\<forall>x\<in>set rest. now_ns < scheduled_ns x))"
proof -
  let ?due = "\<lambda>x :: offer. scheduled_ns x \<le> now_ns"
  obtain xs where d: "drain heappop ?due (nat max_count) schedule = (xs, rest)"
    and r: "ready = map (harvest now_ns max_lag_ns) xs"
    using assms(2) by (rule due_offers_drain)
  have same: "map (\<lambda>(t, missed, s, c). ((t, s), c)) ready = xs"
    unfolding r by (simp add: comp_def harvest_def)
  have "sorted (map fst (map fst xs))"
    using hq.drain_sorted[OF d assms(1)] by (auto simp: sorted_map less_eq_prod_def elim: sorted_wrt_mono_rel[rotated])
  then have "sorted (map fst ready)" unfolding r by (simp add: harvest_def comp_def)
  moreover have "\<forall>x\<in>set rest. now_ns < scheduled_ns x" if "length ready < nat max_count"
  proof
    fix x assume "x \<in> set rest"
    then have "\<not> ?due x"
      using that by (intro hq.drain_complete[OF d assms(1)]) (auto simp: r less_eq_prod_def)
    then show "now_ns < scheduled_ns x" by simp
  qed
  ultimately show ?thesis
    using hq.drain_length[OF d] hq.drain_due[OF d] hq.drain_items[OF d] hq.drain_wf[OF d assms(1)] same
    by (auto simp: r harvest_def)
qed

theorem due_offers_bounded_witness:
  "length [(1 :: int, True, 0 :: int, 7 :: int), (5, False, 1, 8)] \<le> nat 32 \<and>
    due_offers [((1, 0), 7), ((5, 1), 8), ((9, 2), 9)] 6 32 3 =
      ([(1, True, 0, 7), (5, False, 1, 8)], [((9, 2), 9)])"
proof -
  have h: "is_heap ([((1, 0), 7), ((5, 1), 8), ((9, 2), 9)] :: offer list)" by code_simp
  have d: "due_offers [((1, 0), 7), ((5, 1), 8), ((9, 2), 9)] 6 32 3 =
      ([(1, True, 0, 7), (5, False, 1, 8)], [((9, 2), 9)])" by code_simp
  show ?thesis using due_offers_bounded[OF h d] d by blast
qed

section \<open>The schedule of a phase\<close>

text \<open>
  A client's place among the active indices; a later entry of the comprehension overrides an
  earlier one for the same index.
\<close>

definition active_position :: "phase \<Rightarrow> int \<Rightarrow> int option" where
  "active_position ph c =
     map_of (rev (zip (ph_active_indices ph) (map int [0..<length (ph_active_indices ph)]))) c"

text \<open>The first offer of one client, pushed on the schedule; \<open>clients\<close> are given by their indices.\<close>

definition schedule_client :: "phase \<Rightarrow> int \<Rightarrow> pyfloat \<Rightarrow> int \<Rightarrow> offer list \<Rightarrow> py_exn + offer list" where
  "schedule_client ph target_offers period_ns c schedule =
     (case active_position ph c of
        None \<Rightarrow> Inr schedule
      | Some position \<Rightarrow>
          if target_offers \<le> position then Inr schedule
          else
            seq (of_py_int position) (\<lambda>p.
            seq (of_py_int (ph_start_ns ph)) (\<lambda>start.
            seq (to_py_int (fadd start (fmul p period_ns))) (\<lambda>t.
              Inr (heappush schedule ((t, position), c))))))"

definition schedule_for_clients :: "int list \<Rightarrow> phase \<Rightarrow> py_exn + offer list \<times> int" where
  "schedule_for_clients clients ph =
     seq (to_py_int (fmul (ph_rate ph) (ph_duration ph))) (\<lambda>target_offers.
       if target_offers = 0 then Inr ([], target_offers)
       else
         seq (fdiv (Fin 1000000000) (ph_rate ph)) (\<lambda>period_ns.
         seq (for_each clients (schedule_client ph target_offers period_ns) []) (\<lambda>schedule.
           Inr (schedule, target_offers))))"

text \<open>The sequence number and the client of each first offer.\<close>

definition first_offers :: "phase \<Rightarrow> int \<Rightarrow> int list \<Rightarrow> (int \<times> int) list" where
  "first_offers ph target_offers clients =
     List.map_filter (\<lambda>c. case active_position ph c of
         None \<Rightarrow> None
       | Some position \<Rightarrow> if position < target_offers then Some (position, c) else None) clients"

abbreviation offer_ids :: "offer list \<Rightarrow> (int \<times> int) multiset" where
  "offer_ids schedule \<equiv> image_mset (\<lambda>x. (sequence x, snd x)) (mset schedule)"

lemma active_position_bounds:
  "active_position ph c = Some p \<Longrightarrow> 0 \<le> p \<and> p < int (length (ph_active_indices ph)) \<and>
    ph_active_indices ph ! nat p = c"
  unfolding active_position_def by (drule map_of_SomeD) (auto simp: in_set_zip)

lemma first_offers_Nil [simp]: "first_offers ph target_offers [] = []"
  by (simp add: first_offers_def List.map_filter_def)

lemma first_offers_Cons:
  "first_offers ph target_offers (c # clients) =
     (case active_position ph c of
        None \<Rightarrow> []
      | Some p \<Rightarrow> if p < target_offers then [(p, c)] else []) @ first_offers ph target_offers clients"
  by (simp add: first_offers_def List.map_filter_def split: option.split)

lemma first_offers_set:
  "x \<in> set (first_offers ph target_offers clients) \<longleftrightarrow>
     snd x \<in> set clients \<and> active_position ph (snd x) = Some (fst x) \<and> fst x < target_offers"
  by (induction clients) (auto simp: first_offers_Cons split: option.splits)

lemma schedule_client_Inr:
  assumes "schedule_client ph target period c schedule = Inr schedule'"
  shows "offer_ids schedule' = offer_ids schedule + mset (first_offers ph target [c])"
    and "is_heap schedule \<Longrightarrow> is_heap schedule'"
  using assms
  by (auto simp: schedule_client_def exn_simps first_offers_Cons mset_heappush heap_heappush
      split: option.splits if_splits)

lemma schedule_clients_Inr:
  assumes "for_each clients (schedule_client ph target period) schedule = Inr schedule'"
  shows "offer_ids schedule' = offer_ids schedule + mset (first_offers ph target clients) \<and>
    (is_heap schedule \<longrightarrow> is_heap schedule')"
  using assms
proof (induction clients arbitrary: schedule)
  case Nil
  then show ?case by simp
next
  case (Cons c clients)
  then obtain s1 where s1: "schedule_client ph target period c schedule = Inr s1"
    and rest: "for_each clients (schedule_client ph target period) s1 = Inr schedule'"
    by (auto simp: exn_simps)
  have "first_offers ph target (c # clients) = first_offers ph target [c] @ first_offers ph target clients"
    by (simp add: first_offers_Cons)
  with Cons.IH[OF rest] schedule_client_Inr[OF s1] show ?case by simp
qed

lemma schedule_for_clients_Inr:
  assumes "schedule_for_clients clients ph = Inr (schedule, target_offers)"
  shows "is_heap schedule \<and> offer_ids schedule = mset (first_offers ph target_offers clients) \<and>
    to_py_int (fmul (ph_rate ph) (ph_duration ph)) = Inr target_offers"
proof (cases "target_offers = 0")
  case True
  have "x \<notin> set (first_offers ph target_offers clients)" for x
    using True active_position_bounds[of ph "snd x" "fst x"] by (auto simp: first_offers_set)
  then have "first_offers ph target_offers clients = []" by (metis list.set_intros(1) neq_Nil_conv)
  moreover have "schedule = []" "to_py_int (fmul (ph_rate ph) (ph_duration ph)) = Inr target_offers"
    using assms True by (auto simp: schedule_for_clients_def exn_simps split: if_splits)
  ultimately show ?thesis by (simp add: is_heap_def)
next
  case False
  then obtain period where "for_each clients (schedule_client ph target_offers period) [] = Inr schedule"
    and "to_py_int (fmul (ph_rate ph) (ph_duration ph)) = Inr target_offers"
    using assms by (auto simp: schedule_for_clients_def exn_simps split: if_splits)
  with schedule_clients_Inr[OF this(1)] show ?thesis by (simp add: is_heap_def)
qed

text \<open>C18: the schedule of a phase is a heap that holds one first offer for every active client of
  the worker whose position is below the target, under that position as sequence number, and
  nothing else; when the client indices are distinct, no two offers share a sequence number, so
  comparing two offers never reaches the client objects.\<close>

theorem schedule_for_clients_sound:
  assumes "schedule_for_clients clients ph = Inr (schedule, target_offers)" "distinct clients"
  shows "is_heap schedule \<and>
    offer_ids schedule = mset (first_offers ph target_offers clients) \<and>
    distinct (map sequence schedule)"
proof -
  have main: "is_heap schedule \<and> offer_ids schedule = mset (first_offers ph target_offers clients)"
    using schedule_for_clients_Inr[OF assms(1)] by blast
  have "distinct (map fst (first_offers ph target_offers clients))"
    using assms(2)
  proof (induction clients)
    case Nil
    then show ?case by simp
  next
    case (Cons c clients)
    have "p \<notin> fst ` set (first_offers ph target_offers clients)" if "active_position ph c = Some p" for p
    proof
      assume "p \<in> fst ` set (first_offers ph target_offers clients)"
      then obtain c' where c': "c' \<in> set clients" "active_position ph c' = Some p"
        by (auto simp: first_offers_set)
      then have "c' = c" using active_position_bounds[OF c'(2)] active_position_bounds[OF that] by simp
      with c'(1) Cons.prems show False by simp
    qed
    with Cons show ?case
      by (auto simp: first_offers_Cons split: option.splits)
  qed
  moreover have "mset (map sequence schedule) = image_mset fst (offer_ids schedule)"
    by (simp add: multiset.map_comp comp_def)
  then have "mset (map sequence schedule) = mset (map fst (first_offers ph target_offers clients))"
    using main by simp
  ultimately show ?thesis using main by (metis mset_eq_imp_distinct_iff)
qed

definition sample_phase :: phase where
  "sample_phase =
     \<lparr> ph_workload = ''direct'', ph_total_connections = 3, ph_active_indices = [0, 1, 2],
       ph_rate = Fin 2, ph_duration = Fin 2, ph_drain = Fin 1, ph_payload_size = 0, ph_token = ''t'',
       ph_start_ns = 1000, ph_deadline_ns = 2000001000, ph_max_overdue_sends = 32,
       ph_max_offer_lag_ms = Fin 20, ph_max_recv_calls = 4, ph_max_recv_bytes = 65536 \<rparr>"

theorem schedule_for_clients_sound_witness:
  "schedule_for_clients [0, 2] sample_phase = Inr ([((1000, 0), 0), ((1000001000, 2), 2)], 4) \<and>
    is_heap ([((1000, 0), 0), ((1000001000, 2), 2)] :: offer list)"
proof -
  have e: "schedule_for_clients [0, 2] sample_phase = Inr ([((1000, 0), 0), ((1000001000, 2), 2)], 4)"
    by (simp add: schedule_for_clients_def schedule_client_def sample_phase_def active_position_def
        heappush_def sift_down.simps parent_def float_simps)
  show ?thesis using schedule_for_clients_sound[OF e] e by simp
qed

end
