(* ===== verification/Load_State.thy ===== *)
theory Load_State
  imports Py_Float "HOL-Library.Product_Lexorder"
begin

text \<open>
  The counters of a worker (\<^verbatim>\<open>empty_state\<close>) and how the harness joins the workers' replies
  (\<^verbatim>\<open>normalize_state\<close>, \<^verbatim>\<open>merge_states\<close> of \<^verbatim>\<open>bench/benchmark.py\<close>). A running phase updates the
  counters as a record; a reply is the dictionary of them, possibly with keys missing or under
  their old names, so the joining works on dictionaries, kept here as one map per value type.
\<close>

section \<open>The counters of a worker\<close>

record load_state =
  worker_id :: int
  offered_operations :: int
  sent_operations :: int
  missed_offers :: int
  completed_by_deadline :: int
  eventual_completions :: int
  deliveries :: int
  deliveries_by_deadline :: int
  send_errors :: int
  disconnects :: "int set"
  latencies_ms :: "pyfloat list"
  scheduling_lag_ms :: "pyfloat list"
  max_read_service_gap_ms :: pyfloat
  generator_cpu_seconds :: pyfloat
  start_skew_ms :: pyfloat
  client_partial_sends :: int
  client_send_eagain :: int

definition empty_state :: "int \<Rightarrow> load_state" where
  "empty_state wid =
     \<lparr> worker_id = wid, offered_operations = 0, sent_operations = 0, missed_offers = 0,
       completed_by_deadline = 0, eventual_completions = 0, deliveries = 0,
       deliveries_by_deadline = 0, send_errors = 0, disconnects = {}, latencies_ms = [],
       scheduling_lag_ms = [], max_read_service_gap_ms = Fin 0, generator_cpu_seconds = Fin 0,
       start_skew_ms = Fin 0, client_partial_sends = 0, client_send_eagain = 0 \<rparr>"

section \<open>Replies as dictionaries\<close>

record state_dict =
  d_ints :: "string \<rightharpoonup> int"
  d_floats :: "string \<rightharpoonup> pyfloat"
  d_lists :: "string \<rightharpoonup> pyfloat list"
  d_sets :: "string \<rightharpoonup> int set"

definition dict_of :: "load_state \<Rightarrow> state_dict" where
  "dict_of st =
     \<lparr> d_ints = [''worker_id'' \<mapsto> worker_id st, ''offered_operations'' \<mapsto> offered_operations st,
         ''sent_operations'' \<mapsto> sent_operations st, ''missed_offers'' \<mapsto> missed_offers st,
         ''completed_by_deadline'' \<mapsto> completed_by_deadline st,
         ''eventual_completions'' \<mapsto> eventual_completions st, ''deliveries'' \<mapsto> deliveries st,
         ''deliveries_by_deadline'' \<mapsto> deliveries_by_deadline st, ''send_errors'' \<mapsto> send_errors st,
         ''client_partial_sends'' \<mapsto> client_partial_sends st,
         ''client_send_eagain'' \<mapsto> client_send_eagain st],
       d_floats = [''max_read_service_gap_ms'' \<mapsto> max_read_service_gap_ms st,
         ''generator_cpu_seconds'' \<mapsto> generator_cpu_seconds st, ''start_skew_ms'' \<mapsto> start_skew_ms st],
       d_lists = [''latencies_ms'' \<mapsto> latencies_ms st, ''scheduling_lag_ms'' \<mapsto> scheduling_lag_ms st],
       d_sets = [''disconnects'' \<mapsto> disconnects st] \<rparr>"

text \<open>\<^verbatim>\<open>normalized.update(state)\<close> on every value type.\<close>

definition update_dict :: "state_dict \<Rightarrow> state_dict \<Rightarrow> state_dict" where
  "update_dict d e =
     \<lparr> d_ints = d_ints d ++ d_ints e, d_floats = d_floats d ++ d_floats e,
       d_lists = d_lists d ++ d_lists e, d_sets = d_sets d ++ d_sets e \<rparr>"

definition aliases :: "(string \<times> string) list" where
  "aliases = [(''offered'', ''offered_operations''), (''completed'', ''eventual_completions''),
     (''completed_by_deadline'', ''completed_by_deadline'')]"

definition worker_id_of :: "state_dict \<Rightarrow> int" where
  "worker_id_of state = (case d_ints state ''worker_id'' of Some n \<Rightarrow> n | None \<Rightarrow> 0)"

text \<open>One step of the alias loop: the old name counts only when the new one is missing.\<close>

definition apply_alias :: "state_dict \<Rightarrow> string \<times> string \<Rightarrow> (string \<rightharpoonup> int) \<Rightarrow> (string \<rightharpoonup> int)" where
  "apply_alias state a normalized =
     (case (d_ints state (fst a), d_ints state (snd a)) of
        (Some v, None) \<Rightarrow> normalized(snd a \<mapsto> v)
      | _ \<Rightarrow> normalized)"

definition normalize_state :: "state_dict \<Rightarrow> state_dict" where
  "normalize_state state =
     (let normalized = update_dict (dict_of (empty_state (worker_id_of state))) state
      in normalized\<lparr>d_ints := fold (apply_alias state) aliases (d_ints normalized)\<rparr>)"

section \<open>Merging the replies\<close>

definition summed_ints :: "string list" where
  "summed_ints =
     [''offered_operations'', ''sent_operations'', ''missed_offers'', ''completed_by_deadline'',
      ''eventual_completions'', ''deliveries'', ''deliveries_by_deadline'', ''send_errors'',
      ''client_partial_sends'', ''client_send_eagain'']"

text \<open>\<^verbatim>\<open>sum\<close>, \<^verbatim>\<open>max(..., default=0.0)\<close> and \<^verbatim>\<open>abs\<close> over the replies; a missing key cannot occur, see
  \<open>normalized_keys\<close>.\<close>

definition sum_key :: "string \<Rightarrow> state_dict list \<Rightarrow> int" where
  "sum_key key states = (\<Sum>s\<leftarrow>states. the (d_ints s key))"

definition max_default :: "pyfloat list \<Rightarrow> pyfloat" where
  "max_default xs = (case xs of [] \<Rightarrow> Fin 0 | x # ys \<Rightarrow> foldl py_max x ys)"

fun fabs :: "pyfloat \<Rightarrow> pyfloat" where
  "fabs (Fin a) = Fin \<bar>a\<bar>"
| "fabs NInf = PInf"
| "fabs x = x"

definition order_states :: "state_dict list \<Rightarrow> state_dict list" where
  "order_states states = map normalize_state (sort_key worker_id_of states)"

text \<open>
  The interpreter sums floats left to right before version 3.12 and with compensation since, so
  the float sum is the argument \<open>fsum\<close>; it is applied to the generator's CPU seconds alone.
\<close>

definition merge_states :: "(pyfloat list \<Rightarrow> pyfloat) \<Rightarrow> state_dict list \<Rightarrow> state_dict" where
  "merge_states fsum states =
     (let ordered = order_states states;
          base = dict_of (empty_state 0);
          ints = fold (\<lambda>key m. m(key \<mapsto> sum_key key ordered)) summed_ints (d_ints base)
      in \<lparr> d_ints = ints(''offered'' \<mapsto> the (ints ''offered_operations''),
             ''completed'' \<mapsto> the (ints ''eventual_completions'')),
           d_floats = (d_floats base)
             (''generator_cpu_seconds'' \<mapsto> fsum (map (\<lambda>s. the (d_floats s ''generator_cpu_seconds'')) ordered),
              ''max_read_service_gap_ms'' \<mapsto> max_default (map (\<lambda>s. the (d_floats s ''max_read_service_gap_ms'')) ordered),
              ''start_skew_ms'' \<mapsto> max_default (map (\<lambda>s. fabs (the (d_floats s ''start_skew_ms''))) ordered)),
           d_lists = (d_lists base)
             (''latencies_ms'' \<mapsto> concat (map (\<lambda>s. the (d_lists s ''latencies_ms'')) ordered),
              ''scheduling_lag_ms'' \<mapsto> concat (map (\<lambda>s. the (d_lists s ''scheduling_lag_ms'')) ordered)),
           d_sets = (d_sets base)
             (''disconnects'' \<mapsto> \<Union> (set (map (\<lambda>s. the (d_sets s ''disconnects'')) ordered))) \<rparr>)"

section \<open>Normalisation\<close>

lemma dom_apply_alias: "dom m \<subseteq> dom (apply_alias state a m)"
  by (auto simp: apply_alias_def split: option.splits)

lemma dom_fold_alias: "dom m \<subseteq> dom (fold (apply_alias state) as m)"
proof (induction "as" arbitrary: m)
  case (Cons a "as")
  then show ?case using subset_trans[OF dom_apply_alias[of m state a]] by simp
qed simp

text \<open>Every key of a fresh state is present after normalisation, so no lookup above can miss.\<close>

lemma normalized_keys:
  "dom (d_ints (dict_of (empty_state (worker_id_of s)))) \<subseteq> dom (d_ints (normalize_state s))"
  "dom (d_floats (dict_of (empty_state (worker_id_of s)))) \<subseteq> dom (d_floats (normalize_state s))"
  "dom (d_lists (dict_of (empty_state (worker_id_of s)))) \<subseteq> dom (d_lists (normalize_state s))"
  "dom (d_sets (dict_of (empty_state (worker_id_of s)))) \<subseteq> dom (d_sets (normalize_state s))"
proof -
  let ?n = "update_dict (dict_of (empty_state (worker_id_of s))) s"
  have "dom (d_ints (dict_of (empty_state (worker_id_of s)))) \<subseteq> dom (d_ints ?n)"
    by (simp add: update_dict_def)
  also have "\<dots> \<subseteq> dom (d_ints (normalize_state s))"
    by (simp add: normalize_state_def Let_def dom_fold_alias)
  finally show "dom (d_ints (dict_of (empty_state (worker_id_of s)))) \<subseteq> dom (d_ints (normalize_state s))" .
qed (simp_all add: normalize_state_def Let_def update_dict_def)

lemma dom_dict_of:
  "dom (d_ints (dict_of s)) = dom (d_ints (dict_of t))"
  "dom (d_floats (dict_of s)) = dom (d_floats (dict_of t))"
  "dom (d_lists (dict_of s)) = dom (d_lists (dict_of t))"
  "dom (d_sets (dict_of s)) = dom (d_sets (dict_of t))"
  by (simp_all add: dict_of_def)

lemma update_dict_of [simp]: "update_dict (dict_of s) (dict_of t) = dict_of t"
proof -
  have "d_ints (dict_of s) ++ d_ints (dict_of t) = d_ints (dict_of t)"
    "d_floats (dict_of s) ++ d_floats (dict_of t) = d_floats (dict_of t)"
    "d_lists (dict_of s) ++ d_lists (dict_of t) = d_lists (dict_of t)"
    "d_sets (dict_of s) ++ d_sets (dict_of t) = d_sets (dict_of t)"
    by (simp_all add: map_add_dom dom_dict_of[of s t])
  then show ?thesis by (simp add: update_dict_def)
qed

text \<open>A complete reply is its own normal form.\<close>

lemma normalize_dict_of [simp]: "normalize_state (dict_of st) = dict_of st"
proof -
  have "apply_alias (dict_of st) a m = m" if "a \<in> set aliases" for a m
    using that by (auto simp: aliases_def apply_alias_def dict_of_def)
  then have "fold (apply_alias (dict_of st)) aliases m = m" for m
    by (simp add: aliases_def)
  then show ?thesis by (simp add: normalize_state_def Let_def)
qed

lemma worker_id_of_dict [simp]: "worker_id_of (dict_of st) = worker_id st"
  by (simp add: worker_id_of_def dict_of_def)

lemma order_states_dicts: "order_states (map dict_of ws) = map dict_of (sort_key worker_id ws)"
  by (simp add: order_states_def sort_key_map comp_def)

section \<open>Properties of the merge\<close>

text \<open>C19: the merged result does not depend on the order in which the workers' replies arrive, as
  long as their worker ids differ (missing keys and old key names included).\<close>

theorem merge_states_order:
  assumes "mset states = mset states'" "distinct (map worker_id_of states)"
  shows "merge_states fsum states = merge_states fsum states'"
proof -
  have "inj_on worker_id_of (set states)" using assms(2) by (simp add: distinct_map)
  then have "sort_key worker_id_of states = sort_key worker_id_of states'"
    using assms(1) by (intro sort_key_inj_key_eq) auto
  then show ?thesis by (simp add: merge_states_def order_states_def)
qed

definition old_reply :: state_dict where
  "old_reply = \<lparr> d_ints = [''offered'' \<mapsto> 2, ''completed'' \<mapsto> 2], d_floats = Map.empty,
     d_lists = [''latencies_ms'' \<mapsto> [Fin 1]], d_sets = [''disconnects'' \<mapsto> {3}] \<rparr>"

theorem merge_states_order_witness:
  "merge_states (foldl fadd (Fin 0)) [old_reply, dict_of (empty_state 1)] =
   merge_states (foldl fadd (Fin 0)) [dict_of (empty_state 1), old_reply]"
  by (rule merge_states_order) (simp_all add: old_reply_def worker_id_of_def dict_of_def empty_state_def)

lemma summed_ints_fold:
  "fold (\<lambda>key m. m(key \<mapsto> f key)) keys m k = (if k \<in> set keys then Some (f k) else m k)"
  by (induction keys arbitrary: m) auto

lemma merged_counter:
  assumes "key \<in> set summed_ints" "key \<noteq> ''offered''" "key \<noteq> ''completed''"
  shows "d_ints (merge_states fsum states) key = Some (sum_key key (order_states states))"
  using assms by (simp add: merge_states_def Let_def summed_ints_fold)


end
