(* ===== verification/Py_Text.thy ===== *)
theory Py_Text
  imports Prelude
begin

text \<open>
  The \<^verbatim>\<open>bytes\<close> and \<^verbatim>\<open>str\<close> operations that the harness uses on protocol lines: substring search,
  splitting at a separator, splitting a stream into lines, and \<^verbatim>\<open>int(text)\<close>. A \<^verbatim>\<open>bytes\<close> object is a
  \<^typ>\<open>string\<close>, whose characters are its bytes.
\<close>

section \<open>Search and splitting\<close>

text \<open>\<^verbatim>\<open>s.find(pat)\<close>, with \<open>None\<close> for \<open>-1\<close>.\<close>

fun find_sub :: "string \<Rightarrow> string \<Rightarrow> nat option" where
  "find_sub pat [] = (if pat = [] then Some 0 else None)"
| "find_sub pat (c # cs) =
     (if take (length pat) (c # cs) = pat then Some 0 else map_option Suc (find_sub pat cs))"

text \<open>The text before and after the first separator.\<close>

fun split_first :: "char \<Rightarrow> string \<Rightarrow> (string \<times> string) option" where
  "split_first sep [] = None"
| "split_first sep (c # cs) =
     (if c = sep then Some ([], cs) else map_option (apfst (Cons c)) (split_first sep cs))"

text \<open>\<^verbatim>\<open>s.split(sep, maxsplit)\<close>.\<close>

fun split_max :: "char \<Rightarrow> nat \<Rightarrow> string \<Rightarrow> string list" where
  "split_max sep 0 s = [s]"
| "split_max sep (Suc n) s =
     (case split_first sep s of None \<Rightarrow> [s] | Some (a, b) \<Rightarrow> a # split_max sep n b)"

text \<open>\<^verbatim>\<open>s.split(sep)\<close>.\<close>

fun split_all :: "char \<Rightarrow> string \<Rightarrow> string list" where
  "split_all sep [] = [[]]"
| "split_all sep (c # cs) =
     (if c = sep then [] # split_all sep cs
      else (case split_all sep cs of [] \<Rightarrow> [[c]] | w # ws \<Rightarrow> (c # w) # ws))"

lemma split_first_None [simp]: "split_first sep s = None \<longleftrightarrow> sep \<notin> set s"
  by (induction s) auto

lemma split_first_Some: "split_first sep s = Some (a, b) \<longleftrightarrow> s = a @ sep # b \<and> sep \<notin> set a"
proof (induction s arbitrary: a)
  case Nil
  then show ?case by simp
next
  case (Cons c cs)
  then show ?case by (cases a) auto
qed

lemma split_first_append: "sep \<notin> set a \<Longrightarrow> split_first sep (a @ sep # b) = Some (a, b)"
  by (simp add: split_first_Some)

text \<open>A text splits in one way at a separator that the first part lacks.\<close>

lemma same_split:
  assumes "a @ (sep :: char) # b = a' @ sep # b'" "sep \<notin> set a" "sep \<notin> set a'"
  shows "a = a' \<and> b = b'"
proof -
  have "Some (a, b) = Some (a', b')"
    unfolding split_first_append[OF assms(2), symmetric] split_first_append[OF assms(3), symmetric] by (simp only: assms(1))
  then show ?thesis by simp
qed

lemma find_sub_Some:
  "find_sub pat s = Some i \<Longrightarrow> i \<le> length s \<and> take (length pat) (drop i s) = pat"
proof (induction s arbitrary: i)
  case Nil
  then show ?case by (auto split: if_splits)
next
  case (Cons c cs)
  then show ?case by (auto split: if_splits)
qed

text \<open>A match found after a prefix in which none starts.\<close>

lemma find_sub_skip:
  assumes "\<And>i. i < length pre \<Longrightarrow> take (length pat) (drop i (pre @ pat @ rest)) \<noteq> pat"
  shows "find_sub pat (pre @ pat @ rest) = Some (length pre)"
  using assms
proof (induction pre)
  case Nil
  show ?case by (cases pat; cases rest) simp_all
next
  case (Cons c pre)
  have "find_sub pat (pre @ pat @ rest) = Some (length pre)"
  proof (rule Cons.IH)
    fix i assume "i < length pre"
    then show "take (length pat) (drop i (pre @ pat @ rest)) \<noteq> pat" using Cons.prems[of "Suc i"] by simp
  qed
  moreover have "take (length pat) (c # pre @ pat @ rest) \<noteq> pat" using Cons.prems[of 0] by simp
  ultimately show ?case by simp
qed

section \<open>Lines of a stream\<close>

text \<open>The complete lines of a buffer, and the unfinished rest.\<close>

function lines_of :: "string \<Rightarrow> string list \<times> string" where
  "lines_of s =
     (case split_first (CHR 0x0A) s of
        None \<Rightarrow> ([], s)
      | Some (line, rest) \<Rightarrow> apfst (Cons line) (lines_of rest))"
  by pat_completeness auto
termination
  by (relation "measure length") (auto simp: split_first_Some)

declare lines_of.simps [simp del]

lemma lines_of_none: "CHR 0x0A \<notin> set s \<Longrightarrow> lines_of s = ([], s)"
proof -
  assume "CHR 0x0A \<notin> set s"
  then have none: "split_first (CHR 0x0A) s = None" by simp
  show ?thesis by (subst lines_of.simps) (simp only: none option.case)
qed

lemma lines_of_line:
  "CHR 0x0A \<notin> set l \<Longrightarrow> lines_of (l @ CHR 0x0A # s) = apfst (Cons l) (lines_of s)"
  by (subst lines_of.simps) (simp add: split_first_append)

lemma lines_of_rest: "CHR 0x0A \<notin> set (snd (lines_of s))"
proof (induction s rule: lines_of.induct)
  case (1 s)
  show ?case
  proof (cases "split_first (CHR 0x0A) s")
    case None
    then show ?thesis by (simp add: lines_of_none)
  next
    case (Some p)
    then show ?thesis using 1 by (cases p) (simp add: lines_of.simps[of s])
  qed
qed

text \<open>Putting the newlines back gives the stream again.\<close>

lemma lines_of_join:
  "concat (map (\<lambda>l. l @ [CHR 0x0A]) (fst (lines_of s))) @ snd (lines_of s) = s"
proof (induction s rule: lines_of.induct)
  case (1 s)
  show ?case
  proof (cases "split_first (CHR 0x0A) s")
    case None
    then show ?thesis by (simp add: lines_of_none)
  next
    case (Some p)
    obtain l r where p: "p = (l, r)" by (cases p)
    with Some have "s = l @ CHR 0x0A # r" by (simp add: split_first_Some)
    moreover have "concat (map (\<lambda>l. l @ [CHR 0x0A]) (fst (lines_of r))) @ snd (lines_of r) = r"
      using 1[OF Some p[symmetric]] by simp
    ultimately show ?thesis using Some p by (simp add: split_first_Some lines_of_line)
  qed
qed

text \<open>Where a stream is cut into chunks makes no difference to its lines.\<close>

lemma lines_of_append:
  "lines_of (s @ t) =
     (fst (lines_of s) @ fst (lines_of (snd (lines_of s) @ t)), snd (lines_of (snd (lines_of s) @ t)))"
proof (induction s rule: lines_of.induct)
  case (1 s)
  show ?case
  proof (cases "split_first (CHR 0x0A) s")
    case None
    then show ?thesis by (simp add: lines_of_none)
  next
    case (Some p)
    obtain l r where p: "p = (l, r)" by (cases p)
    with Some have s: "s = l @ CHR 0x0A # r" "CHR 0x0A \<notin> set l" by (simp_all add: split_first_Some)
    have "lines_of (s @ t) = apfst (Cons l) (lines_of (r @ t))" using s lines_of_line[of l "r @ t"] by simp
    moreover have "lines_of s = apfst (Cons l) (lines_of r)" using s lines_of_line by simp
    ultimately show ?thesis using 1[OF Some p[symmetric]] by simp
  qed
qed

section \<open>Integers in text\<close>

definition is_space :: "char \<Rightarrow> bool" where
  "is_space c \<longleftrightarrow> c = CHR '' '' \<or> (9 \<le> (of_char c :: nat) \<and> (of_char c :: nat) \<le> 13)"

definition strip :: "string \<Rightarrow> string" where
  "strip s = rev (dropWhile is_space (rev (dropWhile is_space s)))"

text \<open>
  \<^verbatim>\<open>str.strip\<close> also removes the separators \<^verbatim>\<open>FS\<close> to \<^verbatim>\<open>US\<close> and the two Latin-1 spaces, which the
  \<^verbatim>\<open>bytes\<close> operations and the number parsers do not.
\<close>

definition is_str_space :: "char \<Rightarrow> bool" where
  "is_str_space c \<longleftrightarrow>
     is_space c \<or> (28 \<le> (of_char c :: nat) \<and> (of_char c :: nat) \<le> 31) \<or> c = CHR 0x85 \<or> c = CHR 0xA0"

definition str_strip :: "string \<Rightarrow> string" where
  "str_strip s = rev (dropWhile is_str_space (rev (dropWhile is_str_space s)))"

text \<open>Digits with single underscores between them; the flag says that a digit was just read.\<close>

fun underscored :: "bool \<Rightarrow> string \<Rightarrow> string option" where
  "underscored d [] = (if d then Some [] else None)"
| "underscored d (c # cs) =
     (if is_digit_char c then map_option (Cons c) (underscored True cs)
      else if c = CHR ''_'' \<and> d then underscored False cs
      else None)"

text \<open>
  \<^verbatim>\<open>int(text)\<close> in base ten, \<open>None\<close> for \<^verbatim>\<open>ValueError\<close>: surrounding white space, one sign, digits, and
  the interpreter's limit of 4300 digits.
\<close>

definition py_int :: "string \<Rightarrow> int option" where
  "py_int s =
     (let t = strip s;
          body = (case t of c # cs \<Rightarrow> if c = CHR ''+'' \<or> c = CHR ''-'' then cs else t | [] \<Rightarrow> []);
          negative = (case t of c # cs \<Rightarrow> c = CHR ''-'' | [] \<Rightarrow> False)
      in case underscored False body of
           None \<Rightarrow> None
         | Some ds \<Rightarrow>
             if 4300 < length ds then None
             else Some (if negative then - int (read_digits ds) else int (read_digits ds)))"

lemma underscored_digits: "(\<And>c. c \<in> set ds \<Longrightarrow> is_digit_char c) \<Longrightarrow> ds \<noteq> [] \<or> d \<Longrightarrow> underscored d ds = Some ds"
  by (induction ds arbitrary: d) auto

lemma digit_not_special:
  "is_digit_char c \<Longrightarrow> \<not> is_space c \<and> c \<noteq> CHR ''+'' \<and> c \<noteq> CHR ''-'' \<and> c \<noteq> CHR ''|'' \<and> c \<noteq> CHR 0x0A \<and> c \<noteq> CHR '' ''"
  by (auto simp: is_digit_char_def is_space_def)

lemma show_int_chars: "c \<in> set (show_int n) \<Longrightarrow> is_digit_char c \<or> c = CHR ''-''"
  by (auto simp: show_int_def dest: show_nat_digits split: if_splits)

lemma show_int_no_sep: "CHR ''|'' \<notin> set (show_int n)" "CHR 0x0A \<notin> set (show_int n)"
  using show_int_chars digit_not_special by (fastforce, fastforce)

lemma dropWhile_none: "(\<And>c. c \<in> set s \<Longrightarrow> \<not> P c) \<Longrightarrow> dropWhile P s = s"
  by (cases s) auto

lemma strip_id: "(\<And>c. c \<in> set s \<Longrightarrow> \<not> is_space c) \<Longrightarrow> strip s = s"
  unfolding strip_def using dropWhile_none[of s is_space] dropWhile_none[of "rev s" is_space] by simp

lemma show_int_not_space: "c \<in> set (show_int n) \<Longrightarrow> \<not> is_space c"
  using show_int_chars[of c n] digit_not_special[of c] by (auto simp: is_space_def)

text \<open>What \<^verbatim>\<open>str\<close> writes, \<^verbatim>\<open>int\<close> reads back.\<close>

lemma py_int_show_int:
  assumes "length (show_nat (nat \<bar>n\<bar>)) \<le> 4300"
  shows "py_int (show_int n) = Some n"
proof -
  have strip: "strip (show_int n) = show_int n" using show_int_not_space by (rule strip_id)
  have us: "underscored False (show_nat k) = Some (show_nat k)" for k
    by (rule underscored_digits) (auto dest: show_nat_digits)
  show ?thesis
  proof (cases "n < 0")
    case True
    then show ?thesis using strip us assms by (simp add: py_int_def Let_def show_int_def)
  next
    case False
    obtain c cs where c: "show_nat (nat n) = c # cs" by (cases "show_nat (nat n)") auto
    then have "is_digit_char c" using show_nat_digits[of c "nat n"] by simp
    then show ?thesis
      using False strip us[of "nat n"] assms c digit_not_special[of c]
      by (simp add: py_int_def Let_def show_int_def read_digits_show_nat[of "nat n", unfolded c])
  qed
qed

text \<open>Every clock reading and every index of a run is far below the digit limit.\<close>

lemma length_show_nat: "n < 10 ^ k \<Longrightarrow> 0 < k \<Longrightarrow> length (show_nat n) \<le> k"
proof (induction n arbitrary: k rule: show_nat.induct)
  case (1 n)
  show ?case
  proof (cases "n < 10")
    case True
    then show ?thesis using "1.prems" by (simp add: show_nat.simps[of n])
  next
    case False
    then obtain j where k: "k = Suc j" "0 < j" using "1.prems" by (cases k; cases "k - 1") auto
    then have "n div 10 < 10 ^ j" using "1.prems" by (simp add: less_mult_imp_div_less mult.commute)
    with 1 False k show ?thesis by (simp add: show_nat.simps[of n])
  qed
qed

interpretation int_text: codec show_int "\<lambda>s. the (py_int s)" "\<lambda>n. length (show_nat (nat \<bar>n\<bar>)) \<le> 4300"
  by unfold_locales (simp add: py_int_show_int)

end
