(* ===== verification/Client_IO.thy ===== *)
theory Client_IO
  imports Load_State Phase_Config Py_Text Schedule
begin

text \<open>
  The connections of a worker process (\<^verbatim>\<open>bench/benchmark.py\<close>): queueing and flushing frames on a
  non-blocking socket, the bounded read of responses, the accounting of every line received, and
  the interest that the selector holds. The kernel is a script per socket: what the next
  \<^verbatim>\<open>send\<close> and \<^verbatim>\<open>recv\<close> calls answer; an exhausted script would block. The worker reads the
  clock through \<open>clock\<close>, whose argument counts the readings.
\<close>

section \<open>Sockets, clients and the selector\<close>

text \<open>
  \<open>Sent n\<close>: the kernel has room for \<open>n\<close> bytes. \<open>Data s\<close>: the bytes \<open>s\<close> have arrived, the empty
  string being the end of the stream. A call of \<^verbatim>\<open>recv\<close> for fewer bytes leaves the others.
\<close>

datatype send_res = Sent nat | SendBlock | SendErr

datatype recv_res = Data string | RecvBlock | RecvErr

record client =
  c_index :: int
  c_active :: bool
  c_buffer :: string
  c_pending :: "int list"
  c_send_buffer :: string
  c_closed :: bool
  c_last_read_service_ns :: int
  c_rx :: "recv_res list"
  c_tx :: "send_res list"
  c_wire :: string

text \<open>
  The registered sockets, named by their client's index, and whether each asks for
  \<^verbatim>\<open>EVENT_WRITE\<close> beside \<^verbatim>\<open>EVENT_READ\<close>.
\<close>

type_synonym selector = "int \<rightharpoonup> bool"

definition MAX_CLIENT_SEND_QUEUE :: nat where
  "MAX_CLIENT_SEND_QUEUE = 65536"

definition WHERE_RESPONSE :: string where
  "WHERE_RESPONSE = ''you are in room main-room''"

definition new_client :: "int \<Rightarrow> bool \<Rightarrow> recv_res list \<Rightarrow> send_res list \<Rightarrow> client" where
  "new_client index active rx tx =
     \<lparr> c_index = index, c_active = active, c_buffer = [], c_pending = [], c_send_buffer = [],
       c_closed = False, c_last_read_service_ns = 0, c_rx = rx, c_tx = tx, c_wire = [] \<rparr>"

text \<open>One \<^verbatim>\<open>send\<close> of the whole send buffer: the answer, and the client afterwards.\<close>

definition sock_send :: "client \<Rightarrow> send_res \<times> client" where
  "sock_send c =
     (case c_tx c of
        [] \<Rightarrow> (SendBlock, c)
      | Sent n # tx \<Rightarrow>
          (let k = min n (length (c_send_buffer c))
           in (Sent k, c\<lparr>c_tx := tx, c_wire := c_wire c @ take k (c_send_buffer c)\<rparr>))
      | r # tx \<Rightarrow> (r, c\<lparr>c_tx := tx\<rparr>))"

text \<open>One \<^verbatim>\<open>recv(limit)\<close>.\<close>

definition sock_recv :: "nat \<Rightarrow> client \<Rightarrow> recv_res \<times> client" where
  "sock_recv limit c =
     (case c_rx c of
        [] \<Rightarrow> (RecvBlock, c)
      | Data s # rx \<Rightarrow>
          (Data (take limit s),
           c\<lparr>c_rx := (if limit < length s then Data (drop limit s) # rx else rx)\<rparr>)
      | r # rx \<Rightarrow> (r, c\<lparr>c_rx := rx\<rparr>))"

section \<open>Sending\<close>

definition update_interest :: "selector \<Rightarrow> client \<Rightarrow> py_exn + selector" where
  "update_interest sel c =
     (if sel (c_index c) = None then Inl KeyError
      else Inr (sel(c_index c \<mapsto> c_send_buffer c \<noteq> [])))"

text \<open>The \<^verbatim>\<open>while\<close> loop of \<^verbatim>\<open>flush_client_send\<close>.\<close>

function flush_loop :: "client \<Rightarrow> load_state \<Rightarrow> client \<times> load_state" where
  "flush_loop c st =
     (if c_send_buffer c = [] then (c, st)
      else case sock_send c of
          (SendBlock, c') \<Rightarrow> (c', st\<lparr>client_send_eagain := client_send_eagain st + 1\<rparr>)
        | (SendErr, c') \<Rightarrow> (c'\<lparr>c_send_buffer := []\<rparr>, st\<lparr>send_errors := send_errors st + 1\<rparr>)
        | (Sent n, c') \<Rightarrow>
            if n = 0 then (c'\<lparr>c_send_buffer := []\<rparr>, st\<lparr>send_errors := send_errors st + 1\<rparr>)
            else flush_loop (c'\<lparr>c_send_buffer := drop n (c_send_buffer c)\<rparr>)
              (if n < length (c_send_buffer c)
               then st\<lparr>client_partial_sends := client_partial_sends st + 1\<rparr> else st))"
  by pat_completeness auto
termination
  by (relation "measure (\<lambda>(c, _). length (c_send_buffer c))") auto

declare flush_loop.simps [simp del]

definition flush_client_send :: "selector \<Rightarrow> client \<Rightarrow> load_state \<Rightarrow> py_exn + selector \<times> client \<times> load_state" where
  "flush_client_send sel c st =
     (let (c', st') = flush_loop c st
      in seq (update_interest sel c') (\<lambda>sel'. Inr (sel', c', st')))"

text \<open>The Boolean result says whether the frame was accepted.\<close>

definition queue_client_frame ::
  "selector \<Rightarrow> client \<Rightarrow> string \<Rightarrow> int \<Rightarrow> string \<Rightarrow> load_state \<Rightarrow> py_exn + bool \<times> selector \<times> client \<times> load_state" where
  "queue_client_frame sel c frame sent_ns workload st =
     (if MAX_CLIENT_SEND_QUEUE < length (c_send_buffer c) + length frame then Inr (False, sel, c, st)
      else
        let c1 = c\<lparr>c_send_buffer := c_send_buffer c @ frame\<rparr>;
            c2 = (if workload = ''direct'' then c1\<lparr>c_pending := c_pending c1 @ [sent_ns]\<rparr> else c1);
            st1 = st\<lparr>sent_operations := sent_operations st + 1\<rparr>
        in seq (flush_client_send sel c2 st1) (\<lambda>r. Inr (True, r)))"

definition close_client :: "selector \<Rightarrow> client \<Rightarrow> load_state \<Rightarrow> selector \<times> client \<times> load_state" where
  "close_client sel c st =
     (if c_closed c then (sel, c, st)
      else (sel(c_index c := None), c\<lparr>c_closed := True\<rparr>,
            st\<lparr>disconnects := insert (c_index c) (disconnects st)\<rparr>))"

section \<open>Lines received\<close>

definition count_completion :: "bool \<Rightarrow> pyfloat \<Rightarrow> load_state \<Rightarrow> load_state" where
  "count_completion by_deadline latency st =
     st\<lparr>eventual_completions := eventual_completions st + 1,
        completed_by_deadline := completed_by_deadline st + (if by_deadline then 1 else 0),
        latencies_ms := latencies_ms st @ [latency]\<rparr>"

definition count_delivery :: "bool \<Rightarrow> load_state \<Rightarrow> load_state" where
  "count_delivery by_deadline st =
     st\<lparr>deliveries := deliveries st + 1,
        deliveries_by_deadline := deliveries_by_deadline st + (if by_deadline then 1 else 0)\<rparr>"

text \<open>A response to \<^verbatim>\<open>WHERE\<close> completes the oldest pending request.\<close>

definition handle_direct :: "string \<Rightarrow> int \<Rightarrow> bool \<Rightarrow> client \<Rightarrow> load_state \<Rightarrow> py_exn + client \<times> load_state" where
  "handle_direct line received_ns by_deadline c st =
     (if find_sub WHERE_RESPONSE line = None then Inr (c, st)
      else case c_pending c of
          [] \<Rightarrow> Inr (c, st)
        | sent_ns # pending \<Rightarrow>
            seq (int_div (received_ns - sent_ns) 1000000) (\<lambda>latency.
              Inr (c\<lparr>c_pending := pending\<rparr>,
                   count_completion by_deadline latency (count_delivery by_deadline st))))"

text \<open>The sender and the send time of a benchmark frame with this token somewhere in the line.\<close>

definition parse_bench :: "string \<Rightarrow> string \<Rightarrow> (int \<times> int) option" where
  "parse_bench token line =
     (case find_sub ''BENCH|'' line of
        None \<Rightarrow> None
      | Some marker \<Rightarrow>
          (let fields = split_max (CHR ''|'') 5 (drop marker line)
           in if length fields \<noteq> 6 \<or> fields ! 1 \<noteq> token then None
              else case py_int (fields ! 2) of
                  None \<Rightarrow> None
                | Some sender \<Rightarrow>
                    (case py_int (fields ! 4) of
                       None \<Rightarrow> None
                     | Some sent_ns \<Rightarrow> Some (sender, sent_ns))))"

definition handle_broadcast ::
  "phase \<Rightarrow> string \<Rightarrow> int \<Rightarrow> bool \<Rightarrow> client \<Rightarrow> load_state \<Rightarrow> py_exn + client \<times> load_state" where
  "handle_broadcast ph line received_ns by_deadline c st =
     (case parse_bench (ph_token ph) line of
        None \<Rightarrow> Inr (c, st)
      | Some (sender, sent_ns) \<Rightarrow>
          (let st1 = count_delivery by_deadline st
           in if ph_total_connections ph = 0 then Inl ZeroDivisionError
              else if c_index c = (sender + 1) mod ph_total_connections ph
              then seq (int_div (received_ns - sent_ns) 1000000) (\<lambda>latency.
                     Inr (c, count_completion by_deadline latency st1))
              else Inr (c, st1)))"

definition handle_line :: "phase \<Rightarrow> string \<Rightarrow> int \<Rightarrow> client \<Rightarrow> load_state \<Rightarrow> py_exn + client \<times> load_state" where
  "handle_line ph line received_ns c st =
     (let by_deadline = received_ns \<le> ph_deadline_ns ph
      in if ph_workload ph = ''direct'' then handle_direct line received_ns by_deadline c st
         else handle_broadcast ph line received_ns by_deadline c st)"

text \<open>The loop over the complete lines of the receive buffer; \<open>tick\<close> counts the clock readings.\<close>

fun handle_lines ::
  "(nat \<Rightarrow> int) \<Rightarrow> phase \<Rightarrow> string list \<Rightarrow> nat \<times> client \<times> load_state \<Rightarrow> py_exn + nat \<times> client \<times> load_state" where
  "handle_lines clock ph [] s = Inr s"
| "handle_lines clock ph (line # lines) (tick, c, st) =
     seq (handle_line ph line (clock tick) c st) (\<lambda>(c', st').
       handle_lines clock ph lines (Suc tick, c', st'))"

function process_buffer ::
  "(nat \<Rightarrow> int) \<Rightarrow> phase \<Rightarrow> nat \<times> client \<times> load_state \<Rightarrow> py_exn + nat \<times> client \<times> load_state" where
  "process_buffer clock ph (tick, c, st) =
     (case split_first (CHR 0x0A) (c_buffer c) of
        None \<Rightarrow> Inr (tick, c, st)
      | Some (line, rest) \<Rightarrow>
          (case handle_line ph line (clock tick) (c\<lparr>c_buffer := rest\<rparr>) st of
             Inl e \<Rightarrow> Inl e
           | Inr (c', st') \<Rightarrow> process_buffer clock ph (Suc tick, c'\<lparr>c_buffer := rest\<rparr>, st')))"
  by pat_completeness auto
termination
  by (relation "measure (\<lambda>(_, _, _, c, _). length (c_buffer c))") (auto simp: split_first_Some)

declare process_buffer.simps [simp del]

section \<open>Reading\<close>

text \<open>
  The loop of \<^verbatim>\<open>process_client_read\<close>. A state is the number of clock readings, the selector, the
  client and the counters.
\<close>

type_synonym io_state = "nat \<times> selector \<times> client \<times> load_state"

function recv_loop :: "(nat \<Rightarrow> int) \<Rightarrow> phase \<Rightarrow> nat \<Rightarrow> nat \<Rightarrow> io_state \<Rightarrow> py_exn + io_state" where
  "recv_loop clock ph calls bytes_read (tick, sel, c, st) =
     (if int calls < ph_max_recv_calls ph \<and> int bytes_read < ph_max_recv_bytes ph
      then case sock_recv (nat (min 16384 (ph_max_recv_bytes ph - int bytes_read))) c of
          (RecvBlock, c1) \<Rightarrow> Inr (tick, sel, c1, st)
        | (RecvErr, c1) \<Rightarrow> Inr (tick, close_client sel c1 st)
        | (Data data, c1) \<Rightarrow>
            if data = [] then Inr (tick, close_client sel c1 st)
            else
              seq (process_buffer clock ph (tick, c1\<lparr>c_buffer := c_buffer c1 @ data\<rparr>, st))
                (\<lambda>(tick', c2, st').
                  recv_loop clock ph (Suc calls) (bytes_read + length data) (tick', sel, c2, st'))
      else Inr (tick, sel, c, st))"
  by pat_completeness auto
termination
  by (relation "measure (\<lambda>(clock, ph, calls, _). nat (ph_max_recv_calls ph - int calls))") auto

declare recv_loop.simps [simp del]

definition note_read_gap :: "int \<Rightarrow> int option \<Rightarrow> load_state \<Rightarrow> py_exn + load_state" where
  "note_read_gap now_ns ready_ns st =
     (case ready_ns of
        None \<Rightarrow> Inr st
      | Some r \<Rightarrow>
          seq (int_div (now_ns - r) 1000000) (\<lambda>gap.
            Inr (st\<lparr>max_read_service_gap_ms := py_max (max_read_service_gap_ms st) gap\<rparr>)))"

definition process_client_read ::
  "(nat \<Rightarrow> int) \<Rightarrow> phase \<Rightarrow> int \<Rightarrow> int option \<Rightarrow> io_state \<Rightarrow> py_exn + io_state" where
  "process_client_read clock ph now_ns ready_ns s =
     (case s of (tick, sel, c, st) \<Rightarrow>
        seq (note_read_gap now_ns ready_ns st) (\<lambda>st'. recv_loop clock ph 0 0 (tick, sel, c, st')))"

section \<open>Servicing the ready sockets\<close>

text \<open>
  What a worker observes of its surroundings: the two clocks, the processor time and the answers
  of \<^verbatim>\<open>selector.select\<close>, each indexed by the number of observations made before. A readiness names
  a client and whether its socket is readable and writable; \<open>select_events\<close> reports it only for the
  registered sockets and the events they ask for.
\<close>

record env =
  monotonic_ns :: "nat \<Rightarrow> int"
  monotonic :: "nat \<Rightarrow> pyfloat"
  process_time :: "nat \<Rightarrow> pyfloat"
  readiness :: "nat \<Rightarrow> pyfloat \<Rightarrow> (int \<times> bool \<times> bool) list"

type_synonym event = "int \<times> bool \<times> bool"

definition select_events :: "selector \<Rightarrow> event list \<Rightarrow> event list" where
  "select_events sel raw =
     List.map_filter (\<lambda>(i, r, w). case sel i of
         None \<Rightarrow> None
       | Some wants_write \<Rightarrow> if r \<or> (w \<and> wants_write) then Some (i, r, w \<and> wants_write) else None) raw"

text \<open>The mutable state of a worker process; the client objects are found by their index.\<close>

record worker =
  w_tick :: nat
  w_selector :: selector
  w_clients :: "int \<Rightarrow> client"
  w_state :: load_state

definition read_event :: "env \<Rightarrow> phase \<Rightarrow> int \<Rightarrow> int \<Rightarrow> int \<Rightarrow> worker \<Rightarrow> py_exn + worker" where
  "read_event env ph i now_ns ready_ns w =
     seq (process_client_read (monotonic_ns env) ph now_ns (Some ready_ns)
            (w_tick w, w_selector w, w_clients w i, w_state w)) (\<lambda>(tick, sel, c, st).
       Inr \<lparr> w_tick = tick, w_selector = sel, w_clients = (w_clients w)(i := c), w_state = st \<rparr>)"

definition write_event :: "int \<Rightarrow> worker \<Rightarrow> py_exn + worker" where
  "write_event i w =
     (if c_closed (w_clients w i) then Inr w
      else seq (flush_client_send (w_selector w) (w_clients w i) (w_state w)) (\<lambda>(sel, c, st).
        Inr (w\<lparr>w_selector := sel, w_clients := (w_clients w)(i := c), w_state := st\<rparr>)))"

definition service_event :: "env \<Rightarrow> phase \<Rightarrow> int \<Rightarrow> event \<Rightarrow> worker \<Rightarrow> py_exn + worker" where
  "service_event env ph ready_ns e w =
     (case e of (i, readable, writable) \<Rightarrow>
        if c_closed (w_clients w i) then Inr w
        else
          let now_ns = monotonic_ns env (w_tick w); w1 = w\<lparr>w_tick := Suc (w_tick w)\<rparr>
          in seq (if readable then read_event env ph i now_ns ready_ns w1 else Inr w1) (\<lambda>w2.
             if writable then write_event i w2 else Inr w2))"

definition service_events :: "env \<Rightarrow> phase \<Rightarrow> pyfloat \<Rightarrow> int \<times> worker \<Rightarrow> py_exn + int \<times> worker" where
  "service_events env ph timeout cw =
     (case cw of (cursor, w) \<Rightarrow>
        let (events, cursor') =
              rotate_ready (select_events (w_selector w) (readiness env (w_tick w) timeout)) cursor;
            ready_ns = monotonic_ns env (Suc (w_tick w))
        in seq (for_each events (service_event env ph ready_ns) (w\<lparr>w_tick := w_tick w + 2\<rparr>)) (\<lambda>w'.
             Inr (cursor', w')))"

section \<open>Laws of sending\<close>

lemma flush_loop_empty: "c_send_buffer c = [] \<Longrightarrow> flush_loop c st = (c, st)"
  by (subst flush_loop.simps) simp

lemma flush_loop_block:
  "c_send_buffer c \<noteq> [] \<Longrightarrow> c_tx c = [] \<Longrightarrow>
     flush_loop c st = (c, st\<lparr>client_send_eagain := client_send_eagain st + 1\<rparr>)"
  "c_send_buffer c \<noteq> [] \<Longrightarrow> c_tx c = SendBlock # tx \<Longrightarrow>
     flush_loop c st = (c\<lparr>c_tx := tx\<rparr>, st\<lparr>client_send_eagain := client_send_eagain st + 1\<rparr>)"
  by (subst flush_loop.simps, simp add: sock_send_def)+

lemma flush_loop_error:
  "c_send_buffer c \<noteq> [] \<Longrightarrow> c_tx c = SendErr # tx \<Longrightarrow>
     flush_loop c st = (c\<lparr>c_tx := tx, c_send_buffer := []\<rparr>, st\<lparr>send_errors := send_errors st + 1\<rparr>)"
  "c_send_buffer c \<noteq> [] \<Longrightarrow> c_tx c = Sent 0 # tx \<Longrightarrow>
     flush_loop c st = (c\<lparr>c_tx := tx, c_send_buffer := []\<rparr>, st\<lparr>send_errors := send_errors st + 1\<rparr>)"
  by (subst flush_loop.simps, simp add: sock_send_def)+

lemma flush_loop_sent:
  assumes "c_send_buffer c \<noteq> []" "c_tx c = Sent n # tx" "0 < n"
  shows "flush_loop c st =
    flush_loop (c\<lparr>c_tx := tx, c_wire := c_wire c @ take n (c_send_buffer c), c_send_buffer := drop n (c_send_buffer c)\<rparr>)
      (if n < length (c_send_buffer c) then st\<lparr>client_partial_sends := client_partial_sends st + 1\<rparr> else st)"
proof -
  have k: "take (min n (length (c_send_buffer c))) (c_send_buffer c) = take n (c_send_buffer c)"
    "drop (min n (length (c_send_buffer c))) (c_send_buffer c) = drop n (c_send_buffer c)"
    by (simp_all add: min_def)
  show ?thesis using assms by (subst flush_loop.simps) (simp add: sock_send_def Let_def k)
qed

text \<open>
  Induction over the calls of \<^verbatim>\<open>send\<close>: there is nothing to send, the socket is full, it fails, or
  the loop goes on after a send.
\<close>

lemma flush_loop_induct [case_names empty full failed sent]:
  assumes empty: "\<And>c st. c_send_buffer c = [] \<Longrightarrow> flush_loop c st = (c, st) \<Longrightarrow> P c st"
    and full: "\<And>c st tx. c_send_buffer c \<noteq> [] \<Longrightarrow>
      flush_loop c st = (c\<lparr>c_tx := tx\<rparr>, st\<lparr>client_send_eagain := client_send_eagain st + 1\<rparr>) \<Longrightarrow> P c st"
    and failed: "\<And>c st tx. c_send_buffer c \<noteq> [] \<Longrightarrow>
      flush_loop c st = (c\<lparr>c_tx := tx, c_send_buffer := []\<rparr>, st\<lparr>send_errors := send_errors st + 1\<rparr>) \<Longrightarrow> P c st"
    and sent: "\<And>c c1 st st1 n tx. c_send_buffer c \<noteq> [] \<Longrightarrow>
      c1 = c\<lparr>c_tx := tx, c_wire := c_wire c @ take n (c_send_buffer c), c_send_buffer := drop n (c_send_buffer c)\<rparr> \<Longrightarrow>
      st1 = (if n < length (c_send_buffer c) then st\<lparr>client_partial_sends := client_partial_sends st + 1\<rparr> else st) \<Longrightarrow>
      flush_loop c st = flush_loop c1 st1 \<Longrightarrow> P c1 st1 \<Longrightarrow> P c st"
  shows "P c st"
proof (induction "c_tx c" arbitrary: c st)
  case (Nil c st)
  have id: "c = c\<lparr>c_tx := c_tx c\<rparr>" by simp
  show ?case
    using empty[OF _ flush_loop_empty, of c st] full[of c st "c_tx c"] flush_loop_block(1)[of c st] Nil id by metis
next
  case (Cons r tx c st)
  note tx = Cons.hyps(2)[symmetric]
  show ?case
  proof (cases "c_send_buffer c = []")
    case True
    then show ?thesis by (intro empty flush_loop_empty)
  next
    case sb: False
    show ?thesis
    proof (cases r)
      case (Sent n)
      show ?thesis
      proof (cases "n = 0")
        case True
        then show ?thesis using flush_loop_error(2)[of c tx st] sb tx Sent by (intro failed) auto
      next
        case False
        then have "flush_loop c st =
            flush_loop (c\<lparr>c_tx := tx, c_wire := c_wire c @ take n (c_send_buffer c), c_send_buffer := drop n (c_send_buffer c)\<rparr>)
              (if n < length (c_send_buffer c) then st\<lparr>client_partial_sends := client_partial_sends st + 1\<rparr> else st)"
          using sb tx Sent by (intro flush_loop_sent) auto
        from sent[OF sb refl refl this] show ?thesis by (simp add: Cons.hyps(1))
      qed
    next
      case SendBlock
      then show ?thesis using flush_loop_block(2)[of c tx st] sb tx by (intro full) auto
    next
      case SendErr
      then show ?thesis using flush_loop_error(1)[of c tx st] sb tx by (intro failed) auto
    qed
  qed
qed

text \<open>
  No byte is lost or reordered by partial sends: what was sent, then what is still queued, then
  what an error discarded, is what was there before.
\<close>

lemma flush_loop_bytes:
  "\<exists>lost. c_wire (fst (flush_loop c st)) @ c_send_buffer (fst (flush_loop c st)) @ lost = c_wire c @ c_send_buffer c \<and>
    send_errors (snd (flush_loop c st)) = send_errors st + (if lost = [] then 0 else 1) \<and>
    length (c_send_buffer (fst (flush_loop c st))) \<le> length (c_send_buffer c)"
proof (induction c st rule: flush_loop_induct)
  case (sent c c1 st st1 n tx)
  from sent.IH obtain lost where
    "c_wire (fst (flush_loop c st)) @ c_send_buffer (fst (flush_loop c st)) @ lost = c_wire c1 @ c_send_buffer c1"
    "send_errors (snd (flush_loop c st)) = send_errors st1 + (if lost = [] then 0 else 1)"
    "length (c_send_buffer (fst (flush_loop c st))) \<le> length (c_send_buffer c1)"
    unfolding sent.hyps(4) by blast
  then show ?case by (intro exI[of _ lost]) (auto simp: sent.hyps(2,3))
qed simp_all

text \<open>What a flush leaves alone.\<close>

lemma flush_loop_client:
  "c_index (fst (flush_loop c st)) = c_index c" "c_closed (fst (flush_loop c st)) = c_closed c"
  "c_pending (fst (flush_loop c st)) = c_pending c" "c_buffer (fst (flush_loop c st)) = c_buffer c"
  "c_rx (fst (flush_loop c st)) = c_rx c" "c_active (fst (flush_loop c st)) = c_active c"
  by (induction c st rule: flush_loop_induct; simp)+

lemma flush_loop_counters:
  "\<exists>p a e. snd (flush_loop c st) = st\<lparr>client_partial_sends := p, client_send_eagain := a, send_errors := e\<rparr>"
proof (induction c st rule: flush_loop_induct)
  case (empty c st)
  have "st = st\<lparr>client_partial_sends := client_partial_sends st, client_send_eagain := client_send_eagain st,
      send_errors := send_errors st\<rparr>" by simp
  with empty show ?case by (metis snd_conv)
next
  case (full c st tx)
  have "snd (flush_loop c st) = st\<lparr>client_partial_sends := client_partial_sends st,
      client_send_eagain := client_send_eagain st + 1, send_errors := send_errors st\<rparr>" by (simp add: full)
  then show ?case by blast
next
  case (failed c st tx)
  have "snd (flush_loop c st) = st\<lparr>client_partial_sends := client_partial_sends st,
      client_send_eagain := client_send_eagain st, send_errors := send_errors st + 1\<rparr>" by (simp add: failed)
  then show ?case by blast
next
  case (sent c c1 st st1 n tx)
  from sent.IH obtain p a e where
    "snd (flush_loop c st) = st1\<lparr>client_partial_sends := p, client_send_eagain := a, send_errors := e\<rparr>"
    unfolding sent.hyps(4) by blast
  then have "snd (flush_loop c st) = st\<lparr>client_partial_sends := p, client_send_eagain := a, send_errors := e\<rparr>"
    by (simp add: sent.hyps(3) split: if_splits)
  then show ?case by blast
qed

lemma flush_client_send_open:
  assumes "sel (c_index c) \<noteq> None"
  shows "flush_client_send sel c st =
    Inr (sel(c_index c \<mapsto> c_send_buffer (fst (flush_loop c st)) \<noteq> []), flush_loop c st)"
  using assms by (simp add: flush_client_send_def update_interest_def flush_loop_client split_beta)

lemma flush_client_send_raise:
  "flush_client_send sel c st = Inl e \<longleftrightarrow> sel (c_index c) = None \<and> e = KeyError"
  by (auto simp: flush_client_send_def update_interest_def flush_loop_client split_beta)

section \<open>Laws of receiving\<close>

text \<open>The parts of the counters that a received line leaves alone, and what it keeps of the others.\<close>

definition send_part :: "load_state \<Rightarrow> int \<times> int \<times> int \<times> int \<times> int set \<times> int \<times> int" where
  "send_part st = (offered_operations st, sent_operations st, missed_offers st, send_errors st,
     disconnects st, client_partial_sends st, client_send_eagain st)"

definition tally_ok :: "load_state \<Rightarrow> bool" where
  "tally_ok st \<longleftrightarrow>
     0 \<le> completed_by_deadline st \<and> completed_by_deadline st \<le> eventual_completions st \<and>
     completed_by_deadline st \<le> deliveries_by_deadline st \<and>
     eventual_completions st \<le> deliveries st \<and> deliveries_by_deadline st \<le> deliveries st \<and>
     int (length (latencies_ms st)) = eventual_completions st"

lemmas count_defs = count_completion_def count_delivery_def

lemma handle_line_client:
  assumes "handle_line ph line t c st = Inr (c', st')"
  shows "c' = c\<lparr>c_pending := c_pending c'\<rparr>"
  using assms
  by (auto simp: handle_line_def Let_def handle_direct_def handle_broadcast_def exn_simps
      split: if_splits option.splits list.splits)

lemma handle_line_tally:
  assumes "handle_line ph line t c st = Inr (c', st')"
  shows "send_part st' = send_part st" "tally_ok st \<Longrightarrow> tally_ok st'"
    "deliveries st \<le> deliveries st'"
  using assms
  by (auto simp: handle_line_def Let_def handle_direct_def handle_broadcast_def exn_simps count_defs
      send_part_def tally_ok_def split: if_splits option.splits list.splits)

text \<open>On the direct workload every completion answers one pending request.\<close>

lemma handle_line_pending:
  assumes "handle_line ph line t c st = Inr (c', st')"
  shows "ph_workload ph = ''direct'' \<Longrightarrow>
      int (length (c_pending c')) + eventual_completions st' = int (length (c_pending c)) + eventual_completions st"
    "ph_workload ph \<noteq> ''direct'' \<Longrightarrow> c_pending c' = c_pending c"
  using assms
  by (auto simp: handle_line_def Let_def handle_direct_def handle_broadcast_def exn_simps count_defs
      split: if_splits option.splits list.splits)

text \<open>A line is handled without regard to the rest of the buffer and of the stream.\<close>

definition with_input :: "string \<Rightarrow> recv_res list \<Rightarrow> client \<Rightarrow> client" where
  "with_input buf rx c = c\<lparr>c_buffer := buf, c_rx := rx\<rparr>"

lemma with_input_simps [simp]:
  "c_index (with_input b x c) = c_index c" "c_pending (with_input b x c) = c_pending c"
  "c_buffer (with_input b x c) = b" "c_rx (with_input b x c) = x"
  "c_closed (with_input b x c) = c_closed c" "c_send_buffer (with_input b x c) = c_send_buffer c"
  "c_wire (with_input b x c) = c_wire c" "c_tx (with_input b x c) = c_tx c"
  "with_input b x (with_input b' x' c) = with_input b x c"
  "(with_input b x c)\<lparr>c_pending := p\<rparr> = with_input b x (c\<lparr>c_pending := p\<rparr>)"
  by (simp_all add: with_input_def)

lemma with_input_fold:
  "c\<lparr>c_buffer := b\<rparr> = with_input b (c_rx c) c" "c\<lparr>c_rx := x\<rparr> = with_input (c_buffer c) x c"
  by (simp_all add: with_input_def)

lemma with_input_self: "with_input (c_buffer c) (c_rx c) c = c"
  by (simp add: with_input_def)

lemma handle_line_with_input:
  "handle_line ph line t (with_input b x c) st = map_sum id (apfst (with_input b x)) (handle_line ph line t c st)"
proof -
  have "handle_direct line t d (with_input b x c) st = map_sum id (apfst (with_input b x)) (handle_direct line t d c st)" for d
    by (cases "c_pending c"; cases "int_div (t - hd (c_pending c)) 1000000") (simp_all add: handle_direct_def)
  moreover have "handle_broadcast ph line t d (with_input b x c) st =
      map_sum id (apfst (with_input b x)) (handle_broadcast ph line t d c st)" for d
    by (cases "parse_bench (ph_token ph) line"; cases "int_div (t - snd (the (parse_bench (ph_token ph) line))) 1000000")
      (simp_all add: handle_broadcast_def split_beta Let_def)
  ultimately show ?thesis by (simp add: handle_line_def Let_def)
qed

text \<open>The buffer loop handles the complete lines one by one and keeps the rest.\<close>

lemma handle_lines_with_input:
  "handle_lines clock ph ls (t, with_input b x c, st) =
     map_sum id (apsnd (apfst (with_input b x))) (handle_lines clock ph ls (t, c, st))"
proof (induction ls arbitrary: t c st)
  case (Cons l ls)
  then show ?case by (cases "handle_line ph l (clock t) c st") (auto simp: handle_line_with_input)
qed simp

lemma process_buffer_lines:
  "process_buffer clock ph (t, c, st) =
     map_sum id (apsnd (apfst (with_input (snd (lines_of (c_buffer c))) (c_rx c))))
       (handle_lines clock ph (fst (lines_of (c_buffer c))) (t, c, st))"
proof (induction "length (c_buffer c)" arbitrary: t c st rule: less_induct)
  case (less c t st)
  show ?case
  proof (cases "split_first (CHR 0x0A) (c_buffer c)")
    case None
    then have n: "CHR 0x0A \<notin> set (c_buffer c)" by simp
    have "process_buffer clock ph (t, c, st) = Inr (t, c, st)"
      by (subst process_buffer.simps) (simp only: None option.case)
    then show ?thesis by (simp add: lines_of_none[OF n] with_input_self)
  next
    case (Some p)
    obtain l r where p: "p = (l, r)" by (cases p)
    with Some have b: "c_buffer c = l @ CHR 0x0A # r" "CHR 0x0A \<notin> set l" by (simp_all add: split_first_Some)
    have lo: "lines_of (c_buffer c) = apfst (Cons l) (lines_of r)" using b by (simp add: lines_of_line)
    let ?h = "handle_line ph l (clock t) c st"
    have hd: "handle_line ph l (clock t) (c\<lparr>c_buffer := r\<rparr>) st = map_sum id (apfst (with_input r (c_rx c))) ?h"
      by (simp add: handle_line_with_input with_input_fold)
    show ?thesis
    proof (cases ?h)
      case (Inl e)
      then show ?thesis
        by (subst process_buffer.simps) (simp only: Some p option.case prod.case hd, simp add: lo)
    next
      case (Inr q)
      obtain c1 st1 where q: "q = (c1, st1)" by (cases q)
      have c1: "c_rx c1 = c_rx c"
        using handle_line_client[of ph l "clock t" c st c1 st1] Inr q by (metis client.select_convs(8) client.surjective client.update_convs(4))
      have hd': "handle_line ph l (clock t) (c\<lparr>c_buffer := r\<rparr>) st = Inr (with_input r (c_rx c) c1, st1)"
        using hd Inr q by simp
      have "process_buffer clock ph (t, c, st) = process_buffer clock ph (Suc t, with_input r (c_rx c) c1, st1)"
        by (subst process_buffer.simps) (simp only: Some p option.case prod.case sum.case hd', simp add: with_input_fold)
      also have "\<dots> = map_sum id (apsnd (apfst (with_input (snd (lines_of r)) (c_rx c))))
          (handle_lines clock ph (fst (lines_of r)) (Suc t, with_input r (c_rx c) c1, st1))"
        using less[of "with_input r (c_rx c) c1" "Suc t" st1] b by simp
      also have "\<dots> = map_sum id (apsnd (apfst (with_input (snd (lines_of r)) (c_rx c))))
          (handle_lines clock ph (fst (lines_of r)) (Suc t, c1, st1))"
        by (cases "handle_lines clock ph (fst (lines_of r)) (Suc t, c1, st1)") (auto simp: handle_lines_with_input)
      finally show ?thesis using Inr q by (simp add: lo)
    qed
  qed
qed

lemma handle_lines_append:
  "handle_lines clock ph (ls @ ms) s = seq (handle_lines clock ph ls s) (handle_lines clock ph ms)"
proof (induction ls arbitrary: s)
  case (Cons l ls)
  obtain t c st where s: "s = (t, c, st)" by (cases s)
  show ?case by (cases "handle_line ph l (clock t) c st") (auto simp: s Cons.IH)
qed simp

lemma handle_lines_client:
  assumes "handle_lines clock ph ls (t, c, st) = Inr (t', c', st')"
  shows "c' = c\<lparr>c_pending := c_pending c'\<rparr>" "send_part st' = send_part st"
    "tally_ok st \<Longrightarrow> tally_ok st'" "deliveries st \<le> deliveries st'"
    "ph_workload ph = ''direct'' \<Longrightarrow>
      int (length (c_pending c')) + eventual_completions st' = int (length (c_pending c)) + eventual_completions st"
    "ph_workload ph \<noteq> ''direct'' \<Longrightarrow> c_pending c' = c_pending c"
proof -
  have "c' = c\<lparr>c_pending := c_pending c'\<rparr> \<and> send_part st' = send_part st \<and> (tally_ok st \<longrightarrow> tally_ok st') \<and>
    deliveries st \<le> deliveries st' \<and> (ph_workload ph = ''direct'' \<longrightarrow>
      int (length (c_pending c')) + eventual_completions st' = int (length (c_pending c)) + eventual_completions st) \<and>
    (ph_workload ph \<noteq> ''direct'' \<longrightarrow> c_pending c' = c_pending c)"
    using assms
  proof (induction ls arbitrary: t c st)
    case (Cons l ls)
    then obtain c1 st1 where h: "handle_line ph l (clock t) c st = Inr (c1, st1)"
      and r: "handle_lines clock ph ls (Suc t, c1, st1) = Inr (t', c', st')"
      by (auto simp: exn_simps)
    note IH = Cons.IH[OF r]
    have c1: "c1 = c\<lparr>c_pending := c_pending c1\<rparr>" by (rule handle_line_client[OF h])
    have "c' = c1\<lparr>c_pending := c_pending c'\<rparr>" using IH by blast
    also have "\<dots> = c\<lparr>c_pending := c_pending c'\<rparr>" by (subst c1) simp
    finally have "c' = c\<lparr>c_pending := c_pending c'\<rparr>" .
    with IH handle_line_tally[OF h] handle_line_pending[OF h] show ?case by auto
  qed simp
  then show "c' = c\<lparr>c_pending := c_pending c'\<rparr>" "send_part st' = send_part st"
    "tally_ok st \<Longrightarrow> tally_ok st'" "deliveries st \<le> deliveries st'"
    "ph_workload ph = ''direct'' \<Longrightarrow>
      int (length (c_pending c')) + eventual_completions st' = int (length (c_pending c)) + eventual_completions st"
    "ph_workload ph \<noteq> ''direct'' \<Longrightarrow> c_pending c' = c_pending c"
    by blast+
qed

lemma handle_lines_tick:
  "handle_lines clock ph ls (t, c, st) = Inr (t', c', st') \<Longrightarrow> t' = t + length ls"
  by (induction ls arbitrary: t c st) (fastforce simp: exn_simps)+

text \<open>The bytes that a receive script still holds.\<close>

fun rx_stream :: "recv_res list \<Rightarrow> string" where
  "rx_stream [] = []"
| "rx_stream (Data s # rx) = s @ rx_stream rx"
| "rx_stream (r # rx) = rx_stream rx"

lemma sock_recv_stream:
  assumes "sock_recv limit c = (r, c')"
  shows "c' = c\<lparr>c_rx := c_rx c'\<rparr>"
    "rx_stream (c_rx c) = (case r of Data s \<Rightarrow> s | _ \<Rightarrow> []) @ rx_stream (c_rx c')"
    "r = Data s \<Longrightarrow> length s \<le> limit"
  using assms by (auto simp: sock_recv_def split: list.splits recv_res.splits)

text \<open>
  What one round of reading amounts to: a bounded piece of the stream, handled as if it had come
  in one chunk, and the connection closed if its end was met.
\<close>

definition read_effect :: "(nat \<Rightarrow> int) \<Rightarrow> phase \<Rightarrow> string \<Rightarrow> io_state \<Rightarrow> io_state \<Rightarrow> bool" where
  "read_effect clock ph data s s' =
     (case (s, s') of ((t, sel, c, st), (t', sel', c', st')) \<Rightarrow>
        (case process_buffer clock ph (t, c\<lparr>c_buffer := c_buffer c @ data\<rparr>, st) of
           Inl e \<Rightarrow> False
         | Inr (t2, c2, st2) \<Rightarrow>
             t' = t2 \<and> rx_stream (c_rx c) = data @ rx_stream (c_rx c') \<and>
             ((sel', c', st') = (sel, c2\<lparr>c_rx := c_rx c'\<rparr>, st2) \<or>
              (sel', c', st') = close_client sel (c2\<lparr>c_rx := c_rx c'\<rparr>) st2)))"

lemma read_effectI:
  assumes "process_buffer clock ph (t, c\<lparr>c_buffer := c_buffer c @ data\<rparr>, st) = Inr (t', c2, st2)"
    "rx_stream (c_rx c) = data @ rx_stream (c_rx c')"
    "(sel', c', st') = (sel, c2\<lparr>c_rx := c_rx c'\<rparr>, st2) \<or>
     (sel', c', st') = close_client sel (c2\<lparr>c_rx := c_rx c'\<rparr>) st2"
  shows "read_effect clock ph data (t, sel, c, st) (t', sel', c', st')"
  using assms by (auto simp: read_effect_def)

lemma read_effect_lines:
  "read_effect clock ph data (t, sel, c, st) (t', sel', c', st') \<longleftrightarrow>
     (\<exists>c2 st2. handle_lines clock ph (fst (lines_of (c_buffer c @ data))) (t, c, st) = Inr (t', c2, st2) \<and>
        rx_stream (c_rx c) = data @ rx_stream (c_rx c') \<and>
        ((sel', c', st') = (sel, with_input (snd (lines_of (c_buffer c @ data))) (c_rx c') c2, st2) \<or>
         (sel', c', st') = close_client sel (with_input (snd (lines_of (c_buffer c @ data))) (c_rx c') c2) st2))"
proof -
  let ?L = "lines_of (c_buffer c @ data)"
  have "process_buffer clock ph (t, c\<lparr>c_buffer := c_buffer c @ data\<rparr>, st) =
      map_sum id (apsnd (apfst (with_input (snd ?L) (c_rx c)))) (handle_lines clock ph (fst ?L) (t, c, st))"
    by (cases "handle_lines clock ph (fst ?L) (t, c, st)")
      (auto simp: process_buffer_lines with_input_fold handle_lines_with_input)
  then show ?thesis
    by (cases "handle_lines clock ph (fst ?L) (t, c, st)")
      (auto simp: read_effect_def with_input_fold)
qed

lemma read_effect_stop:
  assumes "CHR 0x0A \<notin> set (c_buffer c)" "c1 = c\<lparr>c_rx := c_rx c1\<rparr>" "rx_stream (c_rx c) = rx_stream (c_rx c1)"
  shows "read_effect clock ph [] (t, sel, c, st) (t, sel, c1, st)"
    "read_effect clock ph [] (t, sel, c, st) (t, close_client sel c1 st)"
proof -
  have c1: "with_input (c_buffer c) (c_rx c1) c = c1" using assms(2) by (metis with_input_fold(2))
  show "read_effect clock ph [] (t, sel, c, st) (t, sel, c1, st)"
    using assms(1,3) c1 by (simp add: read_effect_lines lines_of_none)
  obtain sel' c' st' where cl: "close_client sel c1 st = (sel', c', st')" by (cases "close_client sel c1 st")
  then have "c_rx c' = c_rx c1" by (auto simp: close_client_def split: if_splits)
  then show "read_effect clock ph [] (t, sel, c, st) (t, close_client sel c1 st)"
    using assms(1,3) c1 cl by (simp add: read_effect_lines lines_of_none)
qed

lemma process_buffer_rest:
  "process_buffer clock ph (t, c, st) = Inr (t', c', st') \<Longrightarrow> CHR 0x0A \<notin> set (c_buffer c')"
  using lines_of_rest[of "c_buffer c"]
  by (cases "handle_lines clock ph (fst (lines_of (c_buffer c))) (t, c, st)") (auto simp: process_buffer_lines)

text \<open>Two rounds in a row are one round with the pieces joined.\<close>

lemma read_effect_join:
  assumes "process_buffer clock ph (t, c1\<lparr>c_buffer := c_buffer c1 @ d\<rparr>, st) = Inr (t1, c2, st1)"
    "c1 = c\<lparr>c_rx := c_rx c1\<rparr>" "rx_stream (c_rx c) = d @ rx_stream (c_rx c1)"
    "read_effect clock ph data (t1, sel, c2, st1) s'"
  shows "read_effect clock ph (d @ data) (t, sel, c, st) s'"
proof -
  obtain t' sel' c' st' where s': "s' = (t', sel', c', st')" by (cases s')
  let ?L = "lines_of (c_buffer c @ d)"
  have c1: "c1 = with_input (c_buffer c) (c_rx c1) c" using assms(2) by (metis with_input_fold(2))
  have "process_buffer clock ph (t, c1\<lparr>c_buffer := c_buffer c1 @ d\<rparr>, st) =
      map_sum id (apsnd (apfst (with_input (snd ?L) (c_rx c1)))) (handle_lines clock ph (fst ?L) (t, c, st))"
    by (subst c1, subst (2) c1, cases "handle_lines clock ph (fst ?L) (t, c, st)")
      (auto simp: process_buffer_lines with_input_fold handle_lines_with_input)
  then obtain c3 where h: "handle_lines clock ph (fst ?L) (t, c, st) = Inr (t1, c3, st1)"
    and c2: "c2 = with_input (snd ?L) (c_rx c1) c3"
    using assms(1) by (cases "handle_lines clock ph (fst ?L) (t, c, st)") auto
  from assms(4) show "read_effect clock ph (d @ data) (t, sel, c, st) s'"
    unfolding s' read_effect_lines lines_of_append[of "c_buffer c @ d" data, simplified] c2 with_input_simps
    using h assms(3) c2 by (cases "handle_lines clock ph (fst (lines_of (snd ?L @ data))) (t1, c3, st1)")
      (auto simp: handle_lines_append handle_lines_with_input)
qed

lemma recv_loop_effect:
  assumes "recv_loop clock ph calls bytes_read (t, sel, c, st) = Inr s'" "CHR 0x0A \<notin> set (c_buffer c)"
  shows "\<exists>data. read_effect clock ph data (t, sel, c, st) s' \<and>
    int (length data) \<le> max 0 (ph_max_recv_bytes ph - int bytes_read) \<and>
    int (length data) \<le> 16384 * max 0 (ph_max_recv_calls ph - int calls)"
  using assms
proof (induction "nat (ph_max_recv_calls ph - int calls)" arbitrary: calls bytes_read t c st)
  case (0 calls bytes_read t c st)
  then have "s' = (t, sel, c, st)" by (simp add: recv_loop.simps)
  then show ?case using 0 read_effect_stop(1)[of c c] by (intro exI[of _ "[]"]) simp
next
  case (Suc n calls bytes_read t c st)
  let ?limit = "nat (min 16384 (ph_max_recv_bytes ph - int bytes_read))"
  show ?case
  proof (cases "int calls < ph_max_recv_calls ph \<and> int bytes_read < ph_max_recv_bytes ph")
    case False
    then have "s' = (t, sel, c, st)" using Suc.prems(1)[unfolded recv_loop.simps[of _ _ calls] if_not_P[OF False]] by simp
    then show ?thesis using Suc read_effect_stop(1)[of c c] by (intro exI[of _ "[]"]) simp
  next
    case True
    obtain r c1 where r: "sock_recv ?limit c = (r, c1)" by (cases "sock_recv ?limit c")
    note sr = sock_recv_stream[OF r]
    note unf = Suc.prems(1)[unfolded recv_loop.simps[of _ _ calls] if_P[OF True] r]
    show ?thesis
    proof (cases "\<exists>d. r = Data d \<and> d \<noteq> []")
      case False
      then have "s' = (t, sel, c1, st) \<or> s' = (t, close_client sel c1 st)"
        using unf by (cases r) (auto split: if_splits)
      moreover have "rx_stream (c_rx c) = rx_stream (c_rx c1)" using sr(2) False by (cases r) auto
      ultimately show ?thesis
        using read_effect_stop[OF Suc.prems(2) sr(1)] by (intro exI[of _ "[]"]) auto
    next
      case True
      then obtain d where d: "r = Data d" "d \<noteq> []" by blast
      from unf d obtain t1 c2 st1 where
        p: "process_buffer clock ph (t, c1\<lparr>c_buffer := c_buffer c1 @ d\<rparr>, st) = Inr (t1, c2, st1)"
        and rest: "recv_loop clock ph (Suc calls) (bytes_read + length d) (t1, sel, c2, st1) = Inr s'"
        by (auto simp: exn_simps)
      have stream: "rx_stream (c_rx c) = d @ rx_stream (c_rx c1)" using sr(2) d by simp
      have len: "length d \<le> ?limit" using sr(3) d by simp
      have n: "n = nat (ph_max_recv_calls ph - int (Suc calls))" using Suc.hyps(2) by simp
      from Suc.hyps(1)[OF n rest process_buffer_rest[OF p]]
      obtain data where "read_effect clock ph data (t1, sel, c2, st1) s'"
        "int (length data) \<le> max 0 (ph_max_recv_bytes ph - int (bytes_read + length d))"
        "int (length data) \<le> 16384 * max 0 (ph_max_recv_calls ph - int (Suc calls))"
        by blast
      then show ?thesis
        using read_effect_join[OF p sr(1) stream] len \<open>int calls < _ \<and> _\<close>
        by (intro exI[of _ "d @ data"]) auto
    qed
  qed
qed

lemma process_client_read_effect:
  assumes "process_client_read clock ph now_ns ready_ns (t, sel, c, st) = Inr s'" "CHR 0x0A \<notin> set (c_buffer c)"
  obtains data st1 where "note_read_gap now_ns ready_ns st = Inr st1"
    "read_effect clock ph data (t, sel, c, st1) s'"
    "int (length data) \<le> max 0 (ph_max_recv_bytes ph)"
    "int (length data) \<le> 16384 * max 0 (ph_max_recv_calls ph)"
proof -
  obtain st1 where "note_read_gap now_ns ready_ns st = Inr st1" "recv_loop clock ph 0 0 (t, sel, c, st1) = Inr s'"
    using assms(1) by (auto simp: process_client_read_def exn_simps)
  with recv_loop_effect[of clock ph 0 0 t sel c st1 s'] assms(2) that show ?thesis by auto
qed


text \<open>A request pending, and its response in three chunks.\<close>

definition sample_reader :: client where
  "sample_reader = (new_client 0 True [Data ''> you are in room '', Data ''main-room'', Data [CHR 0x0A], RecvBlock] [])
     \<lparr>c_pending := [1000]\<rparr>"


section \<open>Frames\<close>

text \<open>The frame of an offer, as \<^verbatim>\<open>run_phase\<close> builds it.\<close>

definition offer_frame :: "phase \<Rightarrow> int \<Rightarrow> int \<Rightarrow> int \<Rightarrow> string" where
  "offer_frame ph index seqno sent_ns =
     (if ph_workload ph = ''direct'' then ''WHERE'' @ [CHR 0x0A]
      else ''BENCH|'' @ ph_token ph @ ''|'' @ show_int index @ ''|'' @ show_int seqno @ ''|'' @
        show_int sent_ns @ ''|'' @ replicate (nat (ph_payload_size ph)) (CHR ''x'') @ [CHR 0x0A])"

lemma find_bench:
  assumes "CHR ''|'' \<notin> set pre"
  shows "find_sub ''BENCH|'' (pre @ ''BENCH|'' @ rest) = Some (length pre)"
proof (rule find_sub_skip)
  fix i assume i: "i < length pre"
  show "take (length ''BENCH|'') (drop i (pre @ ''BENCH|'' @ rest)) \<noteq> ''BENCH|''"
  proof
    assume eq: "take (length ''BENCH|'') (drop i (pre @ ''BENCH|'' @ rest)) = ''BENCH|''"
    define k where "k = length pre - i"
    have len6: "length ''BENCH|'' = 6" by simp
    have nth: "s ! (i + j) = t ! j" if "take 6 (drop i s) = t" "j < 6" "i \<le> length s" for s t :: string and j
      using that by auto
    have at: "(pre @ ''BENCH|'' @ rest) ! (i + j) = ''BENCH|'' ! j" if "j < 6" for j
      using nth[OF eq[unfolded len6] that] i by simp
    show False
    proof (cases "k < 6")
      case True
      have "(pre @ ''BENCH|'' @ rest) ! (i + k) = CHR ''B''" using i by (simp add: k_def nth_append)
      then have "''BENCH|'' ! k = CHR ''B''" using at[OF True] by simp
      moreover have "k = 1 \<or> k = 2 \<or> k = 3 \<or> k = 4 \<or> k = 5" using True i by (auto simp: k_def)
      ultimately show False by auto
    next
      case False
      then have "i + 5 < length pre" using i by (simp add: k_def)
      moreover from this have "pre ! (i + 5) = CHR ''|''" using at[of 5] by (simp add: nth_append)
      ultimately show False using assms by (metis nth_mem)
    qed
  qed
qed

text \<open>C16: a broadcast frame, whatever the server puts around it (its sender's name, a trailing blank),
  is one line, and the receiver reads back the sender and the send time, exactly; under a
  different token it is ignored.\<close>

theorem offer_frame_roundtrip:
  assumes "ph_workload ph \<noteq> ''direct''"
    and "CHR ''|'' \<notin> set pre" "CHR 0x0A \<notin> set pre" "CHR 0x0A \<notin> set post"
    and "CHR ''|'' \<notin> set (ph_token ph)" "CHR 0x0A \<notin> set (ph_token ph)"
    and "\<bar>index\<bar> < 10 ^ 18" "\<bar>sent_ns\<bar> < 10 ^ 18"
  shows "\<exists>line. lines_of (pre @ butlast (offer_frame ph index seqno sent_ns) @ post @ CHR 0x0A # rest) =
        apfst (Cons line) (lines_of rest) \<and>
      parse_bench token line = (if token = ph_token ph then Some (index, sent_ns) else None)"
proof -
  let ?fill = "replicate (nat (ph_payload_size ph)) (CHR ''x'')"
  let ?tail = "ph_token ph @ ''|'' @ show_int index @ ''|'' @ show_int seqno @ ''|'' @
    show_int sent_ns @ ''|'' @ ?fill @ post"
  let ?line = "pre @ ''BENCH|'' @ ?tail"
  have "CHR 0x0A \<notin> set ?line" using assms show_int_no_sep(2) by auto
  then have "lines_of (?line @ CHR 0x0A # rest) = apfst (Cons ?line) (lines_of rest)" by (rule lines_of_line)
  moreover have "butlast (offer_frame ph index seqno sent_ns) = ''BENCH|'' @ ph_token ph @ ''|'' @ show_int index @
      ''|'' @ show_int seqno @ ''|'' @ show_int sent_ns @ ''|'' @ ?fill"
    using assms(1) by (simp add: offer_frame_def butlast_append)
  ultimately have lines: "lines_of (pre @ butlast (offer_frame ph index seqno sent_ns) @ post @ CHR 0x0A # rest) =
      apfst (Cons ?line) (lines_of rest)"
    by simp
  have "split_max (CHR ''|'') (Suc (Suc (Suc (Suc (Suc 0))))) (''BENCH'' @ CHR ''|'' # ph_token ph @ CHR ''|'' #
      show_int index @ CHR ''|'' # show_int seqno @ CHR ''|'' # show_int sent_ns @ CHR ''|'' # ?fill @ post) =
      [''BENCH'', ph_token ph, show_int index, show_int seqno, show_int sent_ns, ?fill @ post]"
    by (simp add: split_first_append assms(5) show_int_no_sep)
  then have "split_max (CHR ''|'') 5 (drop (length pre) ?line) =
      [''BENCH'', ph_token ph, show_int index, show_int seqno, show_int sent_ns, ?fill @ post]"
    by (simp add: numeral_eq_Suc del: split_max.simps)
  moreover have "py_int (show_int n) = Some n" if "\<bar>n\<bar> < 10 ^ 18" for n
    using length_show_nat[of "nat \<bar>n\<bar>" 18] that by (intro py_int_show_int) (simp add: nat_less_iff)
  ultimately have "parse_bench token ?line = (if token = ph_token ph then Some (index, sent_ns) else None)"
    using find_bench[OF assms(2), of ?tail] assms(7,8) by (simp add: parse_bench_def Let_def)
  with lines show ?thesis by blast
qed

definition broadcast_phase :: phase where
  "broadcast_phase = sample_phase\<lparr>ph_workload := ''broadcast'', ph_payload_size := 3, ph_token := ''3-3-1''\<rparr>"

theorem offer_frame_roundtrip_witness:
  "\<exists>line. lines_of (''> bench-2: '' @ butlast (offer_frame broadcast_phase 2 5 123456789) @ '' '' @ CHR 0x0A # []) =
       apfst (Cons line) (lines_of []) \<and>
     parse_bench ''3-3-1'' line = Some (2, 123456789)"
  using offer_frame_roundtrip[of broadcast_phase "''> bench-2: ''" "'' ''" 2 123456789 5 "[]" "''3-3-1''"]
  by (simp add: broadcast_phase_def sample_phase_def)

section \<open>The history of a connection\<close>

text \<open>Flushing loses and reorders no byte, however the kernel splits or refuses the sends: what
  was sent, then what stays queued, then what a send error discards (and counts), is what there was
  before; afterwards the selector watches for writability exactly if something stays queued.\<close>

theorem flush_client_send_conserves:
  assumes "sel (c_index c) \<noteq> None"
  shows "\<exists>c' st' lost. flush_client_send sel c st = Inr (sel(c_index c \<mapsto> c_send_buffer c' \<noteq> []), c', st') \<and>
    c_wire c' @ c_send_buffer c' @ lost = c_wire c @ c_send_buffer c \<and>
    send_errors st' = send_errors st + (if lost = [] then 0 else 1) \<and>
    c_pending c' = c_pending c \<and> sent_operations st' = sent_operations st"
proof -
  let ?c' = "fst (flush_loop c st)" and ?st' = "snd (flush_loop c st)"
  obtain lost where lost: "c_wire ?c' @ c_send_buffer ?c' @ lost = c_wire c @ c_send_buffer c"
    "send_errors ?st' = send_errors st + (if lost = [] then 0 else 1)"
    using flush_loop_bytes by blast
  have "flush_client_send sel c st = Inr (sel(c_index c \<mapsto> c_send_buffer ?c' \<noteq> []), ?c', ?st')"
    using assms flush_client_send_open[of sel c st] by simp
  moreover have "c_pending ?c' = c_pending c" by (rule flush_loop_client)
  moreover have "sent_operations ?st' = sent_operations st" using flush_loop_counters[of c st] by auto
  ultimately show ?thesis using lost by blast
qed

definition sample_sender :: client where
  "sample_sender = (new_client 4 True [] [Sent 2, Sent 9, SendBlock])\<lparr>c_send_buffer := ''WHERE''\<rparr>"

theorem flush_client_send_conserves_witness:
  "\<exists>c' st' lost. flush_client_send [4 \<mapsto> True] sample_sender (empty_state 0) =
      Inr ([4 \<mapsto> c_send_buffer c' \<noteq> []], c', st') \<and>
    c_wire c' @ c_send_buffer c' @ lost = ''WHERE'' \<and> send_errors st' = (if lost = [] then 0 else 1)"
proof -
  have r: "[4 \<mapsto> True] (c_index sample_sender) \<noteq> None" by (simp add: sample_sender_def new_client_def)
  obtain c' st' lost where "flush_client_send [4 \<mapsto> True] sample_sender (empty_state 0) =
      Inr ([4 \<mapsto> True](c_index sample_sender \<mapsto> c_send_buffer c' \<noteq> []), c', st')"
    "c_wire c' @ c_send_buffer c' @ lost = c_wire sample_sender @ c_send_buffer sample_sender"
    "send_errors st' = send_errors (empty_state 0) + (if lost = [] then 0 else 1)"
    using flush_client_send_conserves[of "[4 \<mapsto> True]" sample_sender "empty_state 0"] r by blast
  then show ?thesis
    by (intro exI[of _ c'] exI[of _ st'] exI[of _ lost]) (auto simp: sample_sender_def new_client_def empty_state_def)
qed

text \<open>
  A connection in the order of what happens to it: frames are queued (accepted or refused), and
  the selector reports it readable or writable.
\<close>

datatype conn_label = Accepted string | Refused | Polled

inductive conn_step :: "(nat \<Rightarrow> int) \<Rightarrow> phase \<Rightarrow> io_state \<Rightarrow> conn_label \<Rightarrow> io_state \<Rightarrow> bool"
  for clock ph where
  accept: "\<not> c_closed c \<Longrightarrow>
    queue_client_frame sel c frame sent_ns (ph_workload ph) st = Inr (True, sel', c', st') \<Longrightarrow>
    conn_step clock ph (t, sel, c, st) (Accepted frame) (t, sel', c', st')"
| refuse: "\<not> c_closed c \<Longrightarrow>
    queue_client_frame sel c frame sent_ns (ph_workload ph) st = Inr (False, sel', c', st') \<Longrightarrow>
    conn_step clock ph (t, sel, c, st) Refused (t, sel', c', st')"
| readable: "\<not> c_closed c \<Longrightarrow>
    process_client_read clock ph now_ns ready_ns (t, sel, c, st) = Inr s' \<Longrightarrow>
    conn_step clock ph (t, sel, c, st) Polled s'"
| writable: "\<not> c_closed c \<Longrightarrow> flush_client_send sel c st = Inr (sel', c', st') \<Longrightarrow>
    conn_step clock ph (t, sel, c, st) Polled (t, sel', c', st')"

inductive_cases conn_stepE [case_names accept refuse readable writable, consumes 1]: "conn_step clock ph (t, sel, c, st) l s'"

inductive conn_run :: "(nat \<Rightarrow> int) \<Rightarrow> phase \<Rightarrow> io_state \<Rightarrow> conn_label list \<Rightarrow> io_state \<Rightarrow> bool"
  for clock ph s where
  start: "conn_run clock ph s [] s"
| step: "conn_run clock ph s ls s1 \<Longrightarrow> conn_step clock ph s1 l s2 \<Longrightarrow> conn_run clock ph s (ls @ [l]) s2"

definition accepted :: "conn_label list \<Rightarrow> string list" where
  "accepted ls = List.map_filter (\<lambda>l. case l of Accepted f \<Rightarrow> Some f | _ \<Rightarrow> None) ls"

lemma accepted_simps [simp]:
  "accepted [] = []" "accepted (ls @ [Accepted f]) = accepted ls @ [f]"
  "accepted (ls @ [Refused]) = accepted ls" "accepted (ls @ [Polled]) = accepted ls"
  by (simp_all add: accepted_def List.map_filter_def)

text \<open>The invariant of a client and its registration.\<close>

definition client_ok :: "selector \<Rightarrow> client \<Rightarrow> bool" where
  "client_ok sel c \<longleftrightarrow>
     sel (c_index c) = (if c_closed c then None else Some (c_send_buffer c \<noteq> [])) \<and>
     length (c_send_buffer c) \<le> MAX_CLIENT_SEND_QUEUE \<and> CHR 0x0A \<notin> set (c_buffer c)"

text \<open>What a step adds to the counters, for a connection and its frames.\<close>

definition sent_ok :: "conn_label list \<Rightarrow> phase \<Rightarrow> client \<Rightarrow> load_state \<Rightarrow> bool" where
  "sent_ok ls ph c st \<longleftrightarrow>
     sent_operations st = int (length (accepted ls)) \<and> 0 \<le> send_errors st \<and>
     (send_errors st = 0 \<longrightarrow> c_wire c @ c_send_buffer c = concat (accepted ls)) \<and>
     (ph_workload ph = ''direct'' \<longrightarrow> int (length (c_pending c)) + eventual_completions st = sent_operations st)"

lemma flush_ok:
  assumes "flush_client_send sel c st = Inr (sel', c', st')"
  shows "c' = fst (flush_loop c st)" "st' = snd (flush_loop c st)"
    "sel' = sel(c_index c \<mapsto> c_send_buffer c' \<noteq> [])" "sel (c_index c) \<noteq> None"
    "tally_ok st' = tally_ok st" "eventual_completions st' = eventual_completions st"
    "sent_operations st' = sent_operations st" "offered_operations st' = offered_operations st"
    "missed_offers st' = missed_offers st" "deliveries st' = deliveries st"
proof -
  show r: "sel (c_index c) \<noteq> None" using assms flush_client_send_raise[of sel c st KeyError] by auto
  show "c' = fst (flush_loop c st)" "st' = snd (flush_loop c st)"
    "sel' = sel(c_index c \<mapsto> c_send_buffer c' \<noteq> [])"
    using assms flush_client_send_open[of sel c st] r by (auto simp: prod_eq_iff)
  then show "tally_ok st' = tally_ok st" "eventual_completions st' = eventual_completions st"
    "sent_operations st' = sent_operations st" "offered_operations st' = offered_operations st"
    "missed_offers st' = missed_offers st" "deliveries st' = deliveries st"
    using flush_loop_counters[of c st] by (auto simp: tally_ok_def)
qed

lemma flush_client_ok:
  assumes "flush_client_send sel c st = Inr (sel', c', st')" "\<not> c_closed c"
    "length (c_send_buffer c) \<le> MAX_CLIENT_SEND_QUEUE" "CHR 0x0A \<notin> set (c_buffer c)"
  shows "client_ok sel' c'" "c_index c' = c_index c" "c_closed c' = c_closed c" "c_pending c' = c_pending c"
  using flush_ok[OF assms(1)] assms(2,3,4) flush_loop_client[of c st] flush_loop_bytes[of c st]
  by (auto simp: client_ok_def)

lemma flush_sent_ok:
  assumes "flush_client_send sel c st = Inr (sel', c', st')" "sent_ok ls ph c st"
  shows "sent_ok ls ph c' st'"
  using flush_ok[OF assms(1)] assms(2) flush_loop_client[of c st] flush_loop_bytes[of c st]
  by (auto simp: sent_ok_def split: if_splits)

lemma read_ok:
  assumes "process_client_read clock ph now_ns ready_ns (t, sel, c, st) = Inr (t', sel', c', st')"
    "client_ok sel c" "\<not> c_closed c"
  shows "client_ok sel' c'" "c_index c' = c_index c" "tally_ok st \<Longrightarrow> tally_ok st'"
    "sent_ok ls ph c st \<Longrightarrow> sent_ok ls ph c' st'"
    "sent_operations st' = sent_operations st" "offered_operations st' = offered_operations st"
    "missed_offers st' = missed_offers st" "deliveries st \<le> deliveries st'"
    "ph_workload ph = ''direct'' \<Longrightarrow>
      int (length (c_pending c')) + eventual_completions st' = int (length (c_pending c)) + eventual_completions st"
    "sel' = sel(c_index c := sel' (c_index c))"
proof -
  obtain data st1 where gap: "note_read_gap now_ns ready_ns st = Inr st1"
    and eff: "read_effect clock ph data (t, sel, c, st1) (t', sel', c', st')"
    by (rule process_client_read_effect[OF assms(1)]) (use assms(2) in \<open>auto simp: client_ok_def\<close>)
  have st1: "send_part st1 = send_part st" "tally_ok st1 = tally_ok st" "deliveries st1 = deliveries st"
    "eventual_completions st1 = eventual_completions st"
    using gap by (auto simp: note_read_gap_def exn_simps send_part_def tally_ok_def split: option.splits)
  let ?L = "lines_of (c_buffer c @ data)"
  obtain c2 st2 rx where h: "handle_lines clock ph (fst ?L) (t, c, st1) = Inr (t', c2, st2)"
    and last: "(sel', c', st') = (sel, with_input (snd ?L) rx c2, st2) \<or>
      (sel', c', st') = close_client sel (with_input (snd ?L) rx c2) st2"
    using eff unfolding read_effect_lines by blast
  note hl = handle_lines_client[OF h]
  have c2: "c_index c2 = c_index c" "c_closed c2 = c_closed c" "c_send_buffer c2 = c_send_buffer c" "c_wire c2 = c_wire c"
    using hl(1) by (metis client.surjective client.update_convs(4) client.select_convs)+
  have c': "c_index c' = c_index c" "c_send_buffer c' = c_send_buffer c" "c_wire c' = c_wire c"
    "c_buffer c' = snd ?L" "c_pending c' = c_pending c2"
    using last c2 assms(3) by (auto simp: close_client_def)
  have st': "offered_operations st' = offered_operations st2" "sent_operations st' = sent_operations st2"
    "missed_offers st' = missed_offers st2" "send_errors st' = send_errors st2"
    "eventual_completions st' = eventual_completions st2" "deliveries st' = deliveries st2" "tally_ok st' = tally_ok st2"
    using last c2 by (auto simp: close_client_def tally_ok_def split: if_splits)
  show "c_index c' = c_index c" by (rule c')
  show "sel' = sel(c_index c := sel' (c_index c))"
    using last c2 assms(3) by (auto simp: close_client_def)
  show "client_ok sel' c'"
    using last c2 c' assms(2,3) lines_of_rest[of "c_buffer c @ data"] by (auto simp: client_ok_def close_client_def)
  show "tally_ok st \<Longrightarrow> tally_ok st'" using hl(3) st' st1 by simp
  show cons: "ph_workload ph = ''direct'' \<Longrightarrow>
      int (length (c_pending c')) + eventual_completions st' = int (length (c_pending c)) + eventual_completions st"
    using hl(5) st' st1 c' by simp
  show sent: "sent_operations st' = sent_operations st" "offered_operations st' = offered_operations st"
    "missed_offers st' = missed_offers st" "deliveries st \<le> deliveries st'"
    using hl(2,4) st' st1 by (auto simp: send_part_def)
  have "send_errors st' = send_errors st" using hl(2) st' st1 by (auto simp: send_part_def)
  then show "sent_ok ls ph c st \<Longrightarrow> sent_ok ls ph c' st'"
    using cons sent c' by (auto simp: sent_ok_def)
qed

lemma read_tick:
  assumes "process_client_read clock ph now_ns ready_ns (t, sel, c, st) = Inr (t', sel', c', st')"
    "client_ok sel c"
  shows "t \<le> t'"
proof -
  have "CHR 0x0A \<notin> set (c_buffer c)" using assms(2) by (simp add: client_ok_def)
  with assms(1) obtain data st1 where "read_effect clock ph data (t, sel, c, st1) (t', sel', c', st')"
    by (rule process_client_read_effect)
  then show ?thesis unfolding read_effect_lines by (auto dest: handle_lines_tick)
qed

lemma queue_ok:
  assumes "queue_client_frame sel c frame sent_ns (ph_workload ph) st = Inr (ok, sel', c', st')"
    "client_ok sel c" "\<not> c_closed c"
  shows "client_ok sel' c'" "c_index c' = c_index c" "tally_ok st' = tally_ok st" "c_closed c' = c_closed c"
    "sent_ok ls ph c st \<Longrightarrow> sent_ok (ls @ [if ok then Accepted frame else Refused]) ph c' st'"
    "sent_operations st' = sent_operations st + (if ok then 1 else 0)" "offered_operations st' = offered_operations st"
    "missed_offers st' = missed_offers st" "eventual_completions st' = eventual_completions st"
    "length (c_pending c') = length (c_pending c) + (if ok \<and> ph_workload ph = ''direct'' then 1 else 0)"
    "sel' = sel(c_index c := sel' (c_index c))"
proof -
  have "client_ok sel' c' \<and> c_index c' = c_index c \<and> tally_ok st' = tally_ok st \<and> c_closed c' = c_closed c \<and>
    (sent_ok ls ph c st \<longrightarrow> sent_ok (ls @ [if ok then Accepted frame else Refused]) ph c' st') \<and>
    sent_operations st' = sent_operations st + (if ok then 1 else 0) \<and> offered_operations st' = offered_operations st \<and>
    missed_offers st' = missed_offers st \<and> eventual_completions st' = eventual_completions st \<and>
    length (c_pending c') = length (c_pending c) + (if ok \<and> ph_workload ph = ''direct'' then 1 else 0) \<and>
    sel' = sel(c_index c := sel' (c_index c))"
  proof (cases "MAX_CLIENT_SEND_QUEUE < length (c_send_buffer c) + length frame")
    case True
    then have "\<not> ok" "sel' = sel" "c' = c" "st' = st" using assms(1) by (auto simp: queue_client_frame_def)
    then show ?thesis using assms(2) by (auto simp: sent_ok_def)
  next
    case False
    define c2 where "c2 = (if ph_workload ph = ''direct''
      then c\<lparr>c_send_buffer := c_send_buffer c @ frame, c_pending := c_pending c @ [sent_ns]\<rparr>
      else c\<lparr>c_send_buffer := c_send_buffer c @ frame\<rparr>)"
    define st1 where "st1 = st\<lparr>sent_operations := sent_operations st + 1\<rparr>"
    have f: "flush_client_send sel c2 st1 = Inr (sel', c', st')" and ok: ok
      using assms(1) False by (auto simp: queue_client_frame_def Let_def exn_simps c2_def st1_def split: if_splits)
    have c2: "c_index c2 = c_index c" "c_closed c2 = c_closed c" "length (c_send_buffer c2) \<le> MAX_CLIENT_SEND_QUEUE"
      "c_buffer c2 = c_buffer c"
      "length (c_pending c2) = length (c_pending c) + (if ph_workload ph = ''direct'' then 1 else 0)"
      using False by (simp_all add: c2_def)
    have st1: "tally_ok st1 = tally_ok st" "sent_operations st1 = sent_operations st + 1"
      "offered_operations st1 = offered_operations st" "missed_offers st1 = missed_offers st"
      "eventual_completions st1 = eventual_completions st"
      by (simp_all add: st1_def tally_ok_def)
    have "sent_ok ls ph c st \<Longrightarrow> sent_ok (ls @ [Accepted frame]) ph c2 st1"
      by (auto simp: sent_ok_def c2_def st1_def)
    with flush_ok[OF f] flush_client_ok[OF f] flush_sent_ok[OF f] c2 st1 ok assms(2,3) show ?thesis
      by (auto simp: client_ok_def)
  qed
  then show "client_ok sel' c'" "c_index c' = c_index c" "tally_ok st' = tally_ok st" "c_closed c' = c_closed c"
    "sent_ok ls ph c st \<Longrightarrow> sent_ok (ls @ [if ok then Accepted frame else Refused]) ph c' st'"
    "sent_operations st' = sent_operations st + (if ok then 1 else 0)" "offered_operations st' = offered_operations st"
    "missed_offers st' = missed_offers st" "eventual_completions st' = eventual_completions st"
    "length (c_pending c') = length (c_pending c) + (if ok \<and> ph_workload ph = ''direct'' then 1 else 0)"
    "sel' = sel(c_index c := sel' (c_index c))"
    by blast+
qed

lemma conn_step_ok:
  assumes "conn_step clock ph (t, sel, c, st) l (t', sel', c', st')"
    "client_ok sel c" "tally_ok st" "sent_ok ls ph c st"
  shows "client_ok sel' c' \<and> tally_ok st' \<and> sent_ok (ls @ [l]) ph c' st'"
  using assms(1)
proof (cases rule: conn_stepE)
  case (accept frame sent_ns sel1 c1 st1)
  then show ?thesis using queue_ok[OF accept(4) assms(2) accept(3)] assms(3,4) by simp
next
  case (refuse frame sent_ns sel1 c1 st1)
  then show ?thesis using queue_ok[OF refuse(4) assms(2) refuse(3)] assms(3,4) by simp
next
  case (readable now_ns ready_ns)
  have "sent_ok (ls @ [Polled]) ph c st" using assms(4) by (simp add: sent_ok_def)
  then show ?thesis using read_ok[OF readable(3) assms(2) readable(2)] assms(3) readable(1) by simp
next
  case (writable sel1 c1 st1)
  then have f: "flush_client_send sel c st = Inr (sel', c', st')" by simp
  have "sent_ok (ls @ [Polled]) ph c st" using assms(4) by (simp add: sent_ok_def)
  from flush_sent_ok[OF f this] have "sent_ok (ls @ [l]) ph c' st'" using writable(1) by simp
  moreover have "client_ok sel' c'"
    by (rule flush_client_ok(1)[OF f writable(3)]) (use assms(2) in \<open>auto simp: client_ok_def\<close>)
  moreover have "tally_ok st'" using flush_ok(5)[OF f] assms(3) by simp
  ultimately show ?thesis by blast
qed

text \<open>C14: whatever happens to a fresh connection, in whatever order: the bytes sent and queued are the
  accepted frames, whole and in order, unless a send failed and was counted; at most 64 KiB are
  queued; the selector knows the connection until it is closed, and waits for writability exactly
  while bytes are queued; every accepted request of the direct workload is pending or completed;
  and completions by the deadline, completions and deliveries never exceed each other.\<close>

theorem connection_invariant:
  assumes "conn_run clock ph (t, [index \<mapsto> False], new_client index active rx tx, empty_state wid) ls (t', sel, c, st)"
  shows "client_ok sel c \<and> tally_ok st \<and> sent_ok ls ph c st"
proof -
  have "case s' of (t', sel, c, st) \<Rightarrow> client_ok sel c \<and> tally_ok st \<and> sent_ok ls ph c st"
    if "conn_run clock ph (t, [index \<mapsto> False], new_client index active rx tx, empty_state wid) ls s'" for ls s'
    using that
  proof (induction rule: conn_run.induct)
    case start
    show ?case by (simp add: client_ok_def new_client_def tally_ok_def empty_state_def sent_ok_def)
  next
    case (step ls s1 l s2)
    then show ?case using conn_step_ok by (cases s1; cases s2) fastforce
  qed
  from this[OF assms] show ?thesis by simp
qed

text \<open>A request that the kernel takes in two parts.\<close>

theorem connection_invariant_witness:
  "\<exists>sel c st. conn_run (\<lambda>n. 0) sample_phase (0, [4 \<mapsto> False], new_client 4 True [] [Sent 2, SendBlock, Sent 9], empty_state 0)
      [Accepted (''WHERE'' @ [CHR 0x0A]), Polled] (0, sel, c, st) \<and>
    c_wire c = ''WHERE'' @ [CHR 0x0A] \<and> client_ok sel c \<and> tally_ok st \<and>
    sent_ok [Accepted (''WHERE'' @ [CHR 0x0A]), Polled] sample_phase c st"
proof -
  let ?c = "new_client 4 True [] [Sent 2, SendBlock, Sent 9]" and ?f = "''WHERE'' @ [CHR 0x0A]"
  obtain sel1 c1 st1 where q: "queue_client_frame [4 \<mapsto> False] ?c ?f 7 (ph_workload sample_phase) (empty_state 0) = Inr (True, sel1, c1, st1)"
    and c1: "\<not> c_closed c1" "sel1 (c_index c1) = Some True" "c_send_buffer c1 = ''ERE'' @ [CHR 0x0A]"
      "c_tx c1 = [Sent 9]" "c_wire c1 = ''WH''"
    by (simp add: queue_client_frame_def sample_phase_def new_client_def MAX_CLIENT_SEND_QUEUE_def
      flush_client_send_def flush_loop.simps sock_send_def update_interest_def)
  obtain sel2 c2 st2 where f: "flush_client_send sel1 c1 st1 = Inr (sel2, c2, st2)"
    and c2: "c_wire c2 = ''WHERE'' @ [CHR 0x0A]"
    using c1 by (simp add: flush_client_send_def flush_loop.simps[of c1] sock_send_def update_interest_def flush_loop_empty)
  have r1: "conn_run (\<lambda>n. 0) sample_phase (0, [4 \<mapsto> False], ?c, empty_state 0) ([] @ [Accepted ?f]) (0, sel1, c1, st1)"
    by (rule conn_run.step[OF conn_run.start conn_step.accept[OF _ q]]) (simp add: new_client_def)
  have r2: "conn_run (\<lambda>n. 0) sample_phase (0, [4 \<mapsto> False], ?c, empty_state 0) (([] @ [Accepted ?f]) @ [Polled]) (0, sel2, c2, st2)"
    by (rule conn_run.step[OF r1 conn_step.writable[OF c1(1) f]])
  show ?thesis using connection_invariant[OF r2] r2 c2 by auto
qed

end
