(* ===== verification/Worker_Phase.thy ===== *)
theory Worker_Phase
  imports Client_IO
begin

text \<open>
  One phase of a worker process (\<^verbatim>\<open>run_phase\<close> of \<^verbatim>\<open>bench/benchmark.py\<close>): waiting for the common
  start, issuing the due offers until the deadline, accounting for the offers left over, and
  draining the responses. Clocks and selector are those of the record \<open>env\<close>; a loop that waits
  for a clock has fuel.
\<close>

section \<open>Waiting for the start\<close>

definition observe :: "worker \<Rightarrow> worker" where
  "observe w = w\<lparr>w_tick := Suc (w_tick w)\<rparr>"

text \<open>One reading of \<^verbatim>\<open>time.monotonic_ns()\<close> or \<^verbatim>\<open>time.monotonic()\<close> at the present state.\<close>

abbreviation now_of :: "env \<Rightarrow> worker \<Rightarrow> int" where
  "now_of env w \<equiv> monotonic_ns env (w_tick w)"

abbreviation seconds_of :: "env \<Rightarrow> worker \<Rightarrow> pyfloat" where
  "seconds_of env w \<equiv> monotonic env (w_tick w)"

definition wait_body :: "env \<Rightarrow> phase \<Rightarrow> int \<times> worker \<Rightarrow> py_exn + (int \<times> worker) + (int \<times> worker)" where
  "wait_body env ph cw =
     (case cw of (cursor, w) \<Rightarrow>
        let w1 = observe w
        in if \<not> now_of env w < ph_start_ns ph then Inr (Inr (cursor, w1))
           else
             seq (int_div (ph_start_ns ph - now_of env w1) 1000000000) (\<lambda>remaining.
             seq (service_events env ph (py_max (Fin 0) (py_min (to_float (1 / 1000)) remaining))
                   (cursor, observe w1)) (\<lambda>cw'.
               Inr (Inl cw'))))"

section \<open>Offers\<close>

definition count_missed :: "load_state \<Rightarrow> load_state" where
  "count_missed st = st\<lparr>missed_offers := missed_offers st + 1\<rparr>"

text \<open>One offer of the harvested batch: rescheduled, then skipped or sent.\<close>

definition offer_one ::
  "env \<Rightarrow> phase \<Rightarrow> int \<Rightarrow> int \<Rightarrow> int \<Rightarrow> harvested \<Rightarrow> worker \<times> offer list \<Rightarrow> py_exn + worker \<times> offer list" where
  "offer_one env ph target_offers period_per_client_ns now_ns x ws =
     (case (x, ws) of ((scheduled, missed, seqno, i), (w, schedule)) \<Rightarrow>
        seq (int_div (now_ns - scheduled) 1000000) (\<lambda>lag.
          let st = (w_state w)\<lparr>offered_operations := offered_operations (w_state w) + 1,
                scheduling_lag_ms := scheduling_lag_ms (w_state w) @ [py_max (Fin 0) lag]\<rparr>;
              next_sequence = seqno + int (length (ph_active_indices ph));
              schedule' = (if next_sequence < target_offers
                then heappush schedule ((scheduled + period_per_client_ns, next_sequence), i) else schedule)
          in if missed \<or> c_closed (w_clients w i)
             then Inr (w\<lparr>w_state := count_missed st\<rparr>, schedule')
             else
               seq (queue_client_frame (w_selector w) (w_clients w i)
                     (offer_frame ph (c_index (w_clients w i)) seqno (now_of env w))
                     (now_of env w) (ph_workload ph) st) (\<lambda>(ok, sel, c, st').
                 Inr (\<lparr> w_tick = Suc (w_tick w), w_selector = sel, w_clients = (w_clients w)(i := c),
                        w_state = (if ok then st' else count_missed st') \<rparr>, schedule'))))"

text \<open>One round of the sending loop.\<close>

definition send_body ::
  "env \<Rightarrow> phase \<Rightarrow> int \<Rightarrow> int \<Rightarrow> int \<times> worker \<times> offer list \<Rightarrow>
   py_exn + (int \<times> worker \<times> offer list) + (int \<times> worker \<times> offer list)" where
  "send_body env ph target_offers period_per_client_ns cws =
     (case cws of (cursor, w, schedule) \<Rightarrow>
        let w1 = observe w; now_ns = now_of env w1
        in if \<not> now_of env w < ph_deadline_ns ph then Inr (Inr (cursor, w1, schedule))
           else
             seq (to_py_int (fmul (ph_max_offer_lag_ms ph) (Fin 1000000))) (\<lambda>max_lag_ns.
             case due_offers schedule now_ns (ph_max_overdue_sends ph) max_lag_ns of (ready, rest) \<Rightarrow>
             seq (for_each ready (offer_one env ph target_offers period_per_client_ns now_ns) (observe w1, rest)) (\<lambda>(w2, schedule').
             let now2 = now_of env w2;
                 next_ns = (case schedule' of [] \<Rightarrow> ph_deadline_ns ph | x # _ \<Rightarrow> scheduled_ns x)
             in seq (int_div (next_ns - now2) 1000000000) (\<lambda>until_next.
                seq (int_div (ph_deadline_ns ph - now2) 1000000000) (\<lambda>until_end.
                seq (service_events env ph
                      (py_max (Fin 0) (py_min (py_min (to_float (1 / 100)) until_next) until_end))
                      (cursor, observe w2)) (\<lambda>(cursor', w3).
                  Inr (Inl (cursor', w3, schedule'))))))))"

text \<open>The offers that were due before the deadline but never harvested, with all their successors.\<close>

definition leftover :: "phase \<Rightarrow> int \<Rightarrow> offer \<Rightarrow> load_state \<Rightarrow> py_exn + load_state" where
  "leftover ph target_offers x st =
     (if ph_deadline_ns ph \<le> scheduled_ns x then Inr st
      else if ph_active_indices ph = [] then Inl ZeroDivisionError
      else
        let remaining = 1 + (target_offers - 1 - sequence x) div int (length (ph_active_indices ph))
        in Inr (st\<lparr>offered_operations := offered_operations st + remaining,
                   missed_offers := missed_offers st + remaining\<rparr>))"

section \<open>Draining\<close>

definition queues_empty :: "int list \<Rightarrow> worker \<Rightarrow> bool" where
  "queues_empty clients w \<longleftrightarrow>
     (\<forall>i\<in>set clients. c_pending (w_clients w i) = [] \<and> c_send_buffer (w_clients w i) = [])"

text \<open>The state of the drain: the cursor, the worker, when it last got quiet, and the deliveries then.\<close>

type_synonym drain_state = "int \<times> worker \<times> pyfloat \<times> int"

definition drain_body ::
  "env \<Rightarrow> phase \<Rightarrow> int list \<Rightarrow> pyfloat \<Rightarrow> drain_state \<Rightarrow> py_exn + drain_state + worker" where
  "drain_body env ph clients drain_deadline s =
     (case s of (cursor, w, quiet_since, previous) \<Rightarrow>
        let w1 = observe w
        in if \<not> flt (seconds_of env w) drain_deadline then Inr (Inr w1)
           else
             seq (service_events env ph (to_float (1 / 50)) (cursor, w1)) (\<lambda>(cursor', w2).
               let changed = deliveries (w_state w2) \<noteq> previous;
                   quiet = (if changed then seconds_of env w2 else quiet_since);
                   w3 = (if changed then observe w2 else w2)
               in if queues_empty clients w3
                  then if fle (to_float (1 / 10)) (fsub (seconds_of env w3) quiet)
                       then Inr (Inr (observe w3))
                       else Inr (Inl (cursor', observe w3, quiet, deliveries (w_state w3)))
                  else Inr (Inl (cursor', w3, quiet, deliveries (w_state w3)))))"

section \<open>The phase\<close>

definition mark_started :: "int list \<Rightarrow> int \<Rightarrow> (int \<Rightarrow> client) \<Rightarrow> (int \<Rightarrow> client)" where
  "mark_started clients t cs =
     fold (\<lambda>i cs. cs(i := (cs i)\<lparr>c_last_read_service_ns := t\<rparr>)) clients cs"

text \<open>Sequencing of the loops, which may also run out of fuel.\<close>

definition andthen :: "(py_exn + 'a) option \<Rightarrow> ('a \<Rightarrow> (py_exn + 'b) option) \<Rightarrow> (py_exn + 'b) option" where
  "andthen r f = (case r of None \<Rightarrow> None | Some (Inl e) \<Rightarrow> Some (Inl e) | Some (Inr x) \<Rightarrow> f x)"

text \<open>Up to the first offer: the schedule, and the clocks at the start.\<close>

definition begin_phase ::
  "env \<Rightarrow> phase \<Rightarrow> int list \<Rightarrow> worker \<Rightarrow> py_exn + worker \<times> pyfloat \<times> offer list \<times> int \<times> int" where
  "begin_phase env ph clients w =
     (let start = now_of env w; w1 = observe w
      in seq (int_div (start - ph_start_ns ph) 1000000) (\<lambda>skew.
         let w2 = w1\<lparr>w_state := (w_state w1)\<lparr>start_skew_ms := skew\<rparr>,
                     w_clients := mark_started clients start (w_clients w1)\<rparr>;
             cpu_start = process_time env (w_tick w2); w3 = observe w2
         in seq (schedule_for_clients clients ph) (\<lambda>(schedule, target_offers).
            seq (of_py_int (1000000000 * int (length (ph_active_indices ph)))) (\<lambda>numerator.
            seq (fdiv numerator (ph_rate ph)) (\<lambda>period.
            seq (to_py_int period) (\<lambda>period_per_client_ns.
              Inr (w3, cpu_start, schedule, target_offers, period_per_client_ns)))))))"

text \<open>After the deadline: the leftovers and the processor time.\<close>

definition end_sending ::
  "env \<Rightarrow> phase \<Rightarrow> int \<Rightarrow> pyfloat \<Rightarrow> worker \<Rightarrow> offer list \<Rightarrow> py_exn + worker" where
  "end_sending env ph target_offers cpu_start w schedule =
     seq (for_each schedule (leftover ph target_offers) (w_state w)) (\<lambda>st.
       Inr ((observe w)\<lparr>w_state := st\<lparr>generator_cpu_seconds :=
         fsub (process_time env (w_tick w)) cpu_start\<rparr>\<rparr>))"

definition drain_phase ::
  "nat \<Rightarrow> env \<Rightarrow> int list \<Rightarrow> phase \<Rightarrow> int \<Rightarrow> worker \<Rightarrow> (py_exn + worker) option" where
  "drain_phase fuel env clients ph cursor w =
     (let drain_deadline = fadd (seconds_of env w) (ph_drain ph); w1 = observe w;
          quiet_since = seconds_of env w1; w2 = observe w1
      in loop fuel (drain_body env ph clients drain_deadline)
           (cursor, w2, quiet_since, deliveries (w_state w2)))"

definition run_phase ::
  "nat \<Rightarrow> env \<Rightarrow> int list \<Rightarrow> phase \<Rightarrow> int \<Rightarrow> worker \<Rightarrow> (py_exn + worker) option" where
  "run_phase fuel env clients ph wid w0 =
     andthen (loop fuel (wait_body env ph) (0, w0\<lparr>w_state := empty_state wid\<rparr>)) (\<lambda>(cursor, w1).
     andthen (Some (begin_phase env ph clients w1)) (\<lambda>(w2, cpu_start, schedule, target_offers, period).
     andthen (loop fuel (send_body env ph target_offers period) (cursor, w2, schedule)) (\<lambda>(cursor', w3, schedule').
     andthen (Some (end_sending env ph target_offers cpu_start w3 schedule'))
       (drain_phase fuel env clients ph cursor'))))"

section \<open>The invariant of a worker\<close>

definition worker_ok :: "int list \<Rightarrow> worker \<Rightarrow> bool" where
  "worker_ok clients w \<longleftrightarrow>
     (\<forall>i\<in>set clients. c_index (w_clients w i) = i \<and> client_ok (w_selector w) (w_clients w i)) \<and>
     (\<forall>i. w_selector w i \<noteq> None \<longrightarrow> i \<in> set clients) \<and> tally_ok (w_state w)"

definition outstanding :: "int list \<Rightarrow> worker \<Rightarrow> int" where
  "outstanding clients w = (\<Sum>i\<leftarrow>clients. int (length (c_pending (w_clients w i))))"

text \<open>What servicing sockets keeps: the invariant, the sending counters and, on the direct workload,
  the balance of completions and pending requests.\<close>

definition serviced :: "phase \<Rightarrow> int list \<Rightarrow> worker \<Rightarrow> worker \<Rightarrow> bool" where
  "serviced ph clients w w' \<longleftrightarrow>
     worker_ok clients w' \<and> w_tick w \<le> w_tick w' \<and>
     sent_operations (w_state w') = sent_operations (w_state w) \<and>
     offered_operations (w_state w') = offered_operations (w_state w) \<and>
     missed_offers (w_state w') = missed_offers (w_state w) \<and>
     deliveries (w_state w) \<le> deliveries (w_state w') \<and>
     (ph_workload ph = ''direct'' \<longrightarrow>
        outstanding clients w' + eventual_completions (w_state w') =
        outstanding clients w + eventual_completions (w_state w))"

lemma serviced_refl: "worker_ok clients w \<Longrightarrow> serviced ph clients w w"
  by (simp add: serviced_def)

lemma serviced_trans: "serviced ph clients w w1 \<Longrightarrow> serviced ph clients w1 w2 \<Longrightarrow> serviced ph clients w w2"
  by (auto simp: serviced_def)

lemma worker_ok_observe [simp]: "worker_ok clients (observe w) = worker_ok clients w"
  by (simp add: worker_ok_def observe_def)

lemma outstanding_observe [simp]: "outstanding clients (observe w) = outstanding clients w"
  by (simp add: outstanding_def observe_def)

lemma observe_simps [simp]:
  "w_state (observe w) = w_state w" "w_selector (observe w) = w_selector w"
  "w_clients (observe w) = w_clients w" "w_tick (observe w) = Suc (w_tick w)"
  by (simp_all add: observe_def)

lemma serviced_observe: "serviced ph clients (observe w) w' \<Longrightarrow> serviced ph clients w w'"
  by (auto simp: serviced_def)

lemma outstanding_upd:
  assumes "distinct clients" "i \<in> set clients" "w_clients w' = (w_clients w)(i := c)"
  shows "outstanding clients w' =
    outstanding clients w - int (length (c_pending (w_clients w i))) + int (length (c_pending c))"
  unfolding outstanding_def assms(3)
  by (rule sum_list_upd[where f = "\<lambda>c. int (length (c_pending c))", OF assms(1,2)])

text \<open>Replacing one client and its registration keeps the invariant if the client is in order.\<close>

lemma worker_ok_upd:
  assumes "worker_ok clients w" "i \<in> set clients" "client_ok sel c" "c_index c = i"
    "sel = (w_selector w)(i := sel i)" "tally_ok st"
  shows "worker_ok clients \<lparr>w_tick = t, w_selector = sel, w_clients = (w_clients w)(i := c), w_state = st\<rparr>"
proof -
  have other: "sel j = w_selector w j" if "j \<noteq> i" for j using assms(5) that by (metis fun_upd_other)
  have "client_ok sel (w_clients w j)" if "j \<in> set clients" "j \<noteq> i" for j
    using assms(1) that other[of j] by (auto simp: worker_ok_def client_ok_def)
  moreover have "j \<in> set clients" if "sel j \<noteq> None" for j
    using assms(1,2) other[of j] that by (cases "j = i") (auto simp: worker_ok_def)
  ultimately show ?thesis using assms by (auto simp: worker_ok_def)
qed

lemma worker_okD:
  assumes "worker_ok clients w" "i \<in> set clients"
  shows "c_index (w_clients w i) = i" "client_ok (w_selector w) (w_clients w i)"
  using assms by (simp_all add: worker_ok_def)

section \<open>Servicing\<close>

lemma read_event_ok:
  assumes "read_event env ph i now_ns ready_ns w = Inr w'" "worker_ok clients w" "distinct clients"
    "i \<in> set clients" "\<not> c_closed (w_clients w i)"
  shows "serviced ph clients w w'"
proof -
  obtain t' sel' c' st' where r: "process_client_read (monotonic_ns env) ph now_ns (Some ready_ns)
      (w_tick w, w_selector w, w_clients w i, w_state w) = Inr (t', sel', c', st')"
    and w': "w' = \<lparr>w_tick = t', w_selector = sel', w_clients = (w_clients w)(i := c'), w_state = st'\<rparr>"
    using assms(1) by (auto simp: read_event_def exn_simps)
  note ok = worker_okD[OF assms(2,4)]
  note rd = read_ok[OF r ok(2) assms(5)]
  have "worker_ok clients w'"
    unfolding w' using worker_ok_upd[OF assms(2,4) rd(1)] rd(2,3,10) ok(1) assms(2) by (simp add: worker_ok_def)
  moreover have "outstanding clients w' =
      outstanding clients w - int (length (c_pending (w_clients w i))) + int (length (c_pending c'))"
    by (rule outstanding_upd[OF assms(3,4)]) (simp add: w')
  ultimately show ?thesis using rd(5-9) read_tick[OF r ok(2)] by (auto simp: serviced_def w')
qed

lemma write_event_ok:
  assumes "write_event i w = Inr w'" "worker_ok clients w" "distinct clients" "i \<in> set clients"
  shows "serviced ph clients w w'"
proof (cases "c_closed (w_clients w i)")
  case True
  then show ?thesis using assms by (simp add: write_event_def serviced_refl)
next
  case False
  then obtain sel' c' st' where f: "flush_client_send (w_selector w) (w_clients w i) (w_state w) = Inr (sel', c', st')"
    and w': "w' = \<lparr>w_tick = w_tick w, w_selector = sel', w_clients = (w_clients w)(i := c'), w_state = st'\<rparr>"
    using assms(1) by (auto simp: write_event_def exn_simps)
  note ok = worker_okD[OF assms(2,4)]
  have b: "length (c_send_buffer (w_clients w i)) \<le> MAX_CLIENT_SEND_QUEUE"
    "CHR 0x0A \<notin> set (c_buffer (w_clients w i))" using ok(2) by (simp_all add: client_ok_def)
  note fl = flush_client_ok[OF f False b] flush_ok[OF f]
  have "worker_ok clients w'"
    unfolding w' by (rule worker_ok_upd[OF assms(2,4) fl(1)]) (use fl ok(1) assms(2) in \<open>auto simp: worker_ok_def\<close>)
  moreover have "outstanding clients w' =
      outstanding clients w - int (length (c_pending (w_clients w i))) + int (length (c_pending c'))"
    by (rule outstanding_upd[OF assms(3,4)]) (simp add: w')
  ultimately show ?thesis using fl(4,9-) by (simp add: serviced_def w' fl(6-8))
qed

lemma service_event_ok:
  assumes "service_event env ph ready_ns e w = Inr w'" "worker_ok clients w" "distinct clients" "fst e \<in> set clients"
  shows "serviced ph clients w w'"
proof -
  obtain i r wr where e: "e = (i, r, wr)" by (cases e)
  show ?thesis
  proof (cases "c_closed (w_clients w i)")
    case True
    then show ?thesis using assms(1,2) e by (simp add: service_event_def serviced_refl)
  next
    case False
    then obtain w2 where w2: "(if r then read_event env ph i (now_of env w) ready_ns (observe w) else Inr (observe w)) = Inr w2"
      and w': "(if wr then write_event i w2 else Inr w2) = Inr w'"
      using assms(1) by (auto simp: service_event_def e Let_def exn_simps simp flip: observe_def)
    have "serviced ph clients (observe w) w2"
      using w2 read_event_ok[of env ph i _ ready_ns "observe w" w2 clients] assms(2-4) False e
      by (auto simp: serviced_refl split: if_splits)
    moreover from this have "worker_ok clients w2" by (simp add: serviced_def)
    then have "serviced ph clients w2 w'"
      using w' write_event_ok[of i w2 w' clients ph] assms(3,4) e by (auto simp: serviced_refl split: if_splits)
    ultimately show ?thesis by (blast intro: serviced_trans serviced_observe)
  qed
qed

lemma select_events_registered: "e \<in> set (select_events sel raw) \<Longrightarrow> sel (fst e) \<noteq> None"
  by (induction raw) (auto simp: select_events_def List.map_filter_def split: option.splits if_splits)

lemma service_events_ok:
  assumes "service_events env ph timeout (cursor, w) = Inr (cursor', w')" "worker_ok clients w" "distinct clients"
  shows "serviced ph clients w w'" "w_tick w < w_tick w'"
proof -
  let ?w1 = "observe (observe w)"
  obtain events where ev: "set events = set (select_events (w_selector w) (readiness env (w_tick w) timeout))"
    and loop: "for_each events (service_event env ph (monotonic_ns env (Suc (w_tick w)))) ?w1 = Inr w'"
    using assms(1) set_rotate_ready[of "select_events (w_selector w) (readiness env (w_tick w) timeout)" cursor]
    by (auto simp: service_events_def observe_def exn_simps split: prod.splits)
  have "fst e \<in> set clients" if "e \<in> set events" for e
    using select_events_registered that ev assms(2) by (auto simp: worker_ok_def)
  then have "serviced ph clients ?w1 w'"
    using for_each_invariant[OF loop, where P = "serviced ph clients ?w1"] assms(2,3) service_event_ok
    by (metis (no_types, lifting) serviced_def serviced_refl serviced_trans worker_ok_observe)
  then show "serviced ph clients w w'" "w_tick w < w_tick w'"
    using serviced_observe by (blast, auto simp: serviced_def)
qed

section \<open>Accounting for the offers\<close>

text \<open>How many offers follow from one scheduled entry: itself and every \<open>n\<close>-th one below the target.\<close>

definition offers_from :: "phase \<Rightarrow> int \<Rightarrow> int \<Rightarrow> int" where
  "offers_from ph target_offers seqno =
     1 + (target_offers - 1 - seqno) div int (length (ph_active_indices ph))"

abbreviation scheduled_offers :: "phase \<Rightarrow> int \<Rightarrow> offer list \<Rightarrow> int" where
  "scheduled_offers ph target_offers schedule \<equiv>
     (\<Sum>x\<in>#mset schedule. offers_from ph target_offers (sequence x))"

lemma offers_from_nonneg: "s < target \<Longrightarrow> 0 \<le> offers_from ph target s"
  by (cases "ph_active_indices ph = []") (simp_all add: offers_from_def pos_imp_zdiv_nonneg_iff)

lemma offers_from_next:
  assumes "ph_active_indices ph \<noteq> []" "s < target"
  shows "offers_from ph target s = 1 + (let s' = s + int (length (ph_active_indices ph)) in
    if s' < target then offers_from ph target s' else 0)"
proof -
  let ?n = "int (length (ph_active_indices ph))"
  have n: "0 < ?n" using assms(1) by simp
  show ?thesis
  proof (cases "s + ?n < target")
    case True
    have "(target - 1 - s) div ?n = (target - 1 - (s + ?n) + ?n) div ?n"
      by (rule arg_cong[where f = "\<lambda>x. x div ?n"]) simp
    also have "\<dots> = (target - 1 - (s + ?n)) div ?n + 1" using n by (subst div_add_self2) auto
    finally show ?thesis using True by (simp add: offers_from_def Let_def)
  next
    case False
    then have "(target - 1 - s) div ?n = 0" using assms(2) by (intro div_pos_pos_trivial) auto
    then show ?thesis using False by (simp add: offers_from_def Let_def)
  qed
qed

text \<open>The invariant of the sending loop; \<open>goal\<close> is the number of offers the worker has to account for.\<close>

definition sending_ok :: "phase \<Rightarrow> int list \<Rightarrow> int \<Rightarrow> int \<Rightarrow> worker \<Rightarrow> offer list \<Rightarrow> bool" where
  "sending_ok ph clients target_offers goal w schedule \<longleftrightarrow>
     worker_ok clients w \<and> is_heap schedule \<and>
     (\<forall>x\<in>set schedule. snd x \<in> set clients \<and> sequence x < target_offers) \<and>
     0 \<le> sent_operations (w_state w) \<and> 0 \<le> missed_offers (w_state w) \<and>
     offered_operations (w_state w) = sent_operations (w_state w) + missed_offers (w_state w) \<and>
     offered_operations (w_state w) + scheduled_offers ph target_offers schedule = goal \<and>
     (ph_workload ph = ''direct'' \<longrightarrow>
        outstanding clients w + eventual_completions (w_state w) = sent_operations (w_state w))"

lemma sending_ok_serviced:
  assumes "sending_ok ph clients target goal w schedule" "serviced ph clients w w'"
  shows "sending_ok ph clients target goal w' schedule"
  using assms by (auto simp: sending_ok_def serviced_def)

lemma sending_ok_observe [simp]:
  "sending_ok ph clients target goal (observe w) schedule = sending_ok ph clients target goal w schedule"
  by (simp add: sending_ok_def)

text \<open>Rescheduling replaces the harvested offer by its successor.\<close>

definition reschedule :: "phase \<Rightarrow> int \<Rightarrow> int \<Rightarrow> harvested \<Rightarrow> offer list \<Rightarrow> offer list" where
  "reschedule ph target_offers period_per_client_ns x schedule =
     (case x of (scheduled, missed, seqno, i) \<Rightarrow>
        let next_sequence = seqno + int (length (ph_active_indices ph))
        in if next_sequence < target_offers
           then heappush schedule ((scheduled + period_per_client_ns, next_sequence), i) else schedule)"

lemma reschedule_ok:
  assumes "ph_active_indices ph \<noteq> []" "seqno < target"
  shows "scheduled_offers ph target (reschedule ph target period (t, m, seqno, i) schedule) + 1 =
      scheduled_offers ph target schedule + offers_from ph target seqno"
    "is_heap schedule \<Longrightarrow> is_heap (reschedule ph target period (t, m, seqno, i) schedule)"
    "x \<in> set (reschedule ph target period (t, m, seqno, i) schedule) \<Longrightarrow>
      x \<in> set schedule \<or> snd x = i \<and> sequence x < target"
  using offers_from_next[OF assms] mset_heappush[of schedule]
  by (auto simp: reschedule_def Let_def heap_heappush set_mset_mset[symmetric] simp del: set_mset_mset split: if_splits)

lemma offer_one_ok:
  assumes "offer_one env ph target period now_ns (scheduled, missed, seqno, i) (w, schedule) = Inr (w', schedule')"
    "sending_ok ph clients target goal w schedule" "distinct clients" "ph_active_indices ph \<noteq> []"
    "i \<in> set clients" "seqno < target"
  shows "sending_ok ph clients target (goal + offers_from ph target seqno) w' schedule'" "w_tick w \<le> w_tick w'"
proof -
  have ok: "worker_ok clients w" using assms(2) by (simp add: sending_ok_def)
  note c = worker_okD[OF ok assms(5)]
  note rs = reschedule_ok[OF assms(4,6), where period = period and t = scheduled and m = missed and i = i and schedule = schedule]
  obtain lag where lag: "int_div (now_ns - scheduled) 1000000 = Inr lag"
    using assms(1) by (auto simp: offer_one_def exn_simps)
  define st where "st = (w_state w)\<lparr>offered_operations := offered_operations (w_state w) + 1,
    scheduling_lag_ms := scheduling_lag_ms (w_state w) @ [py_max (Fin 0) lag]\<rparr>"
  have sched: "\<forall>x\<in>set (reschedule ph target period (scheduled, missed, seqno, i) schedule).
      snd x \<in> set clients \<and> sequence x < target"
    using rs(3) assms(2,5) by (auto simp: sending_ok_def)
  have "sending_ok ph clients target (goal + offers_from ph target seqno) w' schedule' \<and> w_tick w \<le> w_tick w'"
  proof (cases "missed \<or> c_closed (w_clients w i)")
    case True
    then have w': "w' = w\<lparr>w_state := count_missed st\<rparr>"
      and s': "schedule' = reschedule ph target period (scheduled, missed, seqno, i) schedule"
      using assms(1) by (auto simp: offer_one_def lag st_def Let_def reschedule_def)
    have "worker_ok clients w'" using ok by (simp add: worker_ok_def w' st_def count_missed_def tally_ok_def)
    moreover have "outstanding clients w' = outstanding clients w" by (simp add: w' outstanding_def)
    ultimately show ?thesis using assms(2) rs(1,2) sched
      by (simp add: sending_ok_def s') (simp add: w' st_def count_missed_def)
  next
    case False
    then obtain ok' sel c' st' where
      q: "queue_client_frame (w_selector w) (w_clients w i) (offer_frame ph (c_index (w_clients w i)) seqno (now_of env w))
        (now_of env w) (ph_workload ph) st = Inr (ok', sel, c', st')"
      and w': "w' = \<lparr>w_tick = Suc (w_tick w), w_selector = sel, w_clients = (w_clients w)(i := c'),
        w_state = (if ok' then st' else count_missed st')\<rparr>"
      and s': "schedule' = reschedule ph target period (scheduled, missed, seqno, i) schedule"
      using assms(1) by (auto simp: offer_one_def lag st_def Let_def reschedule_def exn_simps)
    note qo = queue_ok[OF q c(2)]
    have closed: "\<not> c_closed (w_clients w i)" using False by simp
    have t: "tally_ok (w_state w')" using qo(3)[OF closed] ok
      by (simp add: w' worker_ok_def tally_ok_def count_missed_def st_def)
    have "worker_ok clients w'"
      using worker_ok_upd[OF ok assms(5) qo(1)[OF closed] _ _ t, of "w_tick w'"] qo(2,11)[OF closed] c(1) w' by simp
    moreover have "outstanding clients w' =
        outstanding clients w - int (length (c_pending (w_clients w i))) + int (length (c_pending c'))"
      by (rule outstanding_upd[OF assms(3,5)]) (simp add: w')
    moreover have "offered_operations (w_state w') = offered_operations (w_state w) + 1"
      "sent_operations (w_state w') = sent_operations (w_state w) + (if ok' then 1 else 0)"
      "missed_offers (w_state w') = missed_offers (w_state w) + (if ok' then 0 else 1)"
      "eventual_completions (w_state w') = eventual_completions (w_state w)"
      "w_tick w \<le> w_tick w'"
      using qo(6-9)[OF closed] by (simp_all add: w' st_def count_missed_def)
    ultimately show ?thesis using assms(2) rs(1,2) sched qo(10)[OF closed] by (auto simp: sending_ok_def s')
  qed
  then show "sending_ok ph clients target (goal + offers_from ph target seqno) w' schedule'" "w_tick w \<le> w_tick w'"
    by blast+
qed

text \<open>A whole batch.\<close>

lemma offers_ok:
  assumes "for_each ready (offer_one env ph target period now_ns) (w, schedule) = Inr (w', schedule')"
    "sending_ok ph clients target goal w schedule" "distinct clients" "ph_active_indices ph \<noteq> []"
    "\<forall>(t, m, seqno, i)\<in>set ready. i \<in> set clients \<and> seqno < target"
  shows "sending_ok ph clients target (goal + (\<Sum>(t, m, seqno, i)\<leftarrow>ready. offers_from ph target seqno)) w' schedule' \<and>
    w_tick w \<le> w_tick w'"
  using assms
proof (induction ready arbitrary: w schedule goal)
  case Nil
  then show ?case by simp
next
  case (Cons x ready)
  obtain t m seqno i where x: "x = (t, m, seqno, i)" by (cases x)
  obtain w1 s1 where one: "offer_one env ph target period now_ns x (w, schedule) = Inr (w1, s1)"
    and rest: "for_each ready (offer_one env ph target period now_ns) (w1, s1) = Inr (w', schedule')"
    using Cons.prems(1) by (auto simp: exn_simps)
  have "sending_ok ph clients target (goal + offers_from ph target seqno) w1 s1" "w_tick w \<le> w_tick w1"
    using offer_one_ok[OF one[unfolded x] Cons.prems(2-4)] Cons.prems(5) x by auto
  with Cons.IH[OF rest this(1) Cons.prems(3,4)] Cons.prems(5) x show ?case by (auto simp: add.assoc)
qed

lemma due_offers_split:
  assumes "due_offers schedule now_ns max_count max_lag_ns = (ready, rest)" "sending_ok ph clients target goal w schedule"
  shows "sending_ok ph clients target (goal - (\<Sum>(t, m, seqno, i)\<leftarrow>ready. offers_from ph target seqno)) w rest"
    "\<forall>(t, m, seqno, i)\<in>set ready. i \<in> set clients \<and> seqno < target"
proof -
  obtain xs where d: "drain heappop (\<lambda>x. scheduled_ns x \<le> now_ns) (nat max_count) schedule = (xs, rest)"
    and ready: "ready = map (harvest now_ns max_lag_ns) xs"
    using assms(1) by (rule due_offers_drain)
  have split: "mset schedule = mset xs + mset rest" using hq.drain_items[OF d] assms(2) by (simp add: sending_ok_def)
  then have sets: "set schedule = set xs \<union> set rest" by (metis set_mset_mset set_mset_union)
  have "(\<Sum>(t, m, seqno, i)\<leftarrow>ready. offers_from ph target seqno) = (\<Sum>x\<in>#mset xs. offers_from ph target (sequence x))"
    by (simp add: ready harvest_def comp_def flip: sum_mset_sum_list)
  then show "sending_ok ph clients target (goal - (\<Sum>(t, m, seqno, i)\<leftarrow>ready. offers_from ph target seqno)) w rest"
    using assms(2) hq.drain_wf[OF d] split sets by (auto simp: sending_ok_def)
  show "\<forall>(t, m, seqno, i)\<in>set ready. i \<in> set clients \<and> seqno < target"
    using assms(2) sets by (auto simp: sending_ok_def ready harvest_def)
qed

definition sending_state :: "phase \<Rightarrow> int list \<Rightarrow> int \<Rightarrow> int \<Rightarrow> int \<times> worker \<times> offer list \<Rightarrow> bool" where
  "sending_state ph clients target_offers goal s =
     (case s of (cursor, w, schedule) \<Rightarrow> sending_ok ph clients target_offers goal w schedule)"

lemma send_body_go:
  assumes "send_body env ph target period (cursor, w, schedule) = Inr (Inl (cursor', w', schedule'))"
    "sending_ok ph clients target goal w schedule" "distinct clients" "ph_active_indices ph \<noteq> []"
  shows "sending_ok ph clients target goal w' schedule' \<and> w_tick w < w_tick w' \<and> now_of env w < ph_deadline_ns ph"
proof -
  let ?now = "monotonic_ns env (Suc (w_tick w))" and ?w1 = "observe (observe w)"
  have before: "now_of env w < ph_deadline_ns ph" using assms(1) by (auto simp: send_body_def Let_def split: if_splits)
  obtain lag where lag: "to_py_int (fmul (ph_max_offer_lag_ms ph) (Fin 1000000)) = Inr lag"
    using assms(1) before
    by (cases "to_py_int (fmul (ph_max_offer_lag_ms ph) (Fin 1000000))") (simp_all add: send_body_def Let_def)
  obtain ready rest where d: "due_offers schedule ?now (ph_max_overdue_sends ph) lag = (ready, rest)"
    by (cases "due_offers schedule ?now (ph_max_overdue_sends ph) lag")
  obtain w2 where f: "for_each ready (offer_one env ph target period ?now) (?w1, rest) = Inr (w2, schedule')"
    and s: "\<exists>timeout. service_events env ph timeout (cursor, observe w2) = Inr (cursor', w')"
    using assms(1) before by (auto simp: send_body_def lag d exn_simps Let_def)
  have "sending_ok ph clients target goal ?w1 schedule" using assms(2) by simp
  note sp = due_offers_split[OF d this]
  have w2: "sending_ok ph clients target goal w2 schedule'" "w_tick ?w1 \<le> w_tick w2"
    using offers_ok[OF f sp(1) assms(3,4) sp(2)] by simp_all
  then have "worker_ok clients (observe w2)" by (simp add: sending_ok_def)
  with s obtain timeout where "service_events env ph timeout (cursor, observe w2) = Inr (cursor', w')" by blast
  note se = service_events_ok[OF this \<open>worker_ok clients (observe w2)\<close> assms(3)]
  have "sending_ok ph clients target goal w' schedule'"
    by (rule sending_ok_serviced[OF _ se(1)]) (simp add: w2)
  then show ?thesis using before w2(2) se(2) by simp
qed

lemma send_body_stop:
  assumes "send_body env ph target period (cursor, w, schedule) = Inr (Inr (cursor', w', schedule'))"
  shows "w' = observe w \<and> schedule' = schedule \<and> cursor' = cursor"
  using assms by (auto simp: send_body_def Let_def exn_simps split: if_splits prod.splits)

lemma send_loop_ok:
  assumes "loop fuel (send_body env ph target period) (cursor, w, schedule) = Some (Inr (cursor', w', schedule'))"
    "sending_ok ph clients target goal w schedule" "distinct clients" "ph_active_indices ph \<noteq> []"
  shows "sending_ok ph clients target goal w' schedule'"
proof -
  have "sending_state ph clients target goal (cursor', w', schedule')"
  proof (rule loop_invariant[OF assms(1), where P = "sending_state ph clients target goal"])
    show "sending_state ph clients target goal (cursor, w, schedule)" using assms(2) by (simp add: sending_state_def)
    show "sending_state ph clients target goal s'"
      if "sending_state ph clients target goal s" "send_body env ph target period s = Inr (Inl s')" for s s'
      using that send_body_go[OF _ _ assms(3,4)] by (cases s; cases s') (auto simp: sending_state_def)
    show "sending_state ph clients target goal s'"
      if "sending_state ph clients target goal s" "send_body env ph target period s = Inr (Inr s')" for s s'
      using that by (cases s; cases s') (auto simp: sending_state_def dest!: send_body_stop)
  qed
  then show ?thesis by (simp add: sending_state_def)
qed

section \<open>The other stages\<close>

lemma wait_body_go:
  assumes "wait_body env ph (cursor, w) = Inr (Inl (cursor', w'))" "worker_ok clients w" "distinct clients"
  shows "serviced ph clients w w' \<and> w_tick w < w_tick w' \<and> now_of env w < ph_start_ns ph"
proof -
  have before: "now_of env w < ph_start_ns ph" using assms(1) by (auto simp: wait_body_def Let_def split: if_splits)
  with assms(1) obtain timeout where
    s: "service_events env ph timeout (cursor, observe (observe w)) = Inr (cursor', w')"
    by (auto simp: wait_body_def Let_def exn_simps)
  have "worker_ok clients (observe (observe w))" using assms(2) by simp
  note se = service_events_ok[OF s this assms(3)]
  show ?thesis using before serviced_observe[OF serviced_observe[OF se(1)]] se(2) by simp
qed

lemma wait_body_stop:
  "wait_body env ph (cursor, w) = Inr (Inr (cursor', w')) \<Longrightarrow> cursor' = cursor \<and> w' = observe w"
  by (auto simp: wait_body_def Let_def exn_simps split: if_splits)

lemma wait_loop_ok:
  assumes "loop fuel (wait_body env ph) (cursor, w) = Some (Inr (cursor', w'))" "worker_ok clients w" "distinct clients"
  shows "serviced ph clients w w'"
proof -
  have "serviced ph clients w (snd (cursor', w'))"
  proof (rule loop_invariant[OF assms(1), where P = "\<lambda>s. serviced ph clients w (snd s)"])
    show "serviced ph clients w (snd (cursor, w))" using assms(2) by (simp add: serviced_refl)
    have wok: "worker_ok clients v" if "serviced ph clients w v" for v using that by (simp add: serviced_def)
    show "serviced ph clients w (snd s')"
      if "serviced ph clients w (snd s)" "wait_body env ph s = Inr (Inl s')" for s s'
      using that wait_body_go[of env ph "fst s" "snd s" "fst s'" "snd s'" clients] assms(3) wok
      by (auto intro: serviced_trans)
    show "serviced ph clients w (snd s')"
      if "serviced ph clients w (snd s)" "wait_body env ph s = Inr (Inr s')" for s s'
      using that wait_body_stop[of env ph "fst s" "snd s" "fst s'" "snd s'"] by (auto simp: serviced_def)
  qed
  then show ?thesis by simp
qed

lemma drain_body_ok:
  assumes "drain_body env ph clients dl (cursor, w, quiet, prev) = Inr r" "worker_ok clients w" "distinct clients"
  shows "case r of Inl (cursor', w', quiet', prev') \<Rightarrow> serviced ph clients w w' \<and> w_tick w < w_tick w' \<and>
      flt (seconds_of env w) dl
    | Inr w' \<Rightarrow> serviced ph clients w w'"
proof (cases "flt (seconds_of env w) dl")
  case False
  then show ?thesis using assms(1,2) by (auto simp: drain_body_def serviced_def)
next
  case True
  then obtain cursor' w2 where s: "service_events env ph (to_float (1 / 50)) (cursor, observe w) = Inr (cursor', w2)"
    using assms(1) by (auto simp: drain_body_def Let_def exn_simps)
  have "worker_ok clients (observe w)" using assms(2) by simp
  note se = service_events_ok[OF s this assms(3)]
  then have sv: "serviced ph clients w w2" "w_tick w < w_tick w2" using serviced_observe by auto
  have more: "serviced ph clients w (observe w2)" "serviced ph clients w (observe (observe w2))"
    using sv(1) by (auto simp: serviced_def)
  show ?thesis using assms(1) True sv more
    by (auto simp: drain_body_def s Let_def split: if_splits)
qed

lemma drain_loop_ok:
  assumes "loop fuel (drain_body env ph clients dl) (cursor, w, quiet, prev) = Some (Inr w')"
    "worker_ok clients w" "distinct clients"
  shows "serviced ph clients w w'"
proof (rule loop_invariant[OF assms(1), where P = "\<lambda>s. serviced ph clients w (fst (snd s))"])
  show "serviced ph clients w (fst (snd (cursor, w, quiet, prev)))" using assms(2) by (simp add: serviced_refl)
  have wok: "worker_ok clients v" if "serviced ph clients w v" for v using that by (simp add: serviced_def)
  show "serviced ph clients w (fst (snd s'))"
    if "serviced ph clients w (fst (snd s))" "drain_body env ph clients dl s = Inr (Inl s')" for s s'
    using that drain_body_ok[of env ph clients dl "fst s" "fst (snd s)" "fst (snd (snd s))" "snd (snd (snd s))" "Inl s'"]
      wok assms(3) by (cases s') (auto intro: serviced_trans)
  show "serviced ph clients w v"
    if "serviced ph clients w (fst (snd s))" "drain_body env ph clients dl s = Inr (Inr v)" for s v
    using that drain_body_ok[of env ph clients dl "fst s" "fst (snd s)" "fst (snd (snd s))" "snd (snd (snd s))" "Inr v"]
      wok assms(3) by (auto intro: serviced_trans)
qed

text \<open>The leftovers: what is accounted for, and what is scheduled past the deadline.\<close>

lemma leftovers_ok:
  assumes "for_each schedule (leftover ph target) st = Inr st'"
  shows "\<exists>k. st' = st\<lparr>offered_operations := offered_operations st + k, missed_offers := missed_offers st + k\<rparr> \<and>
    k + (\<Sum>x\<leftarrow>filter (\<lambda>x. ph_deadline_ns ph \<le> scheduled_ns x) schedule. offers_from ph target (sequence x)) =
      scheduled_offers ph target schedule \<and> ((\<forall>x\<in>set schedule. sequence x < target) \<longrightarrow> 0 \<le> k)"
  using assms
proof (induction schedule arbitrary: st)
  case Nil
  then show ?case by (intro exI[of _ 0]) simp
next
  case (Cons x schedule)
  then obtain st1 where one: "leftover ph target x st = Inr st1"
    and rest: "for_each schedule (leftover ph target) st1 = Inr st'" by (auto simp: exn_simps)
  obtain k where k: "st' = st1\<lparr>offered_operations := offered_operations st1 + k, missed_offers := missed_offers st1 + k\<rparr>"
    "k + (\<Sum>x\<leftarrow>filter (\<lambda>x. ph_deadline_ns ph \<le> scheduled_ns x) schedule. offers_from ph target (sequence x)) =
      scheduled_offers ph target schedule"
    and pos: "(\<forall>x\<in>set schedule. sequence x < target) \<longrightarrow> 0 \<le> k"
    using Cons.IH[OF rest] by blast
  show ?case
  proof (cases "ph_deadline_ns ph \<le> scheduled_ns x")
    case True
    then show ?thesis using one k pos by (intro exI[of _ k]) (auto simp: leftover_def)
  next
    case False
    then have "st1 = st\<lparr>offered_operations := offered_operations st + offers_from ph target (sequence x),
        missed_offers := missed_offers st + offers_from ph target (sequence x)\<rparr>"
      using one by (auto simp: leftover_def offers_from_def Let_def split: if_splits)
    then show ?thesis using False k pos offers_from_nonneg[of "sequence x" target ph]
      by (intro exI[of _ "offers_from ph target (sequence x) + k"]) (simp add: add.assoc)
  qed
qed

lemma mark_started_client:
  "\<exists>t'. mark_started clients t cs i = (cs i)\<lparr>c_last_read_service_ns := t'\<rparr>"
  unfolding mark_started_def
proof (induction clients arbitrary: cs)
  case Nil
  show ?case by (intro exI[of _ "c_last_read_service_ns (cs i)"]) simp
next
  case (Cons j clients)
  then obtain t' where "fold (\<lambda>i cs. cs(i := (cs i)\<lparr>c_last_read_service_ns := t\<rparr>)) clients
      (cs(j := (cs j)\<lparr>c_last_read_service_ns := t\<rparr>)) i =
      ((cs(j := (cs j)\<lparr>c_last_read_service_ns := t\<rparr>)) i)\<lparr>c_last_read_service_ns := t'\<rparr>" by blast
  then show ?case by (intro exI[of _ t'], cases "i = j") (simp_all del: fun_upd_apply add: fun_upd_same fun_upd_other)
qed

text \<open>The number of offers that a worker has to account for.\<close>

definition offers_due :: "phase \<Rightarrow> int \<Rightarrow> int list \<Rightarrow> int" where
  "offers_due ph target_offers clients =
     (\<Sum>x\<leftarrow>first_offers ph target_offers clients. offers_from ph target_offers (fst x))"

lemma begin_phase_ok:
  assumes "begin_phase env ph clients w = Inr (w', cpu, schedule, target, period)"
    "worker_ok clients w" "offered_operations (w_state w) = 0" "sent_operations (w_state w) = 0"
    "missed_offers (w_state w) = 0"
    "ph_workload ph = ''direct'' \<Longrightarrow> outstanding clients w + eventual_completions (w_state w) = 0"
  shows "sending_ok ph clients target (offers_due ph target clients) w' schedule \<and>
    to_py_int (fmul (ph_rate ph) (ph_duration ph)) = Inr target \<and> w_tick w \<le> w_tick w'"
proof -
  have sch: "schedule_for_clients clients ph = Inr (schedule, target)"
    using assms(1) by (auto simp: begin_phase_def Let_def exn_simps)
  obtain skew where w': "w' = observe ((observe w)\<lparr>w_state := (w_state w)\<lparr>start_skew_ms := skew\<rparr>,
      w_clients := mark_started clients (now_of env w) (w_clients w)\<rparr>)"
    using assms(1) by (auto simp: begin_phase_def Let_def exn_simps)
  note si = schedule_for_clients_Inr[OF sch]
  have cl: "\<exists>t'. w_clients w' i = (w_clients w i)\<lparr>c_last_read_service_ns := t'\<rparr>" for i
    using mark_started_client by (simp add: w')
  have same: "c_index (w_clients w' i) = c_index (w_clients w i)" "c_pending (w_clients w' i) = c_pending (w_clients w i)"
    "client_ok sel (w_clients w' i) = client_ok sel (w_clients w i)" for i sel
    using cl[of i] by (auto simp: client_ok_def)
  have "worker_ok clients w'" using assms(2) same by (simp add: worker_ok_def w' tally_ok_def)
  moreover have "outstanding clients w' = outstanding clients w" using same by (simp add: outstanding_def)
  moreover have ids: "offer_ids schedule = mset (first_offers ph target clients)" using si by blast
  then have "(\<Sum>y\<in>#offer_ids schedule. offers_from ph target (fst y)) = offers_due ph target clients"
    by (simp add: offers_due_def sum_mset_sum_list[symmetric])
  then have "scheduled_offers ph target schedule = offers_due ph target clients"
    by (simp add: multiset.map_comp comp_def)
  moreover have "snd x \<in> set clients \<and> sequence x < target" if "x \<in> set schedule" for x
  proof -
    have "(sequence x, snd x) \<in># offer_ids schedule" using that by auto
    then have "(sequence x, snd x) \<in> set (first_offers ph target clients)" by (simp add: ids)
    then show ?thesis by (simp add: first_offers_set)
  qed
  ultimately show ?thesis using si assms(3-6) by (simp add: sending_ok_def) (simp add: w')
qed

lemma andthen_Some:
  "andthen r f = Some (Inr y) \<longleftrightarrow> (\<exists>x. r = Some (Inr x) \<and> f x = Some (Inr y))"
  by (auto simp: andthen_def split: option.splits sum.splits)

lemma andthen_Inr: "andthen (Some (Inr x)) f = f x"
  by (simp add: andthen_def)

lemma worker_ok_fresh: "worker_ok clients w \<Longrightarrow> worker_ok clients (w\<lparr>w_state := empty_state wid\<rparr>)"
  by (simp add: worker_ok_def tally_ok_def empty_state_def)

text \<open>The balance at the end of a phase.\<close>

lemma run_phase_balance:
  assumes "run_phase fuel env clients ph wid w = Some (Inr w')"
    and "worker_ok clients w" "distinct clients" "ph_active_indices ph \<noteq> []"
    and "\<forall>i\<in>set clients. c_pending (w_clients w i) = []"
  shows "\<exists>target late. to_py_int (fmul (ph_rate ph) (ph_duration ph)) = Inr target \<and>
    offered_operations (w_state w') = sent_operations (w_state w') + missed_offers (w_state w') \<and>
    (\<forall>x\<in>set late. ph_deadline_ns ph \<le> scheduled_ns x) \<and>
    offered_operations (w_state w') + (\<Sum>x\<leftarrow>late. offers_from ph target (sequence x)) =
      offers_due ph target clients \<and>
    (ph_workload ph = ''direct'' \<longrightarrow>
      outstanding clients w' + eventual_completions (w_state w') = sent_operations (w_state w')) \<and>
    0 \<le> sent_operations (w_state w') \<and> 0 \<le> missed_offers (w_state w') \<and>
    worker_ok clients w'"
proof -
  let ?w0 = "w\<lparr>w_state := empty_state wid\<rparr>"
  obtain cursor w1 w2 cpu schedule target period cursor' w3 schedule' w4 quiet prev dl w5 where
    wait: "loop fuel (wait_body env ph) (0, ?w0) = Some (Inr (cursor, w1))"
    and start: "begin_phase env ph clients w1 = Inr (w2, cpu, schedule, target, period)"
    and send: "loop fuel (send_body env ph target period) (cursor, w2, schedule) = Some (Inr (cursor', w3, schedule'))"
    and fin: "end_sending env ph target cpu w3 schedule' = Inr w4"
    and w5: "w5 = observe (observe w4)"
    and drain: "loop fuel (drain_body env ph clients dl) (cursor', w5, quiet, prev) = Some (Inr w')"
    using assms(1) by (auto simp: run_phase_def drain_phase_def andthen_Some Let_def)
  have w0: "worker_ok clients ?w0" by (rule worker_ok_fresh[OF assms(2)])
  have "outstanding clients ?w0 = 0"
    using assms(5) by (simp add: outstanding_def cong: map_cong)
  then have s1: "sending_ok ph clients target (offers_due ph target clients) w2 schedule"
    and target: "to_py_int (fmul (ph_rate ph) (ph_duration ph)) = Inr target"
    using begin_phase_ok[OF start] wait_loop_ok[OF wait w0 assms(3)] by (auto simp: serviced_def empty_state_def)
  have s2: "sending_ok ph clients target (offers_due ph target clients) w3 schedule'"
    by (rule send_loop_ok[OF send s1 assms(3,4)])
  obtain st4 where lo: "for_each schedule' (leftover ph target) (w_state w3) = Inr st4"
    and w4: "\<exists>c. w4 = (observe w3)\<lparr>w_state := st4\<lparr>generator_cpu_seconds := c\<rparr>\<rparr>"
    using fin by (auto simp: end_sending_def exn_simps)
  define late where "late = filter (\<lambda>x. ph_deadline_ns ph \<le> scheduled_ns x) schedule'"
  obtain k where st4: "st4 = (w_state w3)\<lparr>offered_operations := offered_operations (w_state w3) + k,
      missed_offers := missed_offers (w_state w3) + k\<rparr>"
    and k: "k + (\<Sum>x\<leftarrow>late. offers_from ph target (sequence x)) = scheduled_offers ph target schedule'" "0 \<le> k"
    using leftovers_ok[OF lo] s2 unfolding sending_ok_def late_def by blast
  have "worker_ok clients w5"
    using w4 s2 by (auto simp: w5 st4 sending_ok_def worker_ok_def tally_ok_def)
  then have sv: "serviced ph clients w5 w'" by (rule drain_loop_ok[OF drain _ assms(3)])
  have w5s: "offered_operations (w_state w5) = offered_operations (w_state w3) + k"
    "missed_offers (w_state w5) = missed_offers (w_state w3) + k"
    "sent_operations (w_state w5) = sent_operations (w_state w3)"
    "eventual_completions (w_state w5) = eventual_completions (w_state w3)"
    "outstanding clients w5 = outstanding clients w3"
    using w4 by (auto simp: w5 st4 outstanding_def)
  have "\<forall>x\<in>set late. ph_deadline_ns ph \<le> scheduled_ns x" by (simp add: late_def)
  then show ?thesis
    using s2 sv w5s k target by (intro exI[of _ target] exI[of _ late]) (auto simp: sending_ok_def serviced_def)
qed


text \<open>
  Two clients, one request each; the clock jumps to the second one's time and then past the
  deadline, so that one request is sent and one is missed.
\<close>

definition sample_env :: env where
  "sample_env =
     \<lparr> monotonic_ns = (\<lambda>k. if k < 6 then 0 else if k < 9 then 500000000 else 1000000000),
       monotonic = (\<lambda>k. if k < 12 then Fin 0 else Fin 2), process_time = (\<lambda>k. Fin 0),
       readiness = (\<lambda>k timeout. []) \<rparr>"

definition short_phase :: phase where
  "short_phase = sample_phase\<lparr>ph_total_connections := 2, ph_active_indices := [0, 1], ph_duration := Fin 1,
     ph_start_ns := 0, ph_deadline_ns := 1000000000\<rparr>"

definition sample_worker :: worker where
  "sample_worker = \<lparr> w_tick = 0, w_selector = [0 \<mapsto> False, 1 \<mapsto> False],
     w_clients = (\<lambda>i. new_client i True [] [Sent 6]), w_state = empty_state 0 \<rparr>"

lemma sample_begin:
  "begin_phase sample_env short_phase [0, 1] (observe sample_worker) =
     Inr ((observe (observe (observe sample_worker)))\<lparr>w_state := (empty_state 0)\<lparr>start_skew_ms := Fin 0\<rparr>,
        w_clients := mark_started [0, 1] 0 (w_clients sample_worker)\<rparr>,
       Fin 0, [((0, 0), 0), ((500000000, 1), 1)], 2, 1000000000)"
  by (simp add: begin_phase_def sample_env_def short_phase_def sample_phase_def sample_worker_def observe_def
      schedule_for_clients_def schedule_client_def active_position_def heappush_def sift_down.simps parent_def
      float_simps int_div_def Let_def)

lemma sample_wait:
  "loop (Suc (Suc 0)) (wait_body sample_env short_phase) (0, sample_worker\<lparr>w_state := empty_state 0\<rparr>) =
     Some (Inr (0, observe sample_worker))"
  by (simp add: wait_body_def sample_env_def short_phase_def sample_worker_def observe_def)

lemma to_float_half: "to_float (1 / 2) = Fin (1 / 2)"
  using representableI[of 1 "- 1"] by (intro to_float_fixed) (simp_all add: power_int_def)

lemma sample_send:
  "\<exists>w. loop (Suc (Suc 0)) (send_body sample_env short_phase 2 1000000000)
     (0, (observe (observe (observe sample_worker)))\<lparr>w_state := (empty_state 0)\<lparr>start_skew_ms := Fin 0\<rparr>,
        w_clients := mark_started [0, 1] 0 (w_clients sample_worker)\<rparr>, [((0, 0), 0), ((500000000, 1), 1)]) =
     Some (Inr (0, w, [((500000000, 1), 1)])) \<and>
   w_tick w = 10 \<and> offered_operations (w_state w) = 1 \<and> sent_operations (w_state w) = 1 \<and>
   missed_offers (w_state w) = 0"
proof -
  have due: "due_offers [((0, 0), 0), ((500000000, 1), 1)] 0 32 20000000 = ([(0, False, 0, 0)], [((500000000, 1), 1)])"
    by code_simp
  show ?thesis
    by (simp add: send_body_def sample_env_def short_phase_def sample_phase_def sample_worker_def observe_def Let_def due
      to_float_half float_simps int_div_def offer_one_def mark_started_def new_client_def empty_state_def queue_client_frame_def
      offer_frame_def MAX_CLIENT_SEND_QUEUE_def flush_client_send_def flush_loop.simps sock_send_def update_interest_def
      service_events_def select_events_def List.map_filter_def rotate_ready_def)
qed

lemma sample_run:
  "\<exists>w. run_phase (Suc (Suc 0)) sample_env [0, 1] short_phase 0 sample_worker = Some (Inr w) \<and>
     offered_operations (w_state w) = 2 \<and> sent_operations (w_state w) = 1 \<and> missed_offers (w_state w) = 1"
proof -
  obtain w where send: "loop (Suc (Suc 0)) (send_body sample_env short_phase 2 1000000000)
      (0, (observe (observe (observe sample_worker)))\<lparr>w_state := (empty_state 0)\<lparr>start_skew_ms := Fin 0\<rparr>,
        w_clients := mark_started [0, 1] 0 (w_clients sample_worker)\<rparr>, [((0, 0), 0), ((500000000, 1), 1)]) =
      Some (Inr (0, w, [((500000000, 1), 1)]))"
    and w: "w_tick w = 10" "offered_operations (w_state w) = 1" "sent_operations (w_state w) = 1"
      "missed_offers (w_state w) = 0"
    using sample_send by blast
  define st where "st = (w_state w)\<lparr>offered_operations := 2, missed_offers := 1, generator_cpu_seconds := Fin 0\<rparr>"
  have fin: "end_sending sample_env short_phase 2 (Fin 0) w [((500000000, 1), 1)] = Inr ((observe w)\<lparr>w_state := st\<rparr>)"
    using w by (simp add: end_sending_def leftover_def short_phase_def sample_phase_def sample_env_def fsub_def st_def)
  define dl where "dl = fadd (seconds_of sample_env ((observe w)\<lparr>w_state := st\<rparr>)) (ph_drain short_phase)"
  have dl: "dl = Fin 1"
    using w by (simp add: dl_def sample_env_def short_phase_def sample_phase_def)
  define w5 where "w5 = observe (observe ((observe w)\<lparr>w_state := st\<rparr>))"
  have w5: "w_tick w5 = 13" "w_state w5 = st" using w by (simp_all add: w5_def)
  have stop: "drain_body sample_env short_phase [0, 1] dl (0, w5, q, p) = Inr (Inr (observe w5))" for q p
    using w5 by (simp add: drain_body_def sample_env_def dl)
  have "run_phase (Suc (Suc 0)) sample_env [0, 1] short_phase 0 sample_worker = Some (Inr (observe w5))"
    by (simp only: run_phase_def drain_phase_def sample_wait andthen_Inr prod.case sample_begin send fin Let_def
      dl_def[symmetric] w5_def[symmetric]) (simp add: stop)
  then show ?thesis using w5 w by (simp add: st_def)
qed


end
