(* ===== verification/Worker_Progress.thy ===== *)
theory Worker_Progress
  imports Worker_Phase
begin

text \<open>
  That a phase ends, and how it may fail: \<^verbatim>\<open>run_phase\<close> returns once the clocks have passed its
  times, and the only exceptions it lets through are those of arithmetic on its parameters; no
  look-up of the selector or of the schedule fails.
\<close>

section \<open>Exceptions of arithmetic\<close>

definition arithmetic_exn :: "py_exn \<Rightarrow> bool" where
  "arithmetic_exn e \<longleftrightarrow> e = ZeroDivisionError \<or> e = OverflowError \<or> e = ValueError"

named_theorems raise_dest \<open>what a raising operation raises\<close>

lemma float_raise [raise_dest]:
  "int_div a b = Inl e \<Longrightarrow> arithmetic_exn e" "of_py_int a = Inl e \<Longrightarrow> arithmetic_exn e"
  "to_py_int x = Inl e \<Longrightarrow> arithmetic_exn e" "fdiv x y = Inl e \<Longrightarrow> arithmetic_exn e"
proof -
  show "int_div a b = Inl e \<Longrightarrow> arithmetic_exn e" "of_py_int a = Inl e \<Longrightarrow> arithmetic_exn e"
    by (auto simp: int_div_def of_py_int_def arithmetic_exn_def split: pyfloat.splits if_splits)
  show "to_py_int x = Inl e \<Longrightarrow> arithmetic_exn e"
    by (cases x) (auto simp: arithmetic_exn_def)
  show "fdiv x y = Inl e \<Longrightarrow> arithmetic_exn e"
    by (cases x; cases y) (auto simp: arithmetic_exn_def split: if_splits)
qed

lemma handle_line_raise [raise_dest]: "handle_line ph line t c st = Inl e \<Longrightarrow> arithmetic_exn e"
  by (auto simp: handle_line_def Let_def handle_direct_def handle_broadcast_def seq_Inl_iff arithmetic_exn_def
      dest: float_raise(1)[unfolded arithmetic_exn_def] split: if_splits option.splits list.splits)

lemma handle_lines_raise [raise_dest]: "handle_lines clock ph ls s = Inl e \<Longrightarrow> arithmetic_exn e"
proof (induction ls arbitrary: s)
  case (Cons l ls)
  then show ?case by (cases s) (fastforce simp: seq_Inl_iff dest: handle_line_raise)
qed simp

lemma process_buffer_raise [raise_dest]: "process_buffer clock ph (t, c, st) = Inl e \<Longrightarrow> arithmetic_exn e"
  using handle_lines_raise[of clock ph "fst (lines_of (c_buffer c))" "(t, c, st)" e]
  by (cases "handle_lines clock ph (fst (lines_of (c_buffer c))) (t, c, st)") (auto simp: process_buffer_lines)

lemma recv_loop_raise [raise_dest]: "recv_loop clock ph calls bytes_read s = Inl e \<Longrightarrow> arithmetic_exn e"
proof (induction "nat (ph_max_recv_calls ph - int calls)" arbitrary: calls bytes_read s)
  case (0 calls bytes_read s)
  then show ?case by (cases s) (simp add: recv_loop.simps)
next
  case (Suc n calls bytes_read s)
  obtain t sel c st where s: "s = (t, sel, c, st)" by (cases s)
  show ?case
    using Suc.prems Suc.hyps(1)[of "Suc calls"] Suc.hyps(2) process_buffer_raise unfolding s
    by (subst (asm) recv_loop.simps)
      (auto simp: seq_Inl_iff split: if_splits recv_res.splits prod.splits)
qed

lemma process_client_read_raise [raise_dest]:
  "process_client_read clock ph now_ns ready_ns s = Inl e \<Longrightarrow> arithmetic_exn e"
  by (auto simp: process_client_read_def note_read_gap_def seq_Inl_iff dest: raise_dest
      split: prod.splits option.splits)

section \<open>Exceptions of servicing and sending\<close>

lemma service_event_raise:
  assumes "service_event env ph ready_ns ev w = Inl e" "worker_ok clients w" "distinct clients" "fst ev \<in> set clients"
  shows "arithmetic_exn e"
proof -
  obtain i r wr where ev: "ev = (i, r, wr)" by (cases ev)
  have reg: "write_event i w2 \<noteq> Inl e'" if "worker_ok clients w2" for w2 e'
    using worker_okD[OF that, of i] assms(4) ev flush_client_send_open[of "w_selector w2" "w_clients w2 i" "w_state w2"]
    by (auto simp: write_event_def client_ok_def seq_Inl_iff split: prod.splits)
  have rd: "worker_ok clients w2" if "read_event env ph i now_ns ready_ns (observe w) = Inr w2" "\<not> c_closed (w_clients w i)" for now_ns w2
    using read_event_ok[OF that(1)] assms(2-4) that(2) ev by (simp add: serviced_def)
  show ?thesis
    using assms(1,2) reg rd
    by (auto simp: ev service_event_def Let_def seq_Inl_iff read_event_def dest: process_client_read_raise
        split: if_splits simp flip: observe_def)
qed

lemma service_events_raise:
  assumes "service_events env ph timeout (cursor, w) = Inl e" "worker_ok clients w" "distinct clients"
  shows "arithmetic_exn e"
proof -
  let ?w1 = "observe (observe w)" and ?t = "monotonic_ns env (Suc (w_tick w))"
  obtain events where ev: "set events = set (select_events (w_selector w) (readiness env (w_tick w) timeout))"
    and loop: "for_each events (service_event env ph ?t) ?w1 = Inl e"
    using assms(1) set_rotate_ready[of "select_events (w_selector w) (readiness env (w_tick w) timeout)" cursor]
    by (auto simp: service_events_def observe_def seq_Inl_iff split: prod.splits)
  have own: "fst x \<in> set clients" if "x \<in> set events" for x
    using select_events_registered that ev assms(2) by (auto simp: worker_ok_def)
  show ?thesis
  proof (rule for_each_raise[OF loop, where P = "worker_ok clients"])
    show "worker_ok clients ?w1" using assms(2) by simp
    show "worker_ok clients v'" if "x \<in> set events" "worker_ok clients v" "service_event env ph ?t x v = Inr v'" for x v v'
      using service_event_ok[OF that(3,2) assms(3) own[OF that(1)]] by (simp add: serviced_def)
    show "arithmetic_exn e" if "x \<in> set events" "worker_ok clients v" "service_event env ph ?t x v = Inl e" for x v
      by (rule service_event_raise[OF that(3,2) assms(3) own[OF that(1)]])
  qed
qed

lemma queue_client_frame_open:
  assumes "client_ok sel c" "\<not> c_closed c"
  shows "queue_client_frame sel c frame sent_ns workload st \<noteq> Inl e"
  using assms by (auto simp: queue_client_frame_def Let_def seq_Inl_iff flush_client_send_raise client_ok_def)

lemma offer_one_raise:
  assumes "offer_one env ph target period now_ns (scheduled, missed, seqno, i) (w, schedule) = Inl e"
    "worker_ok clients w" "i \<in> set clients"
  shows "arithmetic_exn e"
  using assms(1) queue_client_frame_open[OF worker_okD(2)[OF assms(2,3)]]
  by (auto simp: offer_one_def Let_def seq_Inl_iff dest: raise_dest split: if_splits)

lemma send_body_raise:
  assumes "send_body env ph target period (cursor, w, schedule) = Inl e"
    "sending_ok ph clients target goal w schedule" "distinct clients" "ph_active_indices ph \<noteq> []"
  shows "arithmetic_exn e"
proof (cases "to_py_int (fmul (ph_max_offer_lag_ms ph) (Fin 1000000))")
  case (Inl e')
  then show ?thesis using assms(1)
    by (auto simp: send_body_def Let_def dest: raise_dest split: if_splits)
next
  case (Inr lag)
  let ?now = "monotonic_ns env (Suc (w_tick w))" and ?w1 = "observe (observe w)"
  obtain ready rest where d: "due_offers schedule ?now (ph_max_overdue_sends ph) lag = (ready, rest)"
    by (cases "due_offers schedule ?now (ph_max_overdue_sends ph) lag")
  have "sending_ok ph clients target goal ?w1 schedule" using assms(2) by simp
  note sp = due_offers_split[OF d this]
  let ?goal = "goal - (\<Sum>(t, m, seqno, i)\<leftarrow>ready. offers_from ph target seqno)"
  show ?thesis
  proof (cases "for_each ready (offer_one env ph target period ?now) (?w1, rest)")
    case (Inl e')
    then have "e' = e" using assms(1) Inr d by (auto simp: send_body_def Let_def split: if_splits)
    show ?thesis
    proof (rule for_each_raise[OF Inl, where P = "\<lambda>(w, s). \<exists>g. sending_ok ph clients target g w s"])
      show "case (?w1, rest) of (w, s) \<Rightarrow> \<exists>g. sending_ok ph clients target g w s" using sp(1) by auto
      fix x s
      assume x: "x \<in> set ready" and s: "case s of (w, s) \<Rightarrow> \<exists>g. sending_ok ph clients target g w s"
      obtain t m seqno i where xp: "x = (t, m, seqno, i)" by (cases x)
      obtain v q where sp': "s = (v, q)" by (cases s)
      obtain g where g: "sending_ok ph clients target g v q" using s sp' by auto
      have i: "i \<in> set clients" "seqno < target" using sp(2) x xp by auto
      show "case s' of (w, s) \<Rightarrow> \<exists>g. sending_ok ph clients target g w s"
        if "offer_one env ph target period ?now x s = Inr s'" for s'
        using offer_one_ok(1)[OF _ g assms(3,4) i] that unfolding xp sp' by (cases s') blast
      show "arithmetic_exn e" if "offer_one env ph target period ?now x s = Inl e'"
        using offer_one_raise[OF that[unfolded xp sp'] _ i(1)] g \<open>e' = e\<close> by (simp add: sending_ok_def)
    qed
  next
    case Inr': (Inr ws)
    obtain w2 s2 where ws: "ws = (w2, s2)" by (cases ws)
    have "worker_ok clients (observe w2)"
      using offers_ok[OF Inr'[unfolded ws] sp(1) assms(3,4) sp(2)] by (simp add: sending_ok_def)
    then show ?thesis
      using assms(1) Inr Inr' ws d service_events_raise[OF _ _ assms(3)]
      by (auto simp: send_body_def Let_def seq_Inl_iff dest: raise_dest split: if_splits)
  qed
qed

section \<open>The whole phase\<close>

lemma andthen_raise:
  assumes "andthen r f = Some (Inl e)"
  obtains (first) "r = Some (Inl e)" | (second) x where "r = Some (Inr x)" "f x = Some (Inl e)"
  using assms by (auto simp: andthen_def split: option.splits sum.splits)

lemma wait_loop_raise:
  assumes "loop fuel (wait_body env ph) (cursor, w) = Some (Inl e)" "worker_ok clients w" "distinct clients"
  shows "arithmetic_exn e"
proof (rule loop_raise[OF assms(1), where P = "\<lambda>s :: int \<times> worker. worker_ok clients (snd s)"])
  show "worker_ok clients (snd (cursor, w))" using assms(2) by simp
  fix s :: "int \<times> worker" assume s: "worker_ok clients (snd s)"
  show "worker_ok clients (snd s')" if "wait_body env ph s = Inr (Inl s')" for s'
    using wait_body_go[of env ph "fst s" "snd s" "fst s'" "snd s'"] that s assms(3) by (simp add: serviced_def)
  show "arithmetic_exn e" if "wait_body env ph s = Inl e"
    using that s service_events_raise[OF _ _ assms(3)]
    by (cases s) (fastforce simp: wait_body_def Let_def seq_Inl_iff dest: raise_dest split: if_splits)
qed

lemma drain_body_raise:
  assumes "drain_body env ph clients dl (cursor, w, quiet, prev) = Inl e" "worker_ok clients w" "distinct clients"
  shows "arithmetic_exn e"
  using assms(1,2) service_events_raise[OF _ _ assms(3)]
  by (fastforce simp: drain_body_def Let_def seq_Inl_iff split: if_splits prod.splits)

lemma drain_loop_raise:
  assumes "loop fuel (drain_body env ph clients dl) (cursor, w, quiet, prev) = Some (Inl e)"
    "worker_ok clients w" "distinct clients"
  shows "arithmetic_exn e"
proof (rule loop_raise[OF assms(1), where P = "\<lambda>s :: drain_state. worker_ok clients (fst (snd s))"])
  show "worker_ok clients (fst (snd (cursor, w, quiet, prev)))" using assms(2) by simp
  fix s :: drain_state assume s: "worker_ok clients (fst (snd s))"
  obtain c v q p where sp: "s = (c, v, q, p)" by (cases s)
  show "worker_ok clients (fst (snd s'))" if "drain_body env ph clients dl s = Inr (Inl s')" for s'
    using drain_body_ok[OF that[unfolded sp] _ assms(3)] s sp by (auto simp: serviced_def split: prod.splits)
  show "arithmetic_exn e" if "drain_body env ph clients dl s = Inl e"
    using drain_body_raise[OF that[unfolded sp] _ assms(3)] s sp by simp
qed

lemma send_loop_raise:
  assumes "loop fuel (send_body env ph target period) (cursor, w, schedule) = Some (Inl e)"
    "sending_ok ph clients target goal w schedule" "distinct clients" "ph_active_indices ph \<noteq> []"
  shows "arithmetic_exn e"
proof (rule loop_raise[OF assms(1), where P = "sending_state ph clients target goal"])
  show "sending_state ph clients target goal (cursor, w, schedule)" using assms(2) by (simp add: sending_state_def)
  fix s assume s: "sending_state ph clients target goal s"
  obtain c v q where sp: "s = (c, v, q)" by (cases s)
  have ok: "sending_ok ph clients target goal v q" using s sp by (simp add: sending_state_def)
  show "sending_state ph clients target goal s'" if "send_body env ph target period s = Inr (Inl s')" for s'
    using that send_body_go[OF _ ok assms(3,4)] by (cases s') (auto simp: sending_state_def sp)
  show "arithmetic_exn e" if "send_body env ph target period s = Inl e"
    by (rule send_body_raise[OF that[unfolded sp] ok assms(3,4)])
qed

lemma schedule_for_clients_raise [raise_dest]: "schedule_for_clients clients ph = Inl e \<Longrightarrow> arithmetic_exn e"
proof -
  have "arithmetic_exn e" if "for_each clients (schedule_client ph target period) [] = Inl e" for target period
    by (rule for_each_raise[OF that, where P = "\<lambda>_. True"])
      (auto simp: schedule_client_def seq_Inl_iff dest: raise_dest split: option.splits if_splits)
  then show "schedule_for_clients clients ph = Inl e \<Longrightarrow> arithmetic_exn e"
    by (auto simp: schedule_for_clients_def seq_Inl_iff dest: raise_dest split: if_splits)
qed

lemma begin_phase_raise [raise_dest]: "begin_phase env ph clients w = Inl e \<Longrightarrow> arithmetic_exn e"
  by (auto simp: begin_phase_def Let_def seq_Inl_iff dest: raise_dest)

lemma end_sending_raise [raise_dest]: "end_sending env ph target cpu w schedule = Inl e \<Longrightarrow> arithmetic_exn e"
proof -
  have "arithmetic_exn e" if "for_each schedule (leftover ph target) (w_state w) = Inl e"
    by (rule for_each_raise[OF that, where P = "\<lambda>_. True"])
      (auto simp: leftover_def Let_def arithmetic_exn_def split: if_splits)
  then show "end_sending env ph target cpu w schedule = Inl e \<Longrightarrow> arithmetic_exn e"
    by (auto simp: end_sending_def seq_Inl_iff)
qed

lemma end_sending_ok:
  assumes "end_sending env ph target cpu w schedule = Inr w'" "worker_ok clients w"
  shows "worker_ok clients w'"
proof -
  obtain st c where lo: "for_each schedule (leftover ph target) (w_state w) = Inr st"
    and w': "w' = (observe w)\<lparr>w_state := st\<lparr>generator_cpu_seconds := c\<rparr>\<rparr>"
    using assms(1) by (auto simp: end_sending_def exn_simps)
  then show ?thesis using leftovers_ok[OF lo] assms(2) by (auto simp: worker_ok_def tally_ok_def)
qed

text \<open>The start of a phase, up to the sending loop.\<close>

lemma phase_started:
  assumes "loop fuel (wait_body env ph) (0, w\<lparr>w_state := empty_state wid\<rparr>) = Some (Inr (cursor, w1))"
    "begin_phase env ph clients w1 = Inr (w2, cpu, schedule, target, period)"
    "worker_ok clients w" "distinct clients" "\<forall>i\<in>set clients. c_pending (w_clients w i) = []"
  shows "sending_ok ph clients target (offers_due ph target clients) w2 schedule" "worker_ok clients w1"
proof -
  let ?w0 = "w\<lparr>w_state := empty_state wid\<rparr>"
  have "outstanding clients ?w0 = 0" using assms(5) by (simp add: outstanding_def cong: map_cong)
  then show "sending_ok ph clients target (offers_due ph target clients) w2 schedule" "worker_ok clients w1"
    using begin_phase_ok[OF assms(2)] wait_loop_ok[OF assms(1) worker_ok_fresh[OF assms(3)] assms(4)]
    by (auto simp: serviced_def empty_state_def)
qed

lemma run_phase_raise:
  assumes "run_phase fuel env clients ph wid w = Some (Inl e)"
    and "worker_ok clients w" "distinct clients" "ph_active_indices ph \<noteq> []"
    and "\<forall>i\<in>set clients. c_pending (w_clients w i) = []"
  shows "arithmetic_exn e"
proof -
  let ?w0 = "w\<lparr>w_state := empty_state wid\<rparr>"
  have w0: "worker_ok clients ?w0" by (rule worker_ok_fresh[OF assms(2)])
  show ?thesis
    using assms(1)[unfolded run_phase_def]
  proof (cases rule: andthen_raise)
    case first
    then show ?thesis by (rule wait_loop_raise[OF _ w0 assms(3)])
  next
    case (second s1)
    obtain cursor w1 where s1: "s1 = (cursor, w1)" by (cases s1)
    note wait = second(1)[unfolded s1]
    from second(2)[unfolded s1 prod.case] show ?thesis
    proof (cases rule: andthen_raise)
      case first
      then show ?thesis by (auto dest: begin_phase_raise)
    next
      case (second s2)
      obtain w2 cpu schedule target period where s2: "s2 = (w2, cpu, schedule, target, period)" by (cases s2)
      have "begin_phase env ph clients w1 = Inr (w2, cpu, schedule, target, period)" using second(1) s2 by simp
      note ok = phase_started(1)[OF wait this assms(2,3,5)]
      from second(2)[unfolded s2 prod.case] show ?thesis
      proof (cases rule: andthen_raise)
        case first
        then show ?thesis by (rule send_loop_raise[OF _ ok assms(3,4)])
      next
        case (second s3)
        obtain cursor' w3 schedule' where s3: "s3 = (cursor', w3, schedule')" by (cases s3)
        have w3: "worker_ok clients w3"
          using send_loop_ok[OF second(1)[unfolded s3] ok assms(3,4)] by (simp add: sending_ok_def)
        from second(2)[unfolded s3 prod.case] show ?thesis
        proof (cases rule: andthen_raise)
          case first
          then show ?thesis by (auto dest: end_sending_raise)
        next
          case (second w4)
          then have "worker_ok clients w4" using end_sending_ok[OF _ w3] by auto
          then have "worker_ok clients (observe (observe w4))" by simp
          then show ?thesis using second(2) drain_loop_raise[OF _ _ assms(3)] by (auto simp: drain_phase_def Let_def)
        qed
      qed
    qed
  qed
qed

text \<open>C23: \<^verbatim>\<open>run_phase\<close> lets no exception through but those of arithmetic on the phase's numbers
  (a rate of zero, a product that is not a number, a clock difference too large for a float):
  changing the interest of a socket never fails, since a socket is only used while registered,
  and neither does taking from or adding to the schedule.\<close>

theorem run_phase_exceptions:
  assumes "run_phase fuel env clients ph wid w = Some (Inl e)"
    and "worker_ok clients w" "distinct clients" "ph_active_indices ph \<noteq> []"
    and "\<forall>i\<in>set clients. c_pending (w_clients w i) = []"
  shows "e = ZeroDivisionError \<or> e = OverflowError \<or> e = ValueError"
  using run_phase_raise[OF assms] by (simp add: arithmetic_exn_def)

definition zero_rate_phase :: phase where
  "zero_rate_phase = short_phase\<lparr>ph_rate := Fin 0\<rparr>"

lemma sample_worker_ok: "worker_ok [0, 1] sample_worker" "\<forall>i\<in>set [0, 1]. c_pending (w_clients sample_worker i) = []"
  by (simp_all add: worker_ok_def sample_worker_def new_client_def client_ok_def tally_ok_def empty_state_def)

theorem run_phase_exceptions_witness:
  "\<exists>e. run_phase 1 sample_env [0, 1] zero_rate_phase 0 sample_worker = Some (Inl e) \<and>
     (e = ZeroDivisionError \<or> e = OverflowError \<or> e = ValueError)"
proof -
  have "run_phase 1 sample_env [0, 1] zero_rate_phase 0 sample_worker = Some (Inl ZeroDivisionError)"
    by (simp add: run_phase_def andthen_def wait_body_def begin_phase_def sample_env_def zero_rate_phase_def
      short_phase_def sample_phase_def sample_worker_def observe_def schedule_for_clients_def float_simps int_div_def Let_def)
  moreover have "ph_active_indices zero_rate_phase \<noteq> []"
    by (simp add: zero_rate_phase_def short_phase_def sample_phase_def)
  ultimately show ?thesis using run_phase_exceptions[OF _ sample_worker_ok(1)] sample_worker_ok(2) by auto
qed

section \<open>Termination\<close>

lemma settles_andthen:
  assumes "settles r" "\<And>fuel x. r fuel = Some (Inr x) \<Longrightarrow> settles (\<lambda>fuel. g fuel x)"
  shows "settles (\<lambda>fuel. andthen (r fuel) (g fuel))"
proof -
  obtain n x where n: "r fuel = Some x" if "n \<le> fuel" for fuel using assms(1) unfolding settles_def by blast
  show ?thesis
  proof (cases x)
    case (Inl e)
    then show ?thesis unfolding settles_def using n by (intro exI[of _ n] exI[of _ "Inl e"]) (simp add: andthen_def)
  next
    case (Inr y)
    then have "settles (\<lambda>fuel. g fuel y)" using assms(2)[of n y] n[of n] by simp
    then obtain k z where "g fuel y = Some z" if "k \<le> fuel" for fuel unfolding settles_def by blast
    then show ?thesis unfolding settles_def using n Inr
      by (intro exI[of _ "max n k"] exI[of _ z]) (simp add: andthen_def)
  qed
qed

text \<open>Each loop ends with its clock, since every round reads the clock.\<close>

lemma wait_loop_settles:
  assumes "\<And>k. N \<le> k \<Longrightarrow> ph_start_ns ph \<le> monotonic_ns env k" "worker_ok clients w" "distinct clients"
  shows "settles (\<lambda>fuel. loop fuel (wait_body env ph) (cursor, w))"
proof (rule settles_loop[where P = "\<lambda>s. worker_ok clients (snd s)" and m = "\<lambda>s. N - w_tick (snd s)"])
  show "worker_ok clients (snd (cursor, w))" using assms(2) by simp
  fix s s' :: "int \<times> worker" assume "worker_ok clients (snd s)" "wait_body env ph s = Inr (Inl s')"
  then have go: "serviced ph clients (snd s) (snd s') \<and> w_tick (snd s) < w_tick (snd s') \<and>
      monotonic_ns env (w_tick (snd s)) < ph_start_ns ph"
    using wait_body_go[of env ph "fst s" "snd s" "fst s'" "snd s'" clients] assms(3) by simp
  then have "w_tick (snd s) < N" using assms(1)[of "w_tick (snd s)"] by (metis not_le)
  with go show "worker_ok clients (snd s') \<and> N - w_tick (snd s') < N - w_tick (snd s)" by (auto simp: serviced_def)
qed

lemma send_loop_settles:
  assumes "\<And>k. N \<le> k \<Longrightarrow> ph_deadline_ns ph \<le> monotonic_ns env k"
    "sending_ok ph clients target goal w schedule" "distinct clients" "ph_active_indices ph \<noteq> []"
  shows "settles (\<lambda>fuel. loop fuel (send_body env ph target period) (cursor, w, schedule))"
proof (rule settles_loop[where P = "sending_state ph clients target goal" and m = "\<lambda>s. N - w_tick (fst (snd s))"])
  show "sending_state ph clients target goal (cursor, w, schedule)" using assms(2) by (simp add: sending_state_def)
  fix s s' assume s: "sending_state ph clients target goal s" and b: "send_body env ph target period s = Inr (Inl s')"
  obtain c v q c' v' q' where sp: "s = (c, v, q)" "s' = (c', v', q')" by (cases s; cases s')
  have go: "sending_ok ph clients target goal v' q' \<and> w_tick v < w_tick v' \<and> now_of env v < ph_deadline_ns ph"
    using send_body_go[OF b[unfolded sp] _ assms(3,4)] s sp by (simp add: sending_state_def)
  then have "w_tick v < N" using assms(1)[of "w_tick v"] by (metis not_le)
  with go show "sending_state ph clients target goal s' \<and> N - w_tick (fst (snd s')) < N - w_tick (fst (snd s))"
    by (auto simp: sending_state_def sp)
qed

lemma drain_loop_settles:
  assumes "\<And>k. N \<le> k \<Longrightarrow> \<not> flt (monotonic env k) dl" "worker_ok clients w" "distinct clients"
  shows "settles (\<lambda>fuel. loop fuel (drain_body env ph clients dl) (cursor, w, quiet, prev))"
proof (rule settles_loop[where P = "\<lambda>s. worker_ok clients (fst (snd s))" and m = "\<lambda>s. N - w_tick (fst (snd s))"])
  show "worker_ok clients (fst (snd (cursor, w, quiet, prev)))" using assms(2) by simp
  fix s s' :: drain_state assume s: "worker_ok clients (fst (snd s))" and b: "drain_body env ph clients dl s = Inr (Inl s')"
  obtain c v q p c' v' q' p' where sp: "s = (c, v, q, p)" "s' = (c', v', q', p')" by (cases s; cases s')
  have go: "serviced ph clients v v' \<and> w_tick v < w_tick v' \<and> flt (seconds_of env v) dl"
    using drain_body_ok[OF b[unfolded sp] _ assms(3)] s sp by simp
  then have "w_tick v < N" using assms(1)[of "w_tick v"] by (metis not_le)
  with go show "worker_ok clients (fst (snd s')) \<and> N - w_tick (fst (snd s')) < N - w_tick (fst (snd s))"
    by (auto simp: serviced_def sp)
qed

lemma run_phase_settles:
  assumes "\<forall>k\<ge>N. ph_start_ns ph \<le> monotonic_ns env k \<and> ph_deadline_ns ph \<le> monotonic_ns env k"
    and "\<forall>j. \<exists>M. \<forall>k\<ge>M. \<not> flt (monotonic env k) (fadd (monotonic env j) (ph_drain ph))"
    and "worker_ok clients w" "distinct clients" "ph_active_indices ph \<noteq> []"
    and "\<forall>i\<in>set clients. c_pending (w_clients w i) = []"
  shows "settles (\<lambda>fuel. run_phase fuel env clients ph wid w)"
  unfolding run_phase_def
  proof (rule settles_andthen)
    show "settles (\<lambda>fuel. loop fuel (wait_body env ph) (0, w\<lparr>w_state := empty_state wid\<rparr>))"
      using assms(1) by (intro wait_loop_settles[where N = N, OF _ worker_ok_fresh[OF assms(3)] assms(4)]) blast
    fix fuel1 s1 assume wait: "loop fuel1 (wait_body env ph) (0, w\<lparr>w_state := empty_state wid\<rparr>) = Some (Inr s1)"
    obtain cursor w1 where s1: "s1 = (cursor, w1)" by (cases s1)
    show "settles (\<lambda>fuel. case s1 of (cursor, w1) \<Rightarrow>
      andthen (Some (begin_phase env ph clients w1)) (\<lambda>(w2, cpu_start, schedule, target_offers, period).
      andthen (loop fuel (send_body env ph target_offers period) (cursor, w2, schedule)) (\<lambda>(cursor', w3, schedule').
      andthen (Some (end_sending env ph target_offers cpu_start w3 schedule')) (
            drain_phase fuel env clients ph cursor'))))"
      unfolding s1 prod.case
    proof (rule settles_andthen[OF settles_const])
      fix s2 assume "Some (begin_phase env ph clients w1) = Some (Inr s2)"
      moreover obtain w2 cpu schedule target period where s2: "s2 = (w2, cpu, schedule, target, period)" by (cases s2)
      ultimately have ok: "sending_ok ph clients target (offers_due ph target clients) w2 schedule"
        using phase_started(1)[OF wait[unfolded s1] _ assms(3,4,6)] by auto
      show "settles (\<lambda>fuel. case s2 of (w2, cpu_start, schedule, target_offers, period) \<Rightarrow>
        andthen (loop fuel (send_body env ph target_offers period) (cursor, w2, schedule)) (\<lambda>(cursor', w3, schedule').
        andthen (Some (end_sending env ph target_offers cpu_start w3 schedule')) (
            drain_phase fuel env clients ph cursor')))"
        unfolding s2 prod.case
      proof (rule settles_andthen)
        show "settles (\<lambda>fuel. loop fuel (send_body env ph target period) (cursor, w2, schedule))"
          using assms(1) by (intro send_loop_settles[where N = N, OF _ ok assms(4,5)]) blast
        fix fuel3 s3 assume send: "loop fuel3 (send_body env ph target period) (cursor, w2, schedule) = Some (Inr s3)"
        obtain cursor' w3 schedule' where s3: "s3 = (cursor', w3, schedule')" by (cases s3)
        have w3: "worker_ok clients w3"
          using send_loop_ok[OF send[unfolded s3] ok assms(4,5)] by (simp add: sending_ok_def)
        show "settles (\<lambda>fuel. case s3 of (cursor', w3, schedule') \<Rightarrow>
          andthen (Some (end_sending env ph target cpu w3 schedule')) (
            drain_phase fuel env clients ph cursor'))"
          unfolding s3 prod.case
        proof (rule settles_andthen[OF settles_const])
          fix w4 assume "Some (end_sending env ph target cpu w3 schedule') = Some (Inr w4)"
          then have "worker_ok clients (observe (observe w4))" using end_sending_ok[OF _ w3] by simp
          moreover obtain M where "\<forall>k\<ge>M. \<not> flt (monotonic env k) (fadd (seconds_of env w4) (ph_drain ph))"
            using assms(2) by blast
          ultimately show "settles (\<lambda>fuel. drain_phase fuel env clients ph cursor' w4)"
            unfolding drain_phase_def Let_def by (intro drain_loop_settles[where N = M, OF _ _ assms(4)]) auto
        qed
      qed
    qed
  qed

text \<open>C24: a phase ends. If the nanosecond clock is past the start and the deadline from some reading
  on, and the other clock eventually passes every reading of it plus the drain time, then from some
  amount of fuel on \<^verbatim>\<open>run_phase\<close> has a result, the same for every larger amount: a final state or
  an exception.\<close>

theorem run_phase_terminates:
  assumes "\<forall>k\<ge>N. ph_start_ns ph \<le> monotonic_ns env k \<and> ph_deadline_ns ph \<le> monotonic_ns env k"
    and "\<forall>j. \<exists>M. \<forall>k\<ge>M. \<not> flt (monotonic env k) (fadd (monotonic env j) (ph_drain ph))"
    and "worker_ok clients w" "distinct clients" "ph_active_indices ph \<noteq> []"
    and "\<forall>i\<in>set clients. c_pending (w_clients w i) = []"
  shows "\<exists>n x. \<forall>fuel\<ge>n. run_phase fuel env clients ph wid w = Some x"
  using run_phase_settles[OF assms] by (simp add: settles_def)

text \<open>A clock that counts seconds up to \<open>2 ^ 60\<close>: up to fifteen seconds past the last reading are rounded down to it.\<close>

definition counting_env :: env where
  "counting_env = sample_env\<lparr>monotonic := \<lambda>k. Fin (min (of_nat k) (2 ^ 60))\<rparr>"

lemma past_60: "rnd64 (2 ^ 60 + 15) = 2 ^ 60"
proof -
  have "round_half_even ((2 ^ 60 + 15) / 256) = 4503599627370496"
    by (rule round_half_even_down) simp_all
  then have "rnd64 (2 ^ 60 + 15) = of_int 4503599627370496 * 2 powi 8"
    by (intro rnd64_eval[where k = 60]) (simp_all add: power_int_def)
  then show ?thesis by (simp add: power_int_def)
qed

lemma counting_clock:
  assumes "(2 :: nat) ^ 60 \<le> k" "0 \<le> d" "d \<le> 15"
  shows "fle (fadd (monotonic counting_env j) (Fin d)) (monotonic counting_env k)"
proof -
  have "(of_nat (2 ^ 60) :: rat) \<le> of_nat k" using assms(1) by (rule of_nat_mono)
  then have k: "monotonic counting_env k = Fin (2 ^ 60)" by (simp add: counting_env_def)
  let ?x = "min (of_nat j) (2 ^ 60) + d :: rat"
  have x: "0 \<le> ?x" "?x \<le> 2 ^ 60 + 15" using assms(2,3) by (simp_all add: add_mono)
  have "rnd64 ?x \<le> rnd64 (2 ^ 60 + 15)" by (rule rnd64_mono[OF x(2)])
  then have le: "rnd64 ?x \<le> 2 ^ 60" unfolding past_60 .
  have "(2 ^ 60 + 15 :: rat) \<le> 2 ^ 1023" by simp
  then have "\<bar>?x\<bar> \<le> 2 ^ 1023" using x by (simp add: abs_of_nonneg)
  then have "to_float ?x = Fin (rnd64 ?x)" by (rule to_float_bounded)
  then show ?thesis using le k by (simp add: counting_env_def)
qed

lemma fle_not_flt: "fle x y \<Longrightarrow> \<not> flt y x"
  by (cases x; cases y) (auto simp: fle_def)

theorem run_phase_terminates_witness:
  "\<exists>n x. run_phase n counting_env [0, 1] short_phase 0 sample_worker = Some x"
proof -
  have ph: "ph_drain short_phase = Fin 1" "ph_active_indices short_phase \<noteq> []"
    by (simp_all add: short_phase_def sample_phase_def)
  have "\<forall>k\<ge>9. ph_start_ns short_phase \<le> monotonic_ns counting_env k \<and>
      ph_deadline_ns short_phase \<le> monotonic_ns counting_env k"
    by (simp add: counting_env_def sample_env_def short_phase_def)
  moreover have "\<forall>j. \<exists>M. \<forall>k\<ge>M. \<not> flt (monotonic counting_env k) (fadd (monotonic counting_env j) (ph_drain short_phase))"
    unfolding ph using counting_clock[of _ 1] fle_not_flt
    by (metis (no_types, opaque_lifting) one_le_numeral zero_le_one)
  ultimately show ?thesis using run_phase_terminates[OF _ _ sample_worker_ok(1) _ ph(2) sample_worker_ok(2)] by (metis order_refl distinct_length_2_or_more distinct_singleton zero_neq_one)
qed

end
