(* ===== verification/Py_Format.thy ===== *)
theory Py_Format
  imports Py_Text Py_Float
begin

text \<open>
  Text that the harness builds: joined lists, floats with a fixed number of decimals
  (\<^verbatim>\<open>format(x, '.3f')\<close>, correctly rounded, ties to even), and dictionaries that group rows under
  a key in order of first appearance.
\<close>

section \<open>Joining and formatting\<close>

text \<open>\<^verbatim>\<open>sep.join(parts)\<close>.\<close>

fun join :: "string \<Rightarrow> string list \<Rightarrow> string" where
  "join sep [] = []"
| "join sep [s] = s"
| "join sep (s # ss) = s @ sep @ join sep ss"

definition pad_zeros :: "nat \<Rightarrow> string \<Rightarrow> string" where
  "pad_zeros n s = replicate (n - length s) (CHR ''0'') @ s"

fun show_fixed :: "nat \<Rightarrow> pyfloat \<Rightarrow> string" where
  "show_fixed n (Fin r) =
     (let k = nat (round_half_even (\<bar>r\<bar> * 10 ^ n))
      in (if r < 0 then ''-'' else '''') @ show_nat (k div 10 ^ n) @
         (if n = 0 then '''' else ''.'' @ pad_zeros n (show_nat (k mod 10 ^ n))))"
| "show_fixed n PInf = ''inf''"
| "show_fixed n NInf = ''-inf''"
| "show_fixed n NaN = ''nan''"

lemma join_eq_Nil: "join sep ss = [] \<longleftrightarrow> ss = [] \<or> ss = [[]] \<or> (sep = [] \<and> (\<forall>s\<in>set ss. s = []))"
  by (induction sep ss rule: join.induct) auto

lemma join_map_nonempty: "(\<And>x. f x \<noteq> []) \<Longrightarrow> sep \<noteq> [] \<Longrightarrow> join sep (map f xs) = [] \<longleftrightarrow> xs = []"
  by (cases xs) (auto simp: join_eq_Nil)

section \<open>Grouping\<close>

text \<open>\<^verbatim>\<open>groups.setdefault(key, []).append(row)\<close> on a dictionary, kept as the list of its items.\<close>

fun add_to_group :: "'k \<Rightarrow> 'r \<Rightarrow> ('k \<times> 'r list) list \<Rightarrow> ('k \<times> 'r list) list" where
  "add_to_group k r [] = [(k, [r])]"
| "add_to_group k r ((k', rs) # groups) =
     (if k' = k then (k', rs @ [r]) # groups else (k', rs) # add_to_group k r groups)"

definition group_rows :: "('r \<Rightarrow> 'k) \<Rightarrow> 'r list \<Rightarrow> ('k \<times> 'r list) list" where
  "group_rows key rows = fold (\<lambda>r. add_to_group (key r) r) rows []"

lemma add_to_group_lookup:
  "map_of (add_to_group k r groups) = (map_of groups)(k \<mapsto> (case map_of groups k of None \<Rightarrow> [] | Some rs \<Rightarrow> rs) @ [r])"
  by (induction groups) (auto simp: fun_eq_iff)

lemma add_to_group_keys: "fst ` set (add_to_group k r groups) = insert k (fst ` set groups)"
proof (induction groups)
  case (Cons g groups)
  obtain k' rs where "g = (k', rs)" by (cases g)
  then show ?case using Cons by (cases "k' = k") (simp_all add: insert_commute)
qed simp

lemma add_to_group_distinct: "distinct (map fst groups) \<Longrightarrow> distinct (map fst (add_to_group k r groups))"
proof (induction groups)
  case (Cons g groups)
  obtain k' rs where "g = (k', rs)" by (cases g)
  then show ?case using Cons by (cases "k' = k") (simp_all add: add_to_group_keys)
qed simp

lemma group_rows_snoc: "group_rows key (rows @ [r]) = add_to_group (key r) r (group_rows key rows)"
  by (simp add: group_rows_def)

lemma group_rows_distinct: "distinct (map fst (group_rows key rows))"
  by (induction rows rule: rev_induct) (simp_all add: group_rows_snoc add_to_group_distinct, simp add: group_rows_def)

text \<open>Under each key stand the rows with that key, in their order; no key has an empty group.\<close>

lemma group_rows_lookup:
  "map_of (group_rows key rows) k = (if k \<in> key ` set rows then Some (filter (\<lambda>r. key r = k) rows) else None)"
proof (induction rows rule: rev_induct)
  case Nil
  then show ?case by (simp add: group_rows_def)
next
  case (snoc r rows)
  have none: "filter (\<lambda>r. key r = k) rows = []" if "k \<notin> key ` set rows" for k
    using that by (auto simp: filter_empty_conv)
  show ?case
  proof (cases "k = key r")
    case True
    then show ?thesis using none[of k] by (simp add: group_rows_snoc add_to_group_lookup snoc.IH flip: True)
  next
    case False
    then show ?thesis by (auto simp: group_rows_snoc add_to_group_lookup snoc.IH)
  qed
qed

lemma group_rows_mem:
  "(k, rs) \<in> set (group_rows key rows) \<longleftrightarrow> k \<in> key ` set rows \<and> rs = filter (\<lambda>r. key r = k) rows"
  using group_rows_distinct[of key rows] group_rows_lookup[of key rows k]
  by (metis map_of_eq_Some_iff option.distinct(1) option.inject)

end
