(* ===== verification/Worker_Main.thy ===== *)
theory Worker_Main
  imports Worker_Progress Py_Format
begin

text \<open>
  The life of a worker process (\<^verbatim>\<open>worker_main\<close> of \<^verbatim>\<open>bench/benchmark.py\<close>): connecting its clients,
  settling them during the setup, and answering the commands of the parent with one message each.
  The record \<open>network\<close> says what a connection attempt and the sockets will answer; the commands of
  the parent are a list, whose end is a closed pipe. The messages that the worker sends are the
  result; that the parent's end of the pipe stays open until the worker is told to close is taken
  for granted, as is closing the sockets at the end.
\<close>

section \<open>Connecting\<close>

definition PROMPT :: string where
  "PROMPT = ''enter your username: ''"

text \<open>
  \<^verbatim>\<open>accepts\<close>: does an attempt of a client to connect, after so many observations, succeed? The
  sockets answer as scripted; on a blocking socket \<open>RecvBlock\<close> and \<open>SendBlock\<close> are timeouts.
\<close>

record network =
  accepts :: "int \<Rightarrow> nat \<Rightarrow> bool"
  incoming :: "int \<Rightarrow> recv_res list"
  outgoing :: "int \<Rightarrow> send_res list"

definition pending_input :: "client \<Rightarrow> nat" where
  "pending_input c = (\<Sum>r\<leftarrow>c_rx c. case r of Data s \<Rightarrow> Suc (length s) | _ \<Rightarrow> 1)"

lemma sock_recv_consumes:
  "sock_recv n c = (Data s, c') \<Longrightarrow> s \<noteq> [] \<Longrightarrow> pending_input c' < pending_input c"
  by (auto simp: sock_recv_def pending_input_def split: list.splits recv_res.splits if_splits)

function receive_until :: "string \<Rightarrow> string \<Rightarrow> nat \<times> client \<Rightarrow> py_exn + nat \<times> client" where
  "receive_until marker received (tick, c) =
     (if find_sub marker received \<noteq> None then Inr (tick, c)
      else case sock_recv 4096 c of
          (Data chunk, c1) \<Rightarrow>
            if chunk = [] then Inl (RuntimeError ''server closed a connection during setup'')
            else receive_until marker (received @ chunk) (Suc tick, c1)
        | (_, c1) \<Rightarrow> Inl OSError)"
  by pat_completeness auto
termination
  by (relation "measure (\<lambda>(_, _, _, c). pending_input c)") (auto dest: sock_recv_consumes[OF sym])

declare receive_until.simps [simp del]

text \<open>\<^verbatim>\<open>sendall\<close> on a blocking socket: what is sent, call by call.\<close>

fun send_all :: "string \<Rightarrow> send_res list \<Rightarrow> py_exn + string \<times> send_res list" where
  "send_all [] tx = Inr ([], tx)"
| "send_all data (Sent n # tx) =
     seq (send_all (drop n data) tx) (\<lambda>(sent, tx'). Inr (take n data @ sent, tx'))"
| "send_all data tx = Inl OSError"

definition login :: "int \<Rightarrow> bool \<Rightarrow> client \<Rightarrow> py_exn + client" where
  "login index active c =
     (if \<not> active then Inr c
      else seq (send_all (''bench-'' @ show_int index @ [CHR 0x0A]) (c_tx c)) (\<lambda>(sent, tx).
        Inr (c\<lparr>c_tx := tx, c_wire := c_wire c @ sent\<rparr>)))"

text \<open>The loop of connection attempts.\<close>

definition connect_body :: "env \<Rightarrow> network \<Rightarrow> int \<Rightarrow> pyfloat \<Rightarrow> worker \<Rightarrow> py_exn + worker + worker" where
  "connect_body env net index deadline w =
     (if accepts net index (w_tick w) then Inr (Inr w)
      else if fle deadline (seconds_of env w)
      then Inl (RuntimeError (''client '' @ show_int index @ '' could not connect''))
      else Inr (Inl (observe w)))"

definition connect_client ::
  "nat \<Rightarrow> env \<Rightarrow> network \<Rightarrow> int \<Rightarrow> bool \<Rightarrow> worker \<Rightarrow> (py_exn + client \<times> worker) option" where
  "connect_client fuel env net index active w =
     andthen (loop fuel (connect_body env net index (fadd (seconds_of env w) (Fin 15))) (observe w)) (\<lambda>w1.
       Some (seq (receive_until PROMPT [] (Suc (w_tick w1), new_client index active (incoming net index) (outgoing net index)))
         (\<lambda>(tick, c). seq (login index active c) (\<lambda>c'. Inr (c', w1\<lparr>w_tick := tick\<rparr>)))))"

section \<open>Settling\<close>

definition MAX_RECV_CALLS :: int where
  "MAX_RECV_CALLS = 4"

definition MAX_RECV_BYTES :: int where
  "MAX_RECV_BYTES = 65536"

text \<open>
  The phase under which sockets are serviced during the setup. The code gives only the entries that
  servicing reads: the workload, the token, the deadline, the number of connections and the two
  limits on reading; the others have neutral values here.
\<close>

definition setup_phase :: "nat \<Rightarrow> phase" where
  "setup_phase connections =
     \<lparr> ph_workload = ''setup'', ph_total_connections = int connections, ph_active_indices = [],
       ph_rate = Fin 0, ph_duration = Fin 0, ph_drain = Fin 0, ph_payload_size = 0, ph_token = [],
       ph_start_ns = 0, ph_deadline_ns = 0, ph_max_overdue_sends = 0, ph_max_offer_lag_ms = Fin 0,
       ph_max_recv_calls = MAX_RECV_CALLS, ph_max_recv_bytes = MAX_RECV_BYTES \<rparr>"

definition settle_body :: "env \<Rightarrow> phase \<Rightarrow> pyfloat \<Rightarrow> int \<times> worker \<Rightarrow> py_exn + (int \<times> worker) + worker" where
  "settle_body env ph deadline cw =
     (case cw of (cursor, w) \<Rightarrow>
        if \<not> flt (seconds_of env w) deadline then Inr (Inr (observe w))
        else seq (service_events env ph (to_float (1 / 100)) (cursor, observe w)) (\<lambda>cw'. Inr (Inl cw')))"

definition reset_client :: "client \<Rightarrow> client" where
  "reset_client c = c\<lparr>c_buffer := [], c_pending := []\<rparr>"

definition reset_clients :: "int list \<Rightarrow> worker \<Rightarrow> worker" where
  "reset_clients clients w =
     w\<lparr>w_clients := fold (\<lambda>i cs. cs(i := reset_client (cs i))) clients (w_clients w)\<rparr>"

definition show_indices :: "int set \<Rightarrow> string" where
  "show_indices is = ''['' @ join '', '' (map show_int (sorted_list_of_set is)) @ '']''"

definition check_settled :: "int list \<Rightarrow> worker \<Rightarrow> py_exn + worker" where
  "check_settled clients w =
     (if disconnects (w_state w) \<noteq> {}
      then Inl (RuntimeError (''disconnects during setup: '' @ show_indices (disconnects (w_state w))))
      else Inr (reset_clients clients w))"

definition settle_clients :: "nat \<Rightarrow> env \<Rightarrow> int list \<Rightarrow> pyfloat \<Rightarrow> worker \<Rightarrow> (py_exn + worker) option" where
  "settle_clients fuel env clients duration w =
     andthen (loop fuel (settle_body env (setup_phase (length clients)) (fadd (seconds_of env w) duration))
         (0, (observe w)\<lparr>w_state := empty_state 0\<rparr>)) (\<lambda>w'.
       Some (check_settled clients w'))"

section \<open>The conversation with the parent\<close>

datatype message =
    Connected int bool "int option"
  | Ready int
  | Result load_state
  | Failed int string

datatype command = SetupComplete | RunPhase phase | Close

text \<open>Connecting all clients of the worker, settling them after every sixteenth.\<close>

fun connect_clients ::
  "nat \<Rightarrow> env \<Rightarrow> network \<Rightarrow> int set \<Rightarrow> int list \<Rightarrow> int list \<times> worker \<Rightarrow> (py_exn + int list \<times> worker) option" where
  "connect_clients fuel env net active [] cw = Some (Inr cw)"
| "connect_clients fuel env net active (index # indices) (clients, w) =
     andthen (connect_client fuel env net index (index \<in> active) w) (\<lambda>(c, w1).
       let clients' = clients @ [index];
           w2 = w1\<lparr>w_selector := (w_selector w1)(index \<mapsto> False), w_clients := (w_clients w1)(index := c)\<rparr>
       in andthen (if length clients' mod 16 = 0 then settle_clients fuel env clients' (to_float (1 / 1000)) w2
                   else Some (Inr w2)) (\<lambda>w3.
         connect_clients fuel env net active indices (clients', w3)))"

text \<open>Settling until the parent has sent a command; \<open>has_command\<close> is what \<^verbatim>\<open>control.poll\<close> answers.\<close>

fun await_command ::
  "nat \<Rightarrow> nat \<Rightarrow> env \<Rightarrow> (nat \<Rightarrow> bool) \<Rightarrow> int list \<Rightarrow> worker \<Rightarrow> (py_exn + worker) option" where
  "await_command 0 fuel env has_command clients w = None"
| "await_command (Suc rounds) fuel env has_command clients w =
     (if has_command (w_tick w) then Some (Inr (observe w))
      else andthen (settle_clients fuel env clients (to_float (5 / 1000)) (observe w))
             (await_command rounds fuel env has_command clients))"

text \<open>Messages sent before the rest of a computation.\<close>

definition emit :: "message list \<Rightarrow> (message list \<times> py_exn option) option \<Rightarrow> (message list \<times> py_exn option) option" where
  "emit ms r = map_option (\<lambda>(ms', e). (ms @ ms', e)) r"

fun serve ::
  "nat \<Rightarrow> env \<Rightarrow> int list \<Rightarrow> int \<Rightarrow> command list \<Rightarrow> worker \<Rightarrow> (message list \<times> py_exn option) option" where
  "serve fuel env clients wid [] w = Some ([], Some EOFError)"
| "serve fuel env clients wid (Close # commands) w = Some ([], None)"
| "serve fuel env clients wid (RunPhase ph # commands) w =
     (case run_phase fuel env clients ph wid w of
        None \<Rightarrow> None
      | Some (Inl e) \<Rightarrow> Some ([], Some e)
      | Some (Inr w') \<Rightarrow>
          emit [Result (w_state w')] (serve fuel env clients wid commands (reset_clients clients w')))"
| "serve fuel env clients wid (SetupComplete # commands) w =
     Some ([], Some (RuntimeError ''invalid worker command''))"

definition assign_cpu :: "(int \<Rightarrow> bool) \<Rightarrow> int list \<Rightarrow> int \<Rightarrow> bool \<times> int option" where
  "assign_cpu pinned worker_cpus wid =
     (if worker_cpus = [] then (False, None)
      else let cpu = worker_cpus ! nat (wid mod int (length worker_cpus)) in (pinned cpu, Some cpu))"

text \<open>The first command, then the phases.\<close>

definition answer ::
  "nat \<Rightarrow> env \<Rightarrow> int list \<Rightarrow> int \<Rightarrow> command list \<Rightarrow> worker \<Rightarrow> (message list \<times> py_exn option) option" where
  "answer fuel env clients wid commands w =
     (case commands of
        [] \<Rightarrow> Some ([], Some EOFError)
      | SetupComplete # rest \<Rightarrow>
          (case settle_clients fuel env clients (to_float (1 / 10)) w of
             None \<Rightarrow> None
           | Some (Inl e) \<Rightarrow> Some ([], Some e)
           | Some (Inr w') \<Rightarrow> emit [Ready wid] (serve fuel env clients wid rest w'))
      | _ # rest \<Rightarrow> Some ([], Some (RuntimeError ''invalid setup command'')))"

text \<open>
  \<^verbatim>\<open>worker_main\<close>: an exception is reported in a last message with its \<^verbatim>\<open>repr\<close>. \<open>pinned\<close> says whether
  setting the affinity to a processor takes effect.
\<close>

definition report_failure :: "(py_exn \<Rightarrow> string) \<Rightarrow> int \<Rightarrow> message list \<times> py_exn option \<Rightarrow> message list" where
  "report_failure repr wid r =
     (case r of (ms, None) \<Rightarrow> ms | (ms, Some e) \<Rightarrow> ms @ [Failed wid (repr e)])"

definition start_worker :: worker where
  "start_worker = \<lparr> w_tick = 0, w_selector = Map.empty, w_clients = (\<lambda>i. new_client i False [] []),
     w_state = empty_state 0 \<rparr>"

text \<open>The messages of \<^verbatim>\<open>worker_main\<close> before the failure is reported.\<close>

definition worker_body ::
  "nat \<Rightarrow> env \<Rightarrow> network \<Rightarrow> (nat \<Rightarrow> bool) \<Rightarrow> (int \<Rightarrow> bool) \<Rightarrow>
   int \<Rightarrow> int list \<Rightarrow> int list \<Rightarrow> int list \<Rightarrow> command list \<Rightarrow> (message list \<times> py_exn option) option" where
  "worker_body fuel env net has_command pinned wid indices active_indices worker_cpus commands =
     (case connect_clients fuel env net (set active_indices) indices ([], start_worker) of
        None \<Rightarrow> None
      | Some (Inl e) \<Rightarrow> Some ([], Some e)
      | Some (Inr (clients, w1)) \<Rightarrow>
          (case assign_cpu pinned worker_cpus wid of (applied, cpu) \<Rightarrow>
           emit [Connected wid applied cpu]
             (case await_command fuel fuel env has_command clients w1 of
                None \<Rightarrow> None
              | Some (Inl e) \<Rightarrow> Some ([], Some e)
              | Some (Inr w2) \<Rightarrow> answer fuel env clients wid commands w2)))"

definition worker_main ::
  "nat \<Rightarrow> env \<Rightarrow> network \<Rightarrow> (nat \<Rightarrow> bool) \<Rightarrow> (int \<Rightarrow> bool) \<Rightarrow> (py_exn \<Rightarrow> string) \<Rightarrow>
   int \<Rightarrow> int list \<Rightarrow> int list \<Rightarrow> int list \<Rightarrow> command list \<Rightarrow> message list option" where
  "worker_main fuel env net has_command pinned repr wid indices active_indices worker_cpus commands =
     map_option (report_failure repr wid)
       (worker_body fuel env net has_command pinned wid indices active_indices worker_cpus commands)"

section \<open>Settling keeps the connections in order\<close>

lemma reset_client_simps [simp]:
  "c_buffer (reset_client c) = []" "c_pending (reset_client c) = []" "c_index (reset_client c) = c_index c"
  "c_send_buffer (reset_client c) = c_send_buffer c" "c_closed (reset_client c) = c_closed c"
  "reset_client (reset_client c) = reset_client c"
  by (simp_all add: reset_client_def)

lemma reset_clients_lookup:
  "w_clients (reset_clients clients w) i = (if i \<in> set clients then reset_client (w_clients w i) else w_clients w i)"
proof -
  have "fold (\<lambda>i cs. cs(i := reset_client (cs i))) clients cs i =
      (if i \<in> set clients then reset_client (cs i) else cs i)" for cs
    by (induction clients arbitrary: cs) auto
  then show ?thesis by (simp add: reset_clients_def)
qed

lemma reset_clients_simps [simp]:
  "w_state (reset_clients clients w) = w_state w" "w_tick (reset_clients clients w) = w_tick w"
  "w_selector (reset_clients clients w) = w_selector w"
  by (simp_all add: reset_clients_def)

text \<open>A worker between phases: the connections are in order and nothing is pending.\<close>

definition idle_ok :: "int list \<Rightarrow> worker \<Rightarrow> bool" where
  "idle_ok clients w \<longleftrightarrow> worker_ok clients w \<and> (\<forall>i\<in>set clients. c_pending (w_clients w i) = [])"

lemma reset_clients_idle: "worker_ok clients w \<Longrightarrow> idle_ok clients (reset_clients clients w)"
  by (auto simp: idle_ok_def worker_ok_def reset_clients_lookup client_ok_def)

lemma settle_body_go:
  assumes "settle_body env ph deadline (cursor, w) = Inr (Inl (cursor', w'))" "worker_ok clients w" "distinct clients"
  shows "worker_ok clients w' \<and> w_tick w < w_tick w' \<and> flt (seconds_of env w) deadline"
proof -
  have s: "service_events env ph (to_float (1 / 100)) (cursor, observe w) = Inr (cursor', w')"
    and b: "flt (seconds_of env w) deadline"
    using assms(1) by (auto simp: settle_body_def exn_simps split: if_splits)
  have "worker_ok clients (observe w)" using assms(2) by simp
  from service_events_ok[OF s this assms(3)] b show ?thesis by (auto simp: serviced_def)
qed

lemma settle_loop_ok:
  assumes "loop fuel (settle_body env ph deadline) (cursor, w) = Some (Inr w')" "worker_ok clients w" "distinct clients"
  shows "worker_ok clients w' \<and> w_tick w < w_tick w'"
proof (rule loop_invariant[OF assms(1), where P = "\<lambda>s :: int \<times> worker. worker_ok clients (snd s) \<and> w_tick w \<le> w_tick (snd s)"])
  show "worker_ok clients (snd (cursor, w)) \<and> w_tick w \<le> w_tick (snd (cursor, w))" using assms(2) by simp
  fix s :: "int \<times> worker" assume s: "worker_ok clients (snd s) \<and> w_tick w \<le> w_tick (snd s)"
  show "worker_ok clients (snd s') \<and> w_tick w \<le> w_tick (snd s')" if "settle_body env ph deadline s = Inr (Inl s')" for s'
    using settle_body_go[of env ph deadline "fst s" "snd s" "fst s'" "snd s'" clients] that s assms(3) by simp
  show "worker_ok clients v \<and> w_tick w < w_tick v" if "settle_body env ph deadline s = Inr (Inr v)" for v
    using that s by (auto simp: settle_body_def exn_simps split: if_splits prod.splits)
qed

lemma settle_clients_ok:
  assumes "settle_clients fuel env clients duration w = Some (Inr w')" "worker_ok clients w" "distinct clients"
  shows "idle_ok clients w' \<and> w_tick w < w_tick w'"
proof -
  obtain v where l: "loop fuel (settle_body env (setup_phase (length clients)) (fadd (seconds_of env w) duration))
      (0, (observe w)\<lparr>w_state := empty_state 0\<rparr>) = Some (Inr v)"
    and w': "w' = reset_clients clients v"
    using assms(1) by (auto simp: settle_clients_def andthen_Some check_settled_def split: if_splits)
  have "worker_ok clients ((observe w)\<lparr>w_state := empty_state 0\<rparr>)" using assms(2) by (intro worker_ok_fresh) simp
  with settle_loop_ok[OF l this assms(3)] show ?thesis by (simp add: w' reset_clients_idle)
qed

text \<open>What may go wrong in a worker: arithmetic, the network and what the code raises itself.\<close>

definition worker_exn :: "py_exn \<Rightarrow> bool" where
  "worker_exn e \<longleftrightarrow> arithmetic_exn e \<or> e = OSError \<or> e = EOFError \<or> (\<exists>s. e = RuntimeError s)"

lemma settle_clients_raise:
  assumes "settle_clients fuel env clients duration w = Some (Inl e)" "worker_ok clients w" "distinct clients"
  shows "worker_exn e"
  using assms(1)[unfolded settle_clients_def]
proof (cases rule: andthen_raise)
  case first
  have "worker_ok clients ((observe w)\<lparr>w_state := empty_state 0\<rparr>)" using assms(2) by (intro worker_ok_fresh) simp
  moreover have "worker_exn e" if "settle_body env ph deadline s = Inl e" "worker_ok clients (snd s)"
    for s :: "int \<times> worker" and ph deadline
    using that service_events_raise[of env ph _ "fst s" "observe (snd s)" e clients] assms(3)
    by (auto simp: settle_body_def seq_Inl_iff worker_exn_def split: if_splits prod.splits)
  moreover have "worker_ok clients (snd s')"
    if "settle_body env ph deadline s = Inr (Inl s')" "worker_ok clients (snd s)" for s s' :: "int \<times> worker" and ph deadline
    using settle_body_go[of env ph deadline "fst s" "snd s" "fst s'" "snd s'" clients] that assms(3) by simp
  ultimately show ?thesis
    using loop_raise[OF first, where P = "\<lambda>s :: int \<times> worker. worker_ok clients (snd s)"] by (metis snd_conv)
next
  case (second v)
  then show ?thesis by (auto simp: check_settled_def worker_exn_def split: if_splits)
qed

text \<open>A clock that gets past every reading of it by the given time.\<close>

definition passes :: "env \<Rightarrow> pyfloat \<Rightarrow> bool" where
  "passes env d \<longleftrightarrow> (\<forall>j. \<exists>M. \<forall>k\<ge>M. fle (fadd (monotonic env j) d) (monotonic env k))"

lemma settle_clients_settles:
  assumes "passes env duration" "worker_ok clients w" "distinct clients"
  shows "settles (\<lambda>fuel. settle_clients fuel env clients duration w)"
  unfolding settle_clients_def
proof (rule settles_andthen[OF _ settles_const])
  obtain M where M: "\<forall>k\<ge>M. fle (fadd (seconds_of env w) duration) (monotonic env k)"
    using assms(1) unfolding passes_def by blast
  have "worker_ok clients ((observe w)\<lparr>w_state := empty_state 0\<rparr>)" using assms(2) by (intro worker_ok_fresh) simp
  then show "settles (\<lambda>fuel. loop fuel (settle_body env (setup_phase (length clients)) (fadd (seconds_of env w) duration))
      (0, (observe w)\<lparr>w_state := empty_state 0\<rparr>))"
  proof (intro settles_loop[where P = "\<lambda>s. worker_ok clients (snd s)" and m = "\<lambda>s. M - w_tick (snd s)"])
    fix s s' :: "int \<times> worker"
    assume "worker_ok clients (snd s)"
      "settle_body env (setup_phase (length clients)) (fadd (seconds_of env w) duration) s = Inr (Inl s')"
    then have go: "worker_ok clients (snd s') \<and> w_tick (snd s) < w_tick (snd s') \<and>
        flt (seconds_of env (snd s)) (fadd (seconds_of env w) duration)"
      using settle_body_go[of env _ _ "fst s" "snd s" "fst s'" "snd s'" clients] assms(3) by simp
    then have "w_tick (snd s) < M" using M fle_not_flt not_le by blast
    with go show "worker_ok clients (snd s') \<and> M - w_tick (snd s') < M - w_tick (snd s)" by auto
  qed simp
qed

section \<open>Connecting puts every client in order\<close>

lemma receive_until_Inr:
  "receive_until marker received (t, c) = Inr (t', c') \<Longrightarrow> (\<exists>rx. c' = c\<lparr>c_rx := rx\<rparr>) \<and> t \<le> t'"
proof (induction marker received "(t, c)" arbitrary: t c rule: receive_until.induct)
  case (1 marker received tick c)
  show ?case
  proof (cases "find_sub marker received = None")
    case False
    then have "c' = c\<lparr>c_rx := c_rx c\<rparr> \<and> tick \<le> t'" using 1(2) by (simp add: receive_until.simps[of marker received])
    then show ?thesis by blast
  next
    case True
    then obtain chunk c1 where r: "sock_recv 4096 c = (Data chunk, c1)" "chunk \<noteq> []"
      "receive_until marker (received @ chunk) (Suc tick, c1) = Inr (t', c')"
      using 1(2) by (auto simp: receive_until.simps[of marker received] split: prod.splits recv_res.splits if_splits)
    have "\<exists>rx. c1 = c\<lparr>c_rx := rx\<rparr>"
      using r(1) by (auto simp: sock_recv_def split: list.splits recv_res.splits)
    then show ?thesis using 1(1)[OF _ r(1)[symmetric] refl r(2) r(3)] True by auto
  qed
qed

lemma receive_until_Inl:
  "receive_until marker received (t, c) = Inl e \<Longrightarrow> worker_exn e"
proof (induction marker received "(t, c)" arbitrary: t c rule: receive_until.induct)
  case (1 marker received tick c)
  then show ?case
    by (cases "find_sub marker received = None"; cases "sock_recv 4096 c"; cases "fst (sock_recv 4096 c)")
      (auto simp: receive_until.simps[of marker received] worker_exn_def split: if_splits)
qed

lemma send_all_Inl: "send_all data tx = Inl e \<Longrightarrow> e = OSError"
  by (induction data tx rule: send_all.induct) (auto simp: seq_Inl_iff)

lemma login_Inr: "login index active c = Inr c' \<Longrightarrow> \<exists>tx wire. c' = c\<lparr>c_tx := tx, c_wire := wire\<rparr>"
proof (cases active)
  case False
  assume "login index active c = Inr c'"
  then have "c' = c\<lparr>c_tx := c_tx c, c_wire := c_wire c\<rparr>" using False by (simp add: login_def)
  then show ?thesis by blast
qed (auto simp: login_def exn_simps)

lemma connect_loop_ok:
  assumes "loop fuel (connect_body env net index deadline) w = Some (Inr w')"
  shows "w' = w\<lparr>w_tick := w_tick w'\<rparr> \<and> w_tick w \<le> w_tick w'"
proof -
  have "(\<exists>t. w' = w\<lparr>w_tick := t\<rparr>) \<and> w_tick w \<le> w_tick w'"
  proof (rule loop_invariant[OF assms, where P = "\<lambda>v. (\<exists>t. v = w\<lparr>w_tick := t\<rparr>) \<and> w_tick w \<le> w_tick v"])
    have "w = w\<lparr>w_tick := w_tick w\<rparr>" by simp
    then show "(\<exists>t. w = w\<lparr>w_tick := t\<rparr>) \<and> w_tick w \<le> w_tick w" by blast
  qed (auto simp: connect_body_def observe_def split: if_splits)
  then show ?thesis by auto
qed

text \<open>The record of a client that has just connected.\<close>

definition fresh_client :: "int \<Rightarrow> client \<Rightarrow> bool" where
  "fresh_client index c \<longleftrightarrow> c_index c = index \<and> c_buffer c = [] \<and> c_pending c = [] \<and> c_send_buffer c = [] \<and> \<not> c_closed c"

lemma connect_client_ok:
  assumes "connect_client fuel env net index active w = Some (Inr (c, w'))"
  shows "fresh_client index c \<and> (\<exists>t\<ge>w_tick w. w' = w\<lparr>w_tick := t\<rparr>)"
proof -
  obtain w1 t c1 where l: "loop fuel (connect_body env net index (fadd (seconds_of env w) (Fin 15))) (observe w) = Some (Inr w1)"
    and r: "receive_until PROMPT [] (Suc (w_tick w1), new_client index active (incoming net index) (outgoing net index)) = Inr (t, c1)"
    and n: "login index active c1 = Inr c" and w': "w' = w1\<lparr>w_tick := t\<rparr>"
    using assms by (auto simp: connect_client_def andthen_Some exn_simps)
  note lo = connect_loop_ok[OF l] and re = receive_until_Inr[OF r]
  have "w1 = w\<lparr>w_tick := w_tick w1\<rparr>" using lo by (simp add: observe_def)
  then have "w' = w\<lparr>w_tick := t\<rparr>" unfolding w' by (metis worker.simps(8) worker.surjective worker.update_convs(1))
  moreover have "w_tick w \<le> t" using lo re by simp
  ultimately show ?thesis
    using re login_Inr[OF n] by (auto simp: fresh_client_def new_client_def)
qed

lemma connect_client_raise:
  assumes "connect_client fuel env net index active w = Some (Inl e)"
  shows "worker_exn e"
  using assms[unfolded connect_client_def]
proof (cases rule: andthen_raise)
  case first
  show ?thesis
    by (rule loop_raise[OF first, where P = "\<lambda>_. True"]) (auto simp: connect_body_def worker_exn_def split: if_splits)
next
  case (second w1)
  then show ?thesis
    by (auto simp: seq_Inl_iff login_def worker_exn_def dest!: receive_until_Inl send_all_Inl split: if_splits)
qed

lemma connect_client_settles:
  assumes "passes env (Fin 15)"
  shows "settles (\<lambda>fuel. connect_client fuel env net index active w)"
  unfolding connect_client_def
proof (rule settles_andthen[OF _ settles_const])
  let ?d = "fadd (seconds_of env w) (Fin 15)"
  obtain M where M: "\<forall>k\<ge>M. fle ?d (monotonic env k)" using assms unfolding passes_def by blast
  show "settles (\<lambda>fuel. loop fuel (connect_body env net index ?d) (observe w))"
  proof (intro settles_loop[where P = "\<lambda>_. True" and m = "\<lambda>v. M - w_tick v"])
    fix v v' assume "connect_body env net index ?d v = Inr (Inl v')"
    then have "v' = observe v" "\<not> fle ?d (seconds_of env v)" by (auto simp: connect_body_def split: if_splits)
    then show "True \<and> M - w_tick v' < M - w_tick v" using M by (metis diff_less_mono2 lessI not_le observe_simps(4))
  qed simp
qed

lemma worker_ok_connected:
  assumes "idle_ok clients w" "fresh_client i c" "i \<notin> set clients"
  shows "idle_ok (clients @ [i]) (w\<lparr>w_tick := t, w_selector := (w_selector w)(i \<mapsto> False), w_clients := (w_clients w)(i := c)\<rparr>)"
  using assms by (auto simp: idle_ok_def worker_ok_def client_ok_def fresh_client_def)

lemma connect_clients_ok:
  assumes "connect_clients fuel env net active indices (clients, w) = Some (Inr (clients', w'))"
    "idle_ok clients w" "distinct (clients @ indices)"
  shows "clients' = clients @ indices \<and> idle_ok clients' w'"
  using assms
proof (induction indices arbitrary: clients w)
  case (Cons i indices)
  obtain c w1 w3 where c: "connect_client fuel env net i (i \<in> active) w = Some (Inr (c, w1))"
    and s: "(if length (clients @ [i]) mod 16 = 0
        then settle_clients fuel env (clients @ [i]) (to_float (1 / 1000))
          (w1\<lparr>w_selector := (w_selector w1)(i \<mapsto> False), w_clients := (w_clients w1)(i := c)\<rparr>)
        else Some (Inr (w1\<lparr>w_selector := (w_selector w1)(i \<mapsto> False), w_clients := (w_clients w1)(i := c)\<rparr>))) = Some (Inr w3)"
    and rest: "connect_clients fuel env net active indices (clients @ [i], w3) = Some (Inr (clients', w'))"
    using Cons.prems(1) by (auto simp: andthen_Some Let_def)
  from connect_client_ok[OF c] obtain t where f: "fresh_client i c" and w1: "w1 = w\<lparr>w_tick := t\<rparr>" by blast
  have i: "i \<notin> set clients" "distinct (clients @ [i])" using Cons.prems(3) by auto
  have "idle_ok (clients @ [i]) (w1\<lparr>w_selector := (w_selector w1)(i \<mapsto> False), w_clients := (w_clients w1)(i := c)\<rparr>)"
    using worker_ok_connected[OF Cons.prems(2) f i(1), of t] by (simp add: w1)
  then have "idle_ok (clients @ [i]) w3"
    using s settle_clients_ok[OF _ _ i(2)] by (auto simp: idle_ok_def split: if_splits)
  from Cons.IH[OF rest this] Cons.prems(3) show ?case by auto
qed simp

lemma connect_clients_raise:
  assumes "connect_clients fuel env net active indices (clients, w) = Some (Inl e)"
    "idle_ok clients w" "distinct (clients @ indices)"
  shows "worker_exn e"
  using assms
proof (induction indices arbitrary: clients w)
  case (Cons i indices)
  have i: "i \<notin> set clients" "distinct (clients @ [i])" using Cons.prems(3) by auto
  let ?w2 = "\<lambda>c w1. w1\<lparr>w_selector := (w_selector w1)(i \<mapsto> False), w_clients := (w_clients w1)(i := c)\<rparr>"
  have ok: "idle_ok (clients @ [i]) (?w2 c w1)" if "connect_client fuel env net i (i \<in> active) w = Some (Inr (c, w1))" for c w1
    using connect_client_ok[OF that] worker_ok_connected[OF Cons.prems(2) _ i(1)] by auto
  from Cons.prems(1)[unfolded connect_clients.simps] show ?case
  proof (cases rule: andthen_raise)
    case first
    then show ?thesis by (rule connect_client_raise)
  next
    case (second x)
    obtain c w1 where x: "x = (c, w1)" by (cases x)
    note ok = ok[OF second(1)[unfolded x]]
    from second(2)[unfolded x prod.case Let_def] show ?thesis
    proof (cases rule: andthen_raise)
      case first
      then show ?thesis using settle_clients_raise[OF _ _ i(2)] ok by (auto simp: idle_ok_def split: if_splits)
    next
      case (second w3)
      then have "idle_ok (clients @ [i]) w3"
        using ok settle_clients_ok[OF _ _ i(2)] by (auto simp: idle_ok_def split: if_splits)
      with second(2) show ?thesis using Cons.IH Cons.prems(3) by simp
    qed
  qed
qed simp

lemma connect_clients_settles:
  assumes "passes env (Fin 15)" "passes env (to_float (1 / 1000))" "idle_ok clients w" "distinct (clients @ indices)"
  shows "settles (\<lambda>fuel. connect_clients fuel env net active indices (clients, w))"
  using assms(3,4)
proof (induction indices arbitrary: clients w)
  case Nil
  show ?case by (simp add: settles_const)
next
  case (Cons i indices)
  have i: "i \<notin> set clients" "distinct (clients @ [i])" using Cons.prems(2) by auto
  let ?w2 = "\<lambda>c w1. w1\<lparr>w_selector := (w_selector w1)(i \<mapsto> False), w_clients := (w_clients w1)(i := c)\<rparr>"
  show ?case
    unfolding connect_clients.simps
  proof (rule settles_andthen[OF connect_client_settles[OF assms(1)]])
    fix fuel x assume "connect_client fuel env net i (i \<in> active) w = Some (Inr x)"
    moreover obtain c w1 where x: "x = (c, w1)" by (cases x)
    ultimately have ok: "idle_ok (clients @ [i]) (?w2 c w1)"
      using connect_client_ok worker_ok_connected[OF Cons.prems(1) _ i(1)] by fastforce
    show "settles (\<lambda>fuel. case x of (c, w1) \<Rightarrow>
        let clients' = clients @ [i]; w2 = ?w2 c w1
        in andthen (if length clients' mod 16 = 0 then settle_clients fuel env clients' (to_float (1 / 1000)) w2
                    else Some (Inr w2)) (\<lambda>w3. connect_clients fuel env net active indices (clients', w3)))"
      unfolding x prod.case Let_def
    proof (rule settles_andthen)
      show "settles (\<lambda>fuel. if length (clients @ [i]) mod 16 = 0
          then settle_clients fuel env (clients @ [i]) (to_float (1 / 1000)) (?w2 c w1) else Some (Inr (?w2 c w1)))"
        using settle_clients_settles[OF assms(2) _ i(2), of "?w2 c w1"] ok
        by (cases "length (clients @ [i]) mod 16 = 0") (simp_all add: settles_const idle_ok_def)
      fix fuel w3
      assume "(if length (clients @ [i]) mod 16 = 0
          then settle_clients fuel env (clients @ [i]) (to_float (1 / 1000)) (?w2 c w1) else Some (Inr (?w2 c w1))) = Some (Inr w3)"
      then have "idle_ok (clients @ [i]) w3"
        using ok settle_clients_ok[OF _ _ i(2)] by (auto simp: idle_ok_def split: if_splits)
      then show "settles (\<lambda>fuel. connect_clients fuel env net active indices (clients @ [i], w3))"
        using Cons.IH Cons.prems(2) by simp
    qed
  qed
qed

section \<open>Answering the commands\<close>

lemma settles_cases:
  assumes "settles r" "\<And>fuel x. r fuel = Some (Inr x) \<Longrightarrow> settles (\<lambda>fuel. g fuel x)"
  shows "settles (\<lambda>fuel. case r fuel of None \<Rightarrow> None | Some (Inl e) \<Rightarrow> Some (h e) | Some (Inr x) \<Rightarrow> g fuel x)"
proof -
  obtain n x where n: "r fuel = Some x" if "n \<le> fuel" for fuel using assms(1) unfolding settles_def by blast
  show ?thesis
  proof (cases x)
    case (Inl e)
    then show ?thesis unfolding settles_def using n by (intro exI[of _ n] exI[of _ "h e"]) simp
  next
    case (Inr y)
    then have "settles (\<lambda>fuel. g fuel y)" using assms(2)[of n y] n[of n] by simp
    then obtain k z where "g fuel y = Some z" if "k \<le> fuel" for fuel unfolding settles_def by blast
    then show ?thesis unfolding settles_def using n Inr by (intro exI[of _ "max n k"] exI[of _ z]) simp
  qed
qed

lemma settles_map: "settles r \<Longrightarrow> settles (\<lambda>fuel. map_option f (r fuel))"
  unfolding settles_def by (metis option.map(2))

lemma settles_emit: "settles r \<Longrightarrow> settles (\<lambda>fuel. emit ms (r fuel))"
  unfolding emit_def by (rule settles_map)

lemma await_command_ok:
  assumes "await_command rounds fuel env has_command clients w = Some (Inr w')" "idle_ok clients w" "distinct clients"
  shows "idle_ok clients w'"
  using assms(1,2)
proof (induction rounds arbitrary: w)
  case (Suc rounds)
  have obs: "idle_ok clients (observe w)" using Suc.prems(2) by (simp add: idle_ok_def)
  show ?case
  proof (cases "has_command (w_tick w)")
    case False
    then obtain v where "settle_clients fuel env clients (to_float (5 / 1000)) (observe w) = Some (Inr v)"
      and rest: "await_command rounds fuel env has_command clients v = Some (Inr w')"
      using Suc.prems(1) by (auto simp: andthen_Some)
    then have "idle_ok clients v" using settle_clients_ok[OF _ _ assms(3)] obs by (auto simp: idle_ok_def)
    then show ?thesis by (rule Suc.IH[OF rest])
  qed (use Suc.prems obs in auto)
qed simp

lemma await_command_raise:
  assumes "await_command rounds fuel env has_command clients w = Some (Inl e)" "idle_ok clients w" "distinct clients"
  shows "worker_exn e"
  using assms(1,2)
proof (induction rounds arbitrary: w)
  case (Suc rounds)
  have obs: "worker_ok clients (observe w)" using Suc.prems(2) by (simp add: idle_ok_def)
  have a: "andthen (settle_clients fuel env clients (to_float (5 / 1000)) (observe w))
      (await_command rounds fuel env has_command clients) = Some (Inl e)"
    using Suc.prems(1) by (simp split: if_splits)
  from a show ?case
  proof (cases rule: andthen_raise)
    case first
    then show ?thesis by (rule settle_clients_raise[OF _ obs assms(3)])
  next
    case (second v)
    then show ?thesis using Suc.IH settle_clients_ok[OF second(1) obs assms(3)] by blast
  qed
qed simp

lemma await_command_settles:
  assumes "\<forall>k\<ge>M. has_command k" "passes env (to_float (5 / 1000))" "worker_ok clients w" "distinct clients"
  shows "\<exists>n x. \<forall>rounds\<ge>n. \<forall>fuel\<ge>n. await_command rounds fuel env has_command clients w = Some x"
  using assms(3)
proof (induction "M - w_tick w" arbitrary: w rule: less_induct)
  case less
  show ?case
  proof (cases "has_command (w_tick w)")
    case True
    then have "await_command rounds fuel env has_command clients w = Some (Inr (observe w))" if "1 \<le> rounds" for rounds fuel
      using that by (cases rounds) auto
    then show ?thesis by blast
  next
    case False
    have obs: "worker_ok clients (observe w)" using less.prems by simp
    obtain n x where n: "settle_clients fuel env clients (to_float (5 / 1000)) (observe w) = Some x" if "n \<le> fuel" for fuel
      using settle_clients_settles[OF assms(2) obs assms(4)] unfolding settles_def by blast
    have "\<exists>k y. \<forall>rounds\<ge>k. \<forall>fuel\<ge>k. andthen (Some x) (await_command rounds fuel env has_command clients) = Some y"
    proof (cases x)
      case (Inr v)
      have v: "worker_ok clients v" "w_tick w < w_tick v"
        using settle_clients_ok[OF n[of n, unfolded Inr] obs assms(4)] by (simp_all add: idle_ok_def)
      moreover have "w_tick w < M" using False assms(1) not_le by blast
      ultimately have "M - w_tick v < M - w_tick w" by auto
      from less.hyps[OF this v(1)] show ?thesis by (simp add: Inr andthen_def)
    qed (simp add: andthen_def)
    then obtain k y where k: "andthen (Some x) (await_command rounds fuel env has_command clients) = Some y"
      if "k \<le> rounds" "k \<le> fuel" for rounds fuel by blast
    have "await_command rounds fuel env has_command clients w = Some y" if "Suc (max n k) \<le> rounds" "Suc (max n k) \<le> fuel" for rounds fuel
      using that False n[of fuel] k[of "rounds - 1" fuel] by (cases rounds) auto
    then show ?thesis by blast
  qed
qed

text \<open>What the answer to a phase is known to satisfy.\<close>

definition answered :: "int list \<Rightarrow> phase \<Rightarrow> load_state \<Rightarrow> bool" where
  "answered clients ph st \<longleftrightarrow> tally_ok st \<and>
     0 \<le> sent_operations st \<and> 0 \<le> missed_offers st \<and>
     offered_operations st = sent_operations st + missed_offers st \<and>
     (ph_workload ph = ''direct'' \<longrightarrow> eventual_completions st \<le> sent_operations st) \<and>
     (\<exists>target late. to_py_int (fmul (ph_rate ph) (ph_duration ph)) = Inr target \<and>
        (\<forall>x\<in>set late. ph_deadline_ns ph \<le> scheduled_ns x) \<and>
        offered_operations st + (\<Sum>x\<leftarrow>late. offers_from ph target (sequence x)) = offers_due ph target clients)"

lemma outstanding_nonneg: "0 \<le> outstanding clients w"
  unfolding outstanding_def by (rule sum_list_nonneg) auto

lemma run_phase_answered:
  assumes "run_phase fuel env clients ph wid w = Some (Inr w')" "idle_ok clients w" "distinct clients"
    "ph_active_indices ph \<noteq> []"
  shows "answered clients ph (w_state w')" "worker_ok clients w'"
  using run_phase_balance[OF assms(1) _ assms(3,4)] assms(2) outstanding_nonneg[of clients w']
  by (auto simp: answered_def idle_ok_def worker_ok_def)

lemma serve_ok:
  assumes "serve fuel env clients wid (map RunPhase phases @ [Close]) w = Some (ms, err)"
    "idle_ok clients w" "distinct clients" "\<forall>ph\<in>set phases. ph_active_indices ph \<noteq> []"
  shows "\<exists>states. ms = map Result states \<and> list_all2 (answered clients) (take (length states) phases) states \<and>
    (case err of None \<Rightarrow> length states = length phases | Some e \<Rightarrow> length states < length phases \<and> worker_exn e)"
  using assms
proof (induction phases arbitrary: w ms)
  case (Cons ph phases)
  have act: "ph_active_indices ph \<noteq> []" using Cons.prems(4) by simp
  show ?case
  proof (cases "\<exists>w'. run_phase fuel env clients ph wid w = Some (Inr w')")
    case True
    then obtain w' where r: "run_phase fuel env clients ph wid w = Some (Inr w')" by blast
    note ra = run_phase_answered[OF r Cons.prems(2,3) act]
    obtain ms' where ms: "ms = Result (w_state w') # ms'"
      and rest: "serve fuel env clients wid (map RunPhase phases @ [Close]) (reset_clients clients w') = Some (ms', err)"
      using Cons.prems(1) by (auto simp: r emit_def)
    obtain states where "ms' = map Result states" "list_all2 (answered clients) (take (length states) phases) states"
      "case err of None \<Rightarrow> length states = length phases | Some e \<Rightarrow> length states < length phases \<and> worker_exn e"
      using Cons.IH[OF rest reset_clients_idle[OF ra(2)] Cons.prems(3)] Cons.prems(4) by auto
    then show ?thesis using ra(1) by (intro exI[of _ "w_state w' # states"]) (auto simp: ms split: option.splits)
  next
    case False
    then obtain e where "run_phase fuel env clients ph wid w = Some (Inl e)" "ms = []" "err = Some e"
      using Cons.prems(1) by (auto split: option.splits sum.splits)
    moreover from this have "arithmetic_exn e"
      using run_phase_raise[OF _ _ Cons.prems(3) act] Cons.prems(2) by (auto simp: idle_ok_def)
    ultimately show ?thesis by (intro exI[of _ "[]"]) (simp add: worker_exn_def)
  qed
qed simp

text \<open>The clocks get past the times of a phase.\<close>

definition phase_ends :: "env \<Rightarrow> phase \<Rightarrow> bool" where
  "phase_ends env ph \<longleftrightarrow> ph_active_indices ph \<noteq> [] \<and> passes env (ph_drain ph) \<and>
     (\<exists>N. \<forall>k\<ge>N. ph_start_ns ph \<le> monotonic_ns env k \<and> ph_deadline_ns ph \<le> monotonic_ns env k)"

lemma serve_settles:
  assumes "\<forall>ph\<in>set phases. phase_ends env ph" "idle_ok clients w" "distinct clients"
  shows "settles (\<lambda>fuel. serve fuel env clients wid (map RunPhase phases @ [Close]) w)"
  using assms(1,2)
proof (induction phases arbitrary: w)
  case Nil
  show ?case by (simp add: settles_const)
next
  case (Cons ph phases)
  have ph: "phase_ends env ph" using Cons.prems(1) by simp
  obtain N where N: "\<forall>k\<ge>N. ph_start_ns ph \<le> monotonic_ns env k \<and> ph_deadline_ns ph \<le> monotonic_ns env k"
    using ph by (auto simp: phase_ends_def)
  have d: "\<forall>j. \<exists>M. \<forall>k\<ge>M. \<not> flt (monotonic env k) (fadd (monotonic env j) (ph_drain ph))"
    using ph fle_not_flt unfolding phase_ends_def passes_def by blast
  have "settles (\<lambda>fuel. run_phase fuel env clients ph wid w)"
    using run_phase_settles[OF N d _ assms(3)] Cons.prems(2) ph by (simp add: idle_ok_def phase_ends_def)
  then show ?case
    unfolding list.map append_Cons serve.simps
  proof (rule settles_cases)
    fix fuel w' assume "run_phase fuel env clients ph wid w = Some (Inr w')"
    then have "worker_ok clients w'"
      using run_phase_answered(2) Cons.prems(2) assms(3) ph by (simp add: phase_ends_def)
    then have "settles (\<lambda>fuel. serve fuel env clients wid (map RunPhase phases @ [Close]) (reset_clients clients w'))"
      using Cons.IH reset_clients_idle Cons.prems(1) by simp
    then show "settles (\<lambda>fuel. emit [Result (w_state w')]
        (serve fuel env clients wid (map RunPhase phases @ [Close]) (reset_clients clients w')))"
      by (rule settles_emit)
  qed
qed

section \<open>The protocol of a worker\<close>

text \<open>
  The parent's view of a worker: it says that it is connected, that it is ready, and answers every
  phase with consistent counters; at any time before the end it may fail, saying why.
\<close>

datatype protocol = Connecting | Settling | Serving "phase list" | Broken

inductive worker_step :: "(py_exn \<Rightarrow> string) \<Rightarrow> int list \<Rightarrow> int \<Rightarrow> phase list \<Rightarrow> protocol \<Rightarrow> message \<Rightarrow> protocol \<Rightarrow> bool"
  for repr clients wid phases where
  connected: "worker_step repr clients wid phases Connecting (Connected wid applied cpu) Settling"
| ready: "worker_step repr clients wid phases Settling (Ready wid) (Serving phases)"
| result: "answered clients ph st \<Longrightarrow>
    worker_step repr clients wid phases (Serving (ph # phs)) (Result st) (Serving phs)"
| failed: "worker_exn e \<Longrightarrow> s \<noteq> Broken \<Longrightarrow> s \<noteq> Serving [] \<Longrightarrow>
    worker_step repr clients wid phases s (Failed wid (repr e)) Broken"

inductive worker_trace :: "(py_exn \<Rightarrow> string) \<Rightarrow> int list \<Rightarrow> int \<Rightarrow> phase list \<Rightarrow> protocol \<Rightarrow> message list \<Rightarrow> protocol \<Rightarrow> bool"
  for repr clients wid phases where
  none: "worker_trace repr clients wid phases s [] s"
| more: "worker_step repr clients wid phases s m s1 \<Longrightarrow> worker_trace repr clients wid phases s1 ms s2 \<Longrightarrow>
    worker_trace repr clients wid phases s (m # ms) s2"

definition protocol_over :: "protocol \<Rightarrow> bool" where
  "protocol_over s \<longleftrightarrow> s = Serving [] \<or> s = Broken"

text \<open>Messages, and how the worker ended, as a run of the protocol from a state.\<close>

definition conforms ::
  "(py_exn \<Rightarrow> string) \<Rightarrow> int list \<Rightarrow> int \<Rightarrow> phase list \<Rightarrow> protocol \<Rightarrow> message list \<times> py_exn option \<Rightarrow> bool" where
  "conforms repr clients wid phases s r \<longleftrightarrow>
     (\<exists>s'. worker_trace repr clients wid phases s (report_failure repr wid r) s' \<and> protocol_over s')"

lemma conforms_failure:
  "worker_exn e \<Longrightarrow> s \<noteq> Broken \<Longrightarrow> s \<noteq> Serving [] \<Longrightarrow> conforms repr clients wid phases s ([], Some e)"
  unfolding conforms_def report_failure_def by (auto intro!: exI[of _ Broken] worker_trace.intros worker_step.intros simp: protocol_over_def)

lemma conforms_step:
  assumes "worker_step repr clients wid phases s m s1" "conforms repr clients wid phases s1 (ms, err)"
  shows "conforms repr clients wid phases s (m # ms, err)"
  using assms by (cases err) (auto simp: conforms_def report_failure_def intro: worker_trace.more)

lemma serve_conforms:
  assumes "list_all2 (answered clients) (take (length states) phs) states"
    "case err of None \<Rightarrow> length states = length phs | Some e \<Rightarrow> length states < length phs \<and> worker_exn e"
  shows "conforms repr clients wid phases (Serving phs) (map Result states, err)"
  using assms
proof (induction states arbitrary: phs rule: list.induct)
  case Nil
  show ?case
  proof (cases err)
    case None
    then show ?thesis using Nil
      by (auto simp: conforms_def report_failure_def protocol_over_def intro!: exI[of _ "Serving []"] worker_trace.none)
  qed (use Nil in \<open>auto intro!: conforms_failure\<close>)
next
  case (Cons st states)
  then obtain ph phs' where phs: "phs = ph # phs'" by (cases phs) (auto split: option.splits)
  have "conforms repr clients wid phases (Serving phs') (map Result states, err)"
    using Cons.IH[of phs'] Cons.prems phs by (auto split: option.splits)
  then show ?case using Cons.prems(1) phs by (auto intro!: conforms_step worker_step.result)
qed

lemma answer_conforms:
  assumes "answer fuel env clients wid (SetupComplete # map RunPhase phases @ [Close]) w = Some r"
    "idle_ok clients w" "distinct clients" "\<forall>ph\<in>set phases. ph_active_indices ph \<noteq> []"
  shows "conforms repr clients wid phases Settling r"
proof (cases "\<exists>w'. settle_clients fuel env clients (to_float (1 / 10)) w = Some (Inr w')")
  case True
  then obtain w' where s: "settle_clients fuel env clients (to_float (1 / 10)) w = Some (Inr w')" by blast
  then obtain ms err where r: "r = (Ready wid # ms, err)"
    and v: "serve fuel env clients wid (map RunPhase phases @ [Close]) w' = Some (ms, err)"
    using assms(1) by (auto simp: answer_def emit_def)
  have "idle_ok clients w'" using settle_clients_ok[OF s _ assms(3)] assms(2) by (simp add: idle_ok_def)
  from serve_ok[OF v this assms(3,4)] show ?thesis
    using serve_conforms by (auto simp: r intro!: conforms_step worker_step.ready)
next
  case False
  then obtain e where e: "settle_clients fuel env clients (to_float (1 / 10)) w = Some (Inl e)" "r = ([], Some e)"
    using assms(1) by (auto simp: answer_def split: option.splits sum.splits)
  then have "worker_exn e" using settle_clients_raise[OF e(1) _ assms(3)] assms(2) by (simp add: idle_ok_def)
  then show ?thesis unfolding e(2) by (rule conforms_failure) auto
qed

lemma start_worker_idle: "idle_ok [] start_worker"
  by (simp add: idle_ok_def worker_ok_def start_worker_def tally_ok_def empty_state_def)

lemma worker_body_conforms:
  assumes "worker_body fuel env net has_command pinned wid indices active worker_cpus
      (SetupComplete # map RunPhase phases @ [Close]) = Some r"
    "distinct indices" "\<forall>ph\<in>set phases. ph_active_indices ph \<noteq> []"
  shows "conforms repr indices wid phases Connecting r"
proof (cases "\<exists>x. connect_clients fuel env net (set active) indices ([], start_worker) = Some (Inr x)")
  case False
  then obtain e where e: "connect_clients fuel env net (set active) indices ([], start_worker) = Some (Inl e)" "r = ([], Some e)"
    using assms(1) by (auto simp: worker_body_def split: option.splits sum.splits)
  have "worker_exn e" using connect_clients_raise[OF e(1) start_worker_idle] assms(2) by simp
  then show ?thesis unfolding e(2) by (rule conforms_failure) auto
next
  case True
  then obtain clients w1 where c: "connect_clients fuel env net (set active) indices ([], start_worker) = Some (Inr (clients, w1))"
    by auto
  have w1: "clients = indices" "idle_ok indices w1" using connect_clients_ok[OF c start_worker_idle] assms(2) by auto
  obtain applied cpu where a: "assign_cpu pinned worker_cpus wid = (applied, cpu)" by fastforce
  let ?w = "await_command fuel fuel env has_command indices w1"
  obtain r' where r: "r = (Connected wid applied cpu # fst r', snd r')"
    and r': "(case ?w of None \<Rightarrow> None | Some (Inl e) \<Rightarrow> Some ([], Some e)
      | Some (Inr w2) \<Rightarrow> answer fuel env indices wid (SetupComplete # map RunPhase phases @ [Close]) w2) = Some r'"
    using assms(1) by (auto simp: worker_body_def c a emit_def w1(1))
  have "conforms repr indices wid phases Settling r'"
  proof (cases "\<exists>w2. ?w = Some (Inr w2)")
    case True
    then obtain w2 where w2: "?w = Some (Inr w2)" by blast
    show ?thesis
      using r' answer_conforms[OF _ await_command_ok[OF w2 w1(2) assms(2)] assms(2,3)] by (simp add: w2)
  next
    case False
    then obtain e where e: "?w = Some (Inl e)" "r' = ([], Some e)" using r' by (auto split: option.splits sum.splits)
    then show ?thesis unfolding e(2) by (intro conforms_failure await_command_raise[OF e(1) w1(2) assms(2)]) auto
  qed
  then show ?thesis unfolding r by (intro conforms_step[OF worker_step.connected]) simp
qed

lemma answer_settles:
  assumes "passes env (to_float (1 / 10))" "\<forall>ph\<in>set phases. phase_ends env ph" "idle_ok clients w" "distinct clients"
  shows "settles (\<lambda>fuel. answer fuel env clients wid (SetupComplete # map RunPhase phases @ [Close]) w)"
  unfolding answer_def list.case command.case
proof (rule settles_cases)
  show "settles (\<lambda>fuel. settle_clients fuel env clients (to_float (1 / 10)) w)"
    using assms(3) by (intro settle_clients_settles[OF assms(1) _ assms(4)]) (simp add: idle_ok_def)
  fix fuel w' assume "settle_clients fuel env clients (to_float (1 / 10)) w = Some (Inr w')"
  then have "idle_ok clients w'" using settle_clients_ok[OF _ _ assms(4)] assms(3) by (auto simp: idle_ok_def)
  then show "settles (\<lambda>fuel. emit [Ready wid] (serve fuel env clients wid (map RunPhase phases @ [Close]) w'))"
    by (intro settles_emit serve_settles[OF assms(2) _ assms(4)])
qed

lemma worker_body_settles:
  assumes "distinct indices" "passes env (Fin 15)" "passes env (to_float (1 / 1000))" "passes env (to_float (5 / 1000))"
    "passes env (to_float (1 / 10))" "\<forall>k\<ge>M. has_command k" "\<forall>ph\<in>set phases. phase_ends env ph"
  shows "settles (\<lambda>fuel. worker_body fuel env net has_command pinned wid indices active worker_cpus
    (SetupComplete # map RunPhase phases @ [Close]))"
  unfolding worker_body_def
proof (rule settles_cases)
  show "settles (\<lambda>fuel. connect_clients fuel env net (set active) indices ([], start_worker))"
    using assms(1) by (intro connect_clients_settles[OF assms(2,3) start_worker_idle]) simp
  fix fuel x assume c: "connect_clients fuel env net (set active) indices ([], start_worker) = Some (Inr x)"
  obtain clients w1 where x: "x = (clients, w1)" by (cases x)
  have w1: "clients = indices" "idle_ok indices w1"
    using connect_clients_ok[OF c[unfolded x] start_worker_idle] assms(1) by auto
  obtain applied cpu where a: "assign_cpu pinned worker_cpus wid = (applied, cpu)" by fastforce
  have "settles (\<lambda>fuel. await_command fuel fuel env has_command indices w1)"
    using await_command_settles[OF assms(6,4) _ assms(1)] w1(2) unfolding settles_def idle_ok_def by blast
  then have "settles (\<lambda>fuel. case await_command fuel fuel env has_command indices w1 of None \<Rightarrow> None
      | Some (Inl e) \<Rightarrow> Some ([], Some e)
      | Some (Inr w2) \<Rightarrow> answer fuel env indices wid (SetupComplete # map RunPhase phases @ [Close]) w2)"
  proof (rule settles_cases)
    fix fuel w2 assume w2: "await_command fuel fuel env has_command indices w1 = Some (Inr w2)"
    show "settles (\<lambda>fuel. answer fuel env indices wid (SetupComplete # map RunPhase phases @ [Close]) w2)"
      by (rule answer_settles[OF assms(5,7) await_command_ok[OF w2 w1(2) assms(1)] assms(1)])
  qed
  then show "settles (\<lambda>fuel. case x of (clients, w1) \<Rightarrow> (case assign_cpu pinned worker_cpus wid of (applied, cpu) \<Rightarrow>
      emit [Connected wid applied cpu]
        (case await_command fuel fuel env has_command clients w1 of None \<Rightarrow> None
         | Some (Inl e) \<Rightarrow> Some ([], Some e)
         | Some (Inr w2) \<Rightarrow> answer fuel env clients wid (SetupComplete # map RunPhase phases @ [Close]) w2)))"
    unfolding x prod.case a w1(1) by (rule settles_emit)
qed

text \<open>C2: a worker keeps to its protocol, and ends. Given the commands that a trial sends, and clocks
  that get past the waiting times, enough fuel gives one and the same list of messages: the worker
  says that it is connected, then that it is ready, then answers each phase in order, the counters of
  every answer accounting for all offers of the worker's clients in that phase; or it breaks off with
  one last message that names a failure of the network, of arithmetic or one the code raises itself,
  never a lookup in the selector or the queues.\<close>

theorem worker_main_refines_protocol:
  assumes "distinct indices" "\<forall>k\<ge>M. has_command k" "\<forall>ph\<in>set phases. phase_ends env ph"
    and "passes env (Fin 15)" "passes env (to_float (1 / 1000))" "passes env (to_float (5 / 1000))"
      "passes env (to_float (1 / 10))"
  shows "\<exists>n out s. (\<forall>fuel\<ge>n. worker_main fuel env net has_command pinned repr wid indices active worker_cpus
        (SetupComplete # map RunPhase phases @ [Close]) = Some out) \<and>
      worker_trace repr indices wid phases Connecting out s \<and> protocol_over s"
proof -
  let ?body = "\<lambda>fuel. worker_body fuel env net has_command pinned wid indices active worker_cpus
      (SetupComplete # map RunPhase phases @ [Close])"
  obtain n r where n: "\<forall>fuel\<ge>n. ?body fuel = Some r"
    using worker_body_settles[OF assms(1,4-7,2,3)] unfolding settles_def by blast
  have "conforms repr indices wid phases Connecting r"
    using worker_body_conforms[OF n[rule_format, OF order_refl] assms(1)] assms(3) by (simp add: phase_ends_def)
  then show ?thesis
    unfolding conforms_def worker_main_def using n by (intro exI[of _ n] exI[of _ "report_failure repr wid r"]) auto
qed

text \<open>Two clients whose server sends the prompt at once, and one phase.\<close>

definition prompt_network :: network where
  "prompt_network = \<lparr> accepts = (\<lambda>i k. True), incoming = (\<lambda>i. [Data PROMPT]), outgoing = (\<lambda>i. [Sent 8, Sent 6]) \<rparr>"

lemma counting_passes: "0 \<le> d \<Longrightarrow> d \<le> 15 \<Longrightarrow> passes counting_env (Fin d)"
  unfolding passes_def using counting_clock by blast

lemma counting_phase: "phase_ends counting_env short_phase"
proof -
  have "\<forall>k\<ge>9. ph_start_ns short_phase \<le> monotonic_ns counting_env k \<and> ph_deadline_ns short_phase \<le> monotonic_ns counting_env k"
    by (simp add: counting_env_def sample_env_def short_phase_def)
  moreover have "passes counting_env (ph_drain short_phase)" "ph_active_indices short_phase \<noteq> []"
    by (simp_all add: short_phase_def sample_phase_def counting_passes)
  ultimately show ?thesis unfolding phase_ends_def by blast
qed

theorem worker_main_refines_protocol_witness:
  "\<exists>n out s. worker_main n counting_env prompt_network (\<lambda>k. 50 < k) (\<lambda>cpu. True) (\<lambda>e. ''error'') 0 [0, 1] [0, 1] [3]
      [SetupComplete, RunPhase short_phase, Close] = Some out \<and>
    worker_trace (\<lambda>e. ''error'') [0, 1] 0 [short_phase] Connecting out s \<and> protocol_over s"
proof -
  have small: "passes counting_env (to_float x)" if "0 \<le> x" "x \<le> 1" for x
    using to_float_unit[OF that] counting_passes[of "rnd64 x"] by simp
  have "\<forall>ph\<in>set [short_phase]. phase_ends counting_env ph" "\<forall>k\<ge>51. 50 < (k::nat)" using counting_phase by auto
  from worker_main_refines_protocol[OF _ this(2,1), of "[0, 1]" prompt_network "\<lambda>cpu. True" "\<lambda>e. ''error''" 0 "[0, 1]" "[3]"]
  show ?thesis using counting_passes[of 15] small[of "1 / 1000"] small[of "5 / 1000"] small[of "1 / 10"]
    by (simp del: One_nat_def) (metis order_refl)
qed

section \<open>Responses of an earlier phase\<close>

lemma recv_loop_idle: "c_rx c = [] \<Longrightarrow> recv_loop clock ph calls bytes_read (t, sel, c, st) = Inr (t, sel, c, st)"
  by (subst recv_loop.simps) (simp add: sock_recv_def)

text \<open>C25: a response that comes too late for its phase completes a request of the next one. Between
  phases a worker forgets the requests that are pending, but neither the frames still queued nor the
  responses still to come. So if a client's socket takes no bytes while its first request of the new
  phase is queued, and the late response to an earlier request is then read, the new request counts as
  completed although not one byte of it has been sent.\<close>

theorem stale_response_completes:
  assumes "sel (c_index c) \<noteq> None" "c_send_buffer c = []" "c_tx c = []"
    and "c_rx c = [Data (WHERE_RESPONSE @ [CHR 0x0A])]"
    and "ph_workload ph = ''direct''" "1 \<le> ph_max_recv_calls ph" "64 \<le> ph_max_recv_bytes ph"
    and "int_div (clock t - sent_ns) 1000000 = Inr latency"
  shows "\<exists>sel1 c1 st1 t' c2 st2.
    queue_client_frame sel (reset_client c) (offer_frame ph i seqno sent_ns) sent_ns ''direct'' st = Inr (True, sel1, c1, st1) \<and>
    process_client_read clock ph now_ns None (t, sel1, c1, st1) = Inr (t', sel1, c2, st2) \<and>
    c_pending c1 = [sent_ns] \<and> c_pending c2 = [] \<and>
    eventual_completions st2 = eventual_completions st + 1 \<and> latencies_ms st2 = latencies_ms st @ [latency] \<and>
    c_wire c2 = c_wire c \<and> c_send_buffer c2 = offer_frame ph i seqno sent_ns"
proof -
  let ?c1 = "(reset_client c)\<lparr>c_send_buffer := offer_frame ph i seqno sent_ns, c_pending := [sent_ns]\<rparr>"
  let ?st1 = "st\<lparr>sent_operations := sent_operations st + 1, client_send_eagain := client_send_eagain st + 1\<rparr>"
  let ?sel1 = "sel(c_index c \<mapsto> True)"
  have frame: "offer_frame ph i seqno sent_ns = ''WHERE'' @ [CHR 0x0A]" using assms(5) by (simp add: offer_frame_def)
  have q: "queue_client_frame sel (reset_client c) (offer_frame ph i seqno sent_ns) sent_ns ''direct'' st =
      Inr (True, ?sel1, ?c1, ?st1)"
    using assms(1-3) flush_loop_block(1)[of ?c1 "st\<lparr>sent_operations := sent_operations st + 1\<rparr>"]
    by (simp add: queue_client_frame_def frame MAX_CLIENT_SEND_QUEUE_def flush_client_send_def update_interest_def reset_client_def)
  have h: "handle_line ph WHERE_RESPONSE (clock t) (?c1\<lparr>c_rx := [], c_buffer := []\<rparr>) ?st1 =
      Inr (?c1\<lparr>c_rx := [], c_buffer := [], c_pending := []\<rparr>,
        count_completion (clock t \<le> ph_deadline_ns ph) latency (count_delivery (clock t \<le> ph_deadline_ns ph) ?st1))"
    using assms(5,8) by (simp add: handle_line_def handle_direct_def WHERE_RESPONSE_def Let_def)
  let ?c2 = "?c1\<lparr>c_rx := [], c_buffer := [], c_pending := []\<rparr>"
  have r: "sock_recv (nat (min 16384 (ph_max_recv_bytes ph))) ?c1 = (Data (WHERE_RESPONSE @ [CHR 0x0A]), ?c1\<lparr>c_rx := []\<rparr>)"
    using assms(4,7) by (auto simp: sock_recv_def reset_client_def WHERE_RESPONSE_def)
  have sf: "split_first (CHR 0x0A) (WHERE_RESPONSE @ [CHR 0x0A]) = Some (WHERE_RESPONSE, [])"
    by (simp add: WHERE_RESPONSE_def)
  have p: "process_buffer clock ph (t, ?c1\<lparr>c_rx := [], c_buffer := WHERE_RESPONSE @ [CHR 0x0A]\<rparr>, ?st1) =
      Inr (Suc t, ?c2, count_completion (clock t \<le> ph_deadline_ns ph) latency
        (count_delivery (clock t \<le> ph_deadline_ns ph) ?st1))"
    using h by (simp add: process_buffer.simps sf)
  have e: "recv_loop clock ph 0 0 (t, ?sel1, ?c1, ?st1) = Inr (Suc t, ?sel1, ?c2,
      count_completion (clock t \<le> ph_deadline_ns ph) latency (count_delivery (clock t \<le> ph_deadline_ns ph) ?st1))"
    using assms(6,7) p by (subst recv_loop.simps) (simp add: r recv_loop_idle)
  show ?thesis
    using q e by (simp add: process_client_read_def note_read_gap_def count_defs reset_client_def)
qed

definition late_client :: client where
  "late_client = new_client 0 True [Data (WHERE_RESPONSE @ [CHR 0x0A])] []"

theorem stale_response_completes_witness:
  "\<exists>sel1 c1 st1 t' c2 st2.
    queue_client_frame [0 \<mapsto> False] (reset_client late_client) (offer_frame short_phase 0 0 0) 0 ''direct'' (empty_state 0) =
      Inr (True, sel1, c1, st1) \<and>
    process_client_read (\<lambda>k. 2000000) short_phase 0 None (0, sel1, c1, st1) = Inr (t', sel1, c2, st2) \<and>
    eventual_completions st2 = 1 \<and> c_wire c2 = []"
proof -
  have "int_div (2000000 - 0) 1000000 = Inr (Fin 2)" by (simp add: int_div_def float_simps)
  then show ?thesis
    using stale_response_completes[where sel = "[0 \<mapsto> False]" and c = late_client and ph = short_phase and
      clock = "\<lambda>k. 2000000" and t = 0 and sent_ns = 0 and latency = "Fin 2" and i = 0 and seqno = 0 and st = "empty_state 0" and now_ns = 0]
    by (simp add: late_client_def new_client_def short_phase_def sample_phase_def empty_state_def) blast
qed

end
