(* ===== verification/Shell_Words.thy ===== *)
theory Shell_Words
  imports Py_Format
begin

text \<open>
  The command lines that the harness records for replay (\<^verbatim>\<open>shlex.join\<close> in \<^verbatim>\<open>bench/benchmark.py\<close>
  and \<^verbatim>\<open>bench/compare.py\<close>): the quoting of Python's \<^verbatim>\<open>shlex\<close>, and the splitting of a line into
  words by which a POSIX shell reads it.
\<close>

section \<open>Quoting\<close>

text \<open>The characters that need no quotes: ASCII letters, digits and \<^verbatim>\<open>_@%+=:,./-\<close>.\<close>

definition safe_char :: "char \<Rightarrow> bool" where
  "safe_char c \<longleftrightarrow>
     (let n = of_char c :: nat
      in 48 \<le> n \<and> n \<le> 57 \<or> 65 \<le> n \<and> n \<le> 90 \<or> 97 \<le> n \<and> n \<le> 122 \<or> c \<in> set ''_@%+=:,./-'')"

definition single_quote :: char where
  "single_quote = CHR 0x27"

definition double_quote :: char where
  "double_quote = CHR 0x22"

definition shell_quote :: "string \<Rightarrow> string" where
  "shell_quote s =
     (if s = [] then [single_quote, single_quote]
      else if list_all safe_char s then s
      else single_quote #
        concat (map (\<lambda>c. if c = single_quote
          then [single_quote, double_quote, single_quote, double_quote, single_quote] else [c]) s) @
        [single_quote])"

definition shlex_join :: "string list \<Rightarrow> string" where
  "shlex_join words = join '' '' (map shell_quote words)"

section \<open>Splitting\<close>

datatype quoting = Between | Bare | Single | Double

text \<open>The words of a line, \<open>None\<close> for one that ends inside quotes or after a backslash.\<close>

fun split_words :: "quoting \<Rightarrow> string \<Rightarrow> string \<Rightarrow> string list option" where
  "split_words Between w [] = Some []"
| "split_words Bare w [] = Some [w]"
| "split_words Single w [] = None"
| "split_words Double w [] = None"
| "split_words Single w (c # cs) =
     (if c = single_quote then split_words Bare w cs else split_words Single (w @ [c]) cs)"
| "split_words Double w (c # cs) =
     (if c = double_quote then split_words Bare w cs
      else if c = CHR 0x5C
      then (case cs of
          [] \<Rightarrow> None
        | d # ds \<Rightarrow>
            if d = double_quote \<or> d = CHR 0x5C then split_words Double (w @ [d]) ds
            else split_words Double (w @ [c, d]) ds)
      else split_words Double (w @ [c]) cs)"
| "split_words m w (c # cs) =
     (if c = CHR '' '' \<or> c = CHR 0x09 \<or> c = CHR 0x0A
      then (if m = Between then split_words Between [] cs
            else map_option (\<lambda>ws. w # ws) (split_words Between [] cs))
      else if c = single_quote then split_words Single w cs
      else if c = double_quote then split_words Double w cs
      else if c = CHR 0x5C
      then (case cs of [] \<Rightarrow> None | d # ds \<Rightarrow> split_words Bare (w @ [d]) ds)
      else split_words Bare (w @ [c]) cs)"

definition shell_split :: "string \<Rightarrow> string list option" where
  "shell_split line = split_words Between [] line"

lemma safe_char_plain:
  "safe_char c \<Longrightarrow> c \<noteq> CHR '' '' \<and> c \<noteq> CHR 0x09 \<and> c \<noteq> CHR 0x0A \<and> c \<noteq> single_quote \<and> c \<noteq> double_quote \<and> c \<noteq> CHR 0x5C"
  by (auto simp: safe_char_def Let_def single_quote_def double_quote_def)

lemma split_bare: "list_all safe_char s \<Longrightarrow> split_words Bare w (s @ rest) = split_words Bare (w @ s) rest"
  by (induction s arbitrary: w) (auto dest: safe_char_plain)

lemma split_between: "s \<noteq> [] \<Longrightarrow> list_all safe_char s \<Longrightarrow> split_words Between [] (s @ rest) = split_words Bare s rest"
  by (cases s) (auto dest: safe_char_plain simp: split_bare)

lemma quotes_differ: "single_quote \<noteq> double_quote" "double_quote \<noteq> single_quote" "single_quote \<noteq> CHR 0x5C" "single_quote \<noteq> CHR '' ''" "single_quote \<noteq> CHR 0x09" "single_quote \<noteq> CHR 0x0A" "double_quote \<noteq> CHR '' ''" "double_quote \<noteq> CHR 0x09" "double_quote \<noteq> CHR 0x0A"
  by (simp_all add: single_quote_def double_quote_def)

lemma split_single:
  "split_words Single w (concat (map (\<lambda>c. if c = single_quote
      then [single_quote, double_quote, single_quote, double_quote, single_quote] else [c]) s) @ single_quote # rest) =
    split_words Bare (w @ s) rest"
  by (induction s arbitrary: w) (simp_all add: quotes_differ)

lemma split_quoted: "split_words Between [] (shell_quote s @ rest) = split_words Bare s rest"
  by (simp add: shell_quote_def split_between split_single quotes_differ)

text \<open>A recorded command line, read by a shell, gives back exactly the words of the command: no
  argument is split, merged, expanded or lost.\<close>

theorem shlex_join_roundtrip: "shell_split (shlex_join words) = Some words"
proof (cases words)
  case Nil
  then show ?thesis by (simp add: shell_split_def shlex_join_def)
next
  case (Cons s ss)
  have "split_words Between [] (join '' '' (map shell_quote (s # ss))) = Some (s # ss)" for s ss
  proof (induction ss arbitrary: s)
    case Nil
    show ?case using split_quoted[of s "[]"] by simp
  next
    case (Cons t ss)
    then show ?case by (simp add: split_quoted quotes_differ)
  qed
  with Cons show ?thesis by (simp add: shell_split_def shlex_join_def)
qed

interpretation shell_line: codec shlex_join "\<lambda>line. the (shell_split line)" "\<lambda>_. True"
  by unfold_locales (simp add: shlex_join_roundtrip)

end
