(* ===== verification/Trial_Result.thy ===== *)
theory Trial_Result
  imports Load_State Phase_Config Statistics Shell_Words "HOL-Library.List_Lexorder" "HOL-Library.Char_ord"
begin

text \<open>
  The result row of a trial and its verdict (\<^verbatim>\<open>run_trial\<close>, \<^verbatim>\<open>classify_result\<close>,
  \<^verbatim>\<open>valid_summary_groups\<close> and the medians of \<^verbatim>\<open>print_summary\<close> in \<^verbatim>\<open>bench/benchmark.py\<close>).
\<close>

section \<open>The verdict\<close>

definition SERVER_METRIC_FIELDS :: "string list" where
  "SERVER_METRIC_FIELDS =
     [''wait_calls'', ''total_events'', ''events_per_wait_p50'', ''events_per_wait_p95'',
      ''events_per_wait_max'', ''full_event_batches'', ''epoll_ctl_add'', ''epoll_ctl_mod'',
      ''epoll_ctl_del'', ''immediate_write_successes'', ''partial_writes'', ''send_calls'',
      ''recv_calls'', ''send_eagain'', ''recv_eagain'', ''bytes_read'', ''bytes_written'',
      ''queue_overflows'', ''disconnects'', ''queue_high_water_bytes'', ''queue_high_water_messages'']"

text \<open>
  The entries of a row that the verdict reads, \<open>None\<close> for one that is missing (or, for the
  percentiles and the metrics, holds \<^verbatim>\<open>None\<close>).
\<close>

record verdict_row =
  v_diagnostic_mode :: "string option"
  v_profile_started :: "bool option"
  v_harness_error :: "string option"
  v_server_crashed :: "bool option"
  v_client_disconnects :: "int option"
  v_server_disconnects :: "int option"
  v_send_errors :: "int option"
  v_delivery_ratio :: "pyfloat option"
  v_deadline_completion_ratio :: "pyfloat option"
  v_missed_offer_ratio :: "pyfloat option"
  v_scheduling_lag_p99_ms :: "pyfloat option"
  v_p99_ms :: "pyfloat option"
  v_max_read_service_gap_ms :: "pyfloat option"
  v_metrics :: "string \<rightharpoonup> int"

datatype reason =
    DiagnosticRun string
  | ProfilerUnavailable string
  | HarnessFailed string
  | ServerCrash
  | Disconnects int
  | SendErrors int
  | LowDelivery pyfloat pyfloat
  | LowDeadlineCompletion pyfloat pyfloat
  | ManyMissedOffers pyfloat pyfloat
  | MissingLag
  | HighLag pyfloat pyfloat
  | MissingLatency
  | HighLatency pyfloat pyfloat
  | MissingReadGap
  | HighReadGap pyfloat pyfloat
  | MissingMetrics "string list"
  | QueueOverflows int

definition get_default :: "'a \<Rightarrow> 'a option \<Rightarrow> 'a" where
  "get_default d x = (case x of None \<Rightarrow> d | Some v \<Rightarrow> v)"

definition guard_reason :: "bool \<Rightarrow> reason \<Rightarrow> reason list" where
  "guard_reason b r = (if b then [r] else [])"

text \<open>A limit on a value that must be there: \<^verbatim>\<open>None\<close> and a value above are invalid.\<close>

definition limit_reason :: "reason \<Rightarrow> (pyfloat \<Rightarrow> pyfloat \<Rightarrow> reason) \<Rightarrow> pyfloat option \<Rightarrow> pyfloat \<Rightarrow> reason list" where
  "limit_reason missing over x limit =
     (case x of None \<Rightarrow> [missing] | Some v \<Rightarrow> guard_reason (flt limit v) (over v limit))"

text \<open>
  A ratio compared under a default; the message then reads the entry itself, which fails when it
  is missing.
\<close>

definition ratio_reason :: "bool \<Rightarrow> (pyfloat \<Rightarrow> reason) \<Rightarrow> pyfloat option \<Rightarrow> py_exn + reason list" where
  "ratio_reason bad r x =
     (if bad then (case x of None \<Rightarrow> Inl KeyError | Some v \<Rightarrow> Inr [r v]) else Inr [])"

definition reasons_of :: "bench_args \<Rightarrow> verdict_row \<Rightarrow> py_exn + reason list" where
  "reasons_of a row =
     (let mode = get_default ''none'' (v_diagnostic_mode row);
          diagnostic = (if mode \<noteq> ''none''
            then DiagnosticRun mode # guard_reason (\<not> get_default False (v_profile_started row)) (ProfilerUnavailable mode)
            else []);
          harness = guard_reason (get_default '''' (v_harness_error row) \<noteq> '''') (HarnessFailed (get_default '''' (v_harness_error row)));
          crash = guard_reason (get_default False (v_server_crashed row)) ServerCrash;
          disconnects = max (get_default 0 (v_client_disconnects row)) (get_default 0 (v_server_disconnects row));
          disconnected = guard_reason (disconnects \<noteq> 0 \<and> \<not> arg_allow_disconnects a) (Disconnects disconnects);
          errors = get_default 0 (v_send_errors row);
          failed_sends = guard_reason (errors \<noteq> 0) (SendErrors errors);
          deadline_ratio = get_default (Fin 0) (v_deadline_completion_ratio row);
          late = guard_reason (flt deadline_ratio (arg_min_deadline_completion_ratio a))
            (LowDeadlineCompletion deadline_ratio (arg_min_deadline_completion_ratio a));
          missing = filter (\<lambda>f. v_metrics row f = None) SERVER_METRIC_FIELDS;
          overflows = get_default 0 (v_metrics row ''queue_overflows'')
      in seq (ratio_reason (flt (get_default (Fin 0) (v_delivery_ratio row)) (arg_min_delivery_ratio a))
               (\<lambda>x. LowDelivery x (arg_min_delivery_ratio a)) (v_delivery_ratio row)) (\<lambda>low.
         seq (ratio_reason (flt (arg_max_missed_offer_ratio a) (get_default (Fin 1) (v_missed_offer_ratio row)))
               (\<lambda>x. ManyMissedOffers x (arg_max_missed_offer_ratio a)) (v_missed_offer_ratio row)) (\<lambda>missed.
           Inr (diagnostic @ harness @ crash @ disconnected @ failed_sends @ low @ late @ missed @
             limit_reason MissingLag HighLag (v_scheduling_lag_p99_ms row) (arg_max_scheduler_lag_ms a) @
             limit_reason MissingLatency HighLatency (v_p99_ms row) (arg_max_latency_p99_ms a) @
             limit_reason MissingReadGap HighReadGap (v_max_read_service_gap_ms row) (arg_max_read_service_gap_ms a) @
             guard_reason (missing \<noteq> []) (MissingMetrics missing) @
             guard_reason (overflows \<noteq> 0 \<and> \<not> arg_allow_queue_overflow a) (QueueOverflows overflows)))))"

fun reason_text :: "reason \<Rightarrow> string" where
  "reason_text (DiagnosticRun m) = ''diagnostic '' @ m @ '' run is not eligible for latency claims''"
| "reason_text (ProfilerUnavailable m) = m @ '' profiler unavailable''"
| "reason_text (HarnessFailed e) = ''harness error: '' @ e"
| "reason_text ServerCrash = ''server crash''"
| "reason_text (Disconnects n) = ''unexpected disconnects: '' @ show_int n"
| "reason_text (SendErrors n) = ''unexpected send errors: '' @ show_int n"
| "reason_text (LowDelivery x l) = ''delivery ratio '' @ show_fixed 6 x @ '' below '' @ show_fixed 6 l"
| "reason_text (LowDeadlineCompletion x l) =
     ''deadline completion ratio '' @ show_fixed 6 x @ '' below '' @ show_fixed 6 l"
| "reason_text (ManyMissedOffers x l) = ''missed offer ratio '' @ show_fixed 6 x @ '' above '' @ show_fixed 6 l"
| "reason_text MissingLag = ''missing scheduler lag''"
| "reason_text (HighLag x l) = ''scheduler p99 '' @ show_fixed 3 x @ '' ms above '' @ show_fixed 3 l @ '' ms''"
| "reason_text MissingLatency = ''missing latency p99''"
| "reason_text (HighLatency x l) = ''latency p99 '' @ show_fixed 3 x @ '' ms above '' @ show_fixed 3 l @ '' ms''"
| "reason_text MissingReadGap = ''missing read-service gap''"
| "reason_text (HighReadGap x l) = ''read-service gap '' @ show_fixed 3 x @ '' ms above '' @ show_fixed 3 l @ '' ms''"
| "reason_text (MissingMetrics fs) = ''missing instrumentation: '' @ join '','' fs"
| "reason_text (QueueOverflows n) = ''unexpected queue overflows: '' @ show_int n"

definition classify_result :: "verdict_row \<Rightarrow> bench_args \<Rightarrow> py_exn + bool \<times> string" where
  "classify_result row a =
     seq (reasons_of a row) (\<lambda>reasons. Inr (reasons = [], join ''; '' (map reason_text reasons)))"

section \<open>What a valid row promises\<close>

text \<open>The conditions under which a trial counts, written with the comparisons of the reals.\<close>

definition within_limits :: "bench_args \<Rightarrow> verdict_row \<Rightarrow> bool" where
  "within_limits a row \<longleftrightarrow>
     get_default ''none'' (v_diagnostic_mode row) = ''none'' \<and>
     get_default '''' (v_harness_error row) = '''' \<and> \<not> get_default False (v_server_crashed row) \<and>
     (arg_allow_disconnects a \<or>
        max (get_default 0 (v_client_disconnects row)) (get_default 0 (v_server_disconnects row)) = 0) \<and>
     get_default 0 (v_send_errors row) = 0 \<and>
     fle (arg_min_delivery_ratio a) (get_default (Fin 0) (v_delivery_ratio row)) \<and>
     fle (arg_min_deadline_completion_ratio a) (get_default (Fin 0) (v_deadline_completion_ratio row)) \<and>
     fle (get_default (Fin 1) (v_missed_offer_ratio row)) (arg_max_missed_offer_ratio a) \<and>
     (\<exists>lag. v_scheduling_lag_p99_ms row = Some lag \<and> fle lag (arg_max_scheduler_lag_ms a)) \<and>
     (\<exists>latency. v_p99_ms row = Some latency \<and> fle latency (arg_max_latency_p99_ms a)) \<and>
     (\<exists>gap. v_max_read_service_gap_ms row = Some gap \<and> fle gap (arg_max_read_service_gap_ms a)) \<and>
     (\<forall>f\<in>set SERVER_METRIC_FIELDS. v_metrics row f \<noteq> None) \<and>
     (arg_allow_queue_overflow a \<or> v_metrics row ''queue_overflows'' = Some 0)"

text \<open>No entry of the row and no limit is \<^verbatim>\<open>nan\<close>.\<close>

definition comparable :: "bench_args \<Rightarrow> verdict_row \<Rightarrow> bool" where
  "comparable a row \<longleftrightarrow>
     NaN \<notin> {arg_min_delivery_ratio a, arg_min_deadline_completion_ratio a, arg_max_missed_offer_ratio a,
       arg_max_scheduler_lag_ms a, arg_max_latency_p99_ms a, arg_max_read_service_gap_ms a} \<and>
     Some NaN \<notin> {v_delivery_ratio row, v_deadline_completion_ratio row, v_missed_offer_ratio row,
       v_scheduling_lag_p99_ms row, v_p99_ms row, v_max_read_service_gap_ms row}"

lemma guard_reason_Nil [simp]: "guard_reason b r = [] \<longleftrightarrow> \<not> b"
  by (simp add: guard_reason_def)

lemma limit_reason_Nil: "limit_reason m f x l = [] \<longleftrightarrow> (\<exists>v. x = Some v \<and> \<not> flt l v)"
  by (auto simp: limit_reason_def split: option.splits)

lemma ratio_reason_Nil: "ratio_reason b r x = Inr [] \<longleftrightarrow> \<not> b"
  by (auto simp: ratio_reason_def split: option.splits)

lemma reason_text_nonempty: "reason_text r \<noteq> []"
  by (cases r) auto

lemma reasons_of_empty:
  "reasons_of a row = Inr [] \<longleftrightarrow>
     get_default ''none'' (v_diagnostic_mode row) = ''none'' \<and>
     get_default [] (v_harness_error row) = [] \<and> \<not> get_default False (v_server_crashed row) \<and>
     (max (get_default 0 (v_client_disconnects row)) (get_default 0 (v_server_disconnects row)) = 0 \<or>
        arg_allow_disconnects a) \<and>
     get_default 0 (v_send_errors row) = 0 \<and>
     \<not> flt (get_default (Fin 0) (v_delivery_ratio row)) (arg_min_delivery_ratio a) \<and>
     \<not> flt (get_default (Fin 0) (v_deadline_completion_ratio row)) (arg_min_deadline_completion_ratio a) \<and>
     \<not> flt (arg_max_missed_offer_ratio a) (get_default (Fin 1) (v_missed_offer_ratio row)) \<and>
     limit_reason MissingLag HighLag (v_scheduling_lag_p99_ms row) (arg_max_scheduler_lag_ms a) = [] \<and>
     limit_reason MissingLatency HighLatency (v_p99_ms row) (arg_max_latency_p99_ms a) = [] \<and>
     limit_reason MissingReadGap HighReadGap (v_max_read_service_gap_ms row) (arg_max_read_service_gap_ms a) = [] \<and>
     filter (\<lambda>f. v_metrics row f = None) SERVER_METRIC_FIELDS = [] \<and>
     (get_default 0 (v_metrics row ''queue_overflows'') = 0 \<or> arg_allow_queue_overflow a)"
proof -
  have two: "seq (ratio_reason b r x) (\<lambda>low. seq (ratio_reason b' r' x') (\<lambda>missed.
      Inr (p1 @ p2 @ p3 @ p4 @ p5 @ low @ q @ missed @ s1 @ s2 @ s3 @ s4 @ s5))) = Inr [] \<longleftrightarrow>
      p1 = [] \<and> p2 = [] \<and> p3 = [] \<and> p4 = [] \<and> p5 = [] \<and> \<not> b \<and> q = [] \<and> \<not> b' \<and> s1 = [] \<and> s2 = [] \<and>
      s3 = [] \<and> s4 = [] \<and> s5 = []"
    for b r x b' r' x' p1 p2 p3 p4 p5 q s1 s2 s3 s4 s5
    by (auto simp: seq_Inr_iff ratio_reason_def split: option.splits)
  have diag: "(if m \<noteq> ''none'' then DiagnosticRun m # xs else []) = [] \<longleftrightarrow> m = ''none''" for m xs by simp
  show ?thesis
    unfolding reasons_of_def Let_def two diag guard_reason_Nil by (simp only: not_not de_Morgan_conj)
qed

lemma reasons_of_Nil:
  assumes "comparable a row"
  shows "reasons_of a row = Inr [] \<longleftrightarrow> within_limits a row"
proof -
  let ?d = "get_default (Fin 0) (v_delivery_ratio row)" and ?c = "get_default (Fin 0) (v_deadline_completion_ratio row)"
    and ?m = "get_default (Fin 1) (v_missed_offer_ratio row)"
  have nan: "?d \<noteq> NaN" "?c \<noteq> NaN" "?m \<noteq> NaN"
    using assms by (auto simp: comparable_def get_default_def split: option.splits)
  have limits: "arg_min_delivery_ratio a \<noteq> NaN" "arg_min_deadline_completion_ratio a \<noteq> NaN" "arg_max_missed_offer_ratio a \<noteq> NaN"
    "arg_max_scheduler_lag_ms a \<noteq> NaN" "arg_max_latency_p99_ms a \<noteq> NaN" "arg_max_read_service_gap_ms a \<noteq> NaN"
    using assms by (auto simp: comparable_def)
  have lim: "limit_reason m f x l = [] \<longleftrightarrow> (\<exists>v. x = Some v \<and> fle v l)" if "l \<noteq> NaN" "x \<noteq> Some NaN" for m f x l
    using that not_flt[of l] by (auto simp: limit_reason_Nil)
  have some: "v_scheduling_lag_p99_ms row \<noteq> Some NaN" "v_p99_ms row \<noteq> Some NaN" "v_max_read_service_gap_ms row \<noteq> Some NaN"
    using assms by (auto simp: comparable_def)
  have metrics: "filter (\<lambda>f. v_metrics row f = None) SERVER_METRIC_FIELDS = [] \<longleftrightarrow>
      (\<forall>f\<in>set SERVER_METRIC_FIELDS. v_metrics row f \<noteq> None)"
    by (simp add: filter_empty_conv)
  have over: "get_default 0 (v_metrics row ''queue_overflows'') = 0 \<longleftrightarrow> v_metrics row ''queue_overflows'' = Some 0"
    if "\<forall>f\<in>set SERVER_METRIC_FIELDS. v_metrics row f \<noteq> None"
    using bspec[OF that, of "''queue_overflows''"] by (auto simp: get_default_def SERVER_METRIC_FIELDS_def)
  show ?thesis
    unfolding reasons_of_empty within_limits_def metrics not_flt[OF nan(1) limits(1)] not_flt[OF nan(2) limits(2)]
      not_flt[OF limits(3) nan(3)] lim[OF limits(4) some(1)] lim[OF limits(5) some(2)] lim[OF limits(6) some(3)]
    using over by blast
qed

text \<open>C26: a trial is classified valid exactly when it stayed within every limit: no diagnostic run, no
  harness error or crash, no disconnects or queue overflows unless allowed, no send errors, ratios,
  latency, lag and read gap within their limits and present, and every server metric reported;
  provided no limit and no value is \<^verbatim>\<open>nan\<close>. A valid trial has no reason text, an invalid one has
  some.\<close>

theorem classify_result_correct:
  assumes "comparable a row" "classify_result row a = Inr (valid, text)"
  shows "(valid \<longleftrightarrow> within_limits a row) \<and> (valid \<longleftrightarrow> text = [])"
proof -
  obtain rs where rs: "reasons_of a row = Inr rs" "valid \<longleftrightarrow> rs = []" "text = join ''; '' (map reason_text rs)"
    using assms(2) by (auto simp: classify_result_def exn_simps)
  then show ?thesis
    using reasons_of_Nil[OF assms(1)] join_map_nonempty[of reason_text "''; ''" rs] reason_text_nonempty by auto
qed

definition good_row :: verdict_row where
  "good_row =
     \<lparr> v_diagnostic_mode = Some ''none'', v_profile_started = Some False, v_harness_error = Some [],
       v_server_crashed = Some False, v_client_disconnects = Some 0, v_server_disconnects = Some 0,
       v_send_errors = Some 0, v_delivery_ratio = Some (Fin 1), v_deadline_completion_ratio = Some (Fin 1),
       v_missed_offer_ratio = Some (Fin 0), v_scheduling_lag_p99_ms = Some (Fin 2), v_p99_ms = Some (Fin 5),
       v_max_read_service_gap_ms = Some (Fin 3), v_metrics = (\<lambda>f. Some 0) \<rparr>"

lemma to_float_not_nan: "to_float x \<noteq> NaN"
  by (simp add: to_float_def Let_def)

lemma good_row_comparable: "comparable default_args good_row"
  by (simp add: comparable_def good_row_def default_args_def to_float_not_nan[symmetric])

theorem classify_result_correct_witness:
  "\<exists>text. classify_result good_row default_args = Inr (True, text) \<and>
     within_limits default_args good_row \<and> text = []"
proof -
  have "within_limits default_args good_row"
    by (simp add: within_limits_def good_row_def default_args_def get_default_def to_float_unit(1,2,3))
  then have "reasons_of default_args good_row = Inr []" using reasons_of_Nil[OF good_row_comparable] by simp
  then have c: "classify_result good_row default_args = Inr (True, [])" by (simp add: classify_result_def)
  show ?thesis using classify_result_correct[OF good_row_comparable c] c by blast
qed

text \<open>C27: the checks on the command line let \<^verbatim>\<open>nan\<close> through as a latency limit, and under it no
  latency is ever reported as too high: \<^verbatim>\<open>min\<close> skips it and every comparison with it is false.\<close>

theorem nan_limit_is_no_limit:
  "check_args True (default_args\<lparr>arg_max_latency_p99_ms := NaN\<rparr>) = Inr () \<and>
   classify_result (good_row\<lparr>v_p99_ms := Some (Fin x)\<rparr>) (default_args\<lparr>arg_max_latency_p99_ms := NaN\<rparr>) = Inr (True, [])"
proof -
  let ?a = "default_args\<lparr>arg_max_latency_p99_ms := NaN\<rparr>" and ?r = "good_row\<lparr>v_p99_ms := Some (Fin x)\<rparr>"
  have "check_args True ?a = Inr ()"
    by (simp add: check_args_def default_args_def in_unit_to_float not_positive_def py_min_def fle_def)
  moreover have "reasons_of ?a ?r = Inr []"
    unfolding reasons_of_empty
    by (simp add: good_row_def default_args_def get_default_def limit_reason_Nil not_less to_float_unit(1,2,3))
  ultimately show ?thesis by (simp add: classify_result_def)
qed

section \<open>The row of a trial\<close>

text \<open>What \<^verbatim>\<open>run_trial\<close> has gathered when it builds the row.\<close>

record trial_outcome =
  oc_timestamp :: string
  oc_server_affinity_applied :: bool
  oc_profile_command :: "string list"
  oc_profile_events :: "string list"
  oc_profile_error :: string
  oc_state :: state_dict
  oc_worker_setup :: "bool list"
  oc_load_workers :: int
  oc_cpu_start :: "pyfloat option"
  oc_cpu_end :: "pyfloat option"
  oc_server_metrics :: "(string \<rightharpoonup> int) option"
  oc_server_crashed :: bool
  oc_profile_started :: bool
  oc_harness_error :: string
  oc_disconnect_reasons :: "string list"

record trial_row =
  tr_timestamp_utc :: string
  tr_label :: string
  tr_experiment :: string
  tr_server :: string
  tr_workload :: string
  tr_total_connections :: int
  tr_active_connections :: int
  tr_clients :: int
  tr_load_workers :: int
  tr_server_affinity :: string
  tr_server_affinity_applied :: bool
  tr_worker_affinity :: string
  tr_worker_affinity_applied :: bool
  tr_run :: int
  tr_duration_s :: pyfloat
  tr_global_offered_rate_s :: pyfloat
  tr_payload_bytes :: int
  tr_offered_operations :: int
  tr_sent_operations :: int
  tr_missed_offers :: int
  tr_offered_msg_s :: pyfloat
  tr_completed_by_deadline :: int
  tr_eventual_completions :: int
  tr_completed_by_deadline_msg_s :: pyfloat
  tr_delivered :: int
  tr_delivered_by_deadline_msg_s :: pyfloat
  tr_inbound_messages_s :: pyfloat
  tr_outbound_deliveries_s :: pyfloat
  tr_per_socket_receive_rate_s :: pyfloat
  tr_fan_out :: int
  tr_delivery_ratio :: pyfloat
  tr_latency_samples :: nat
  tr_p50_ms :: "pyfloat option"
  tr_p95_ms :: "pyfloat option"
  tr_p99_ms :: "pyfloat option"
  tr_generator_cpu_percent :: pyfloat
  tr_server_cpu_percent :: "pyfloat option"
  tr_scheduling_lag_p50_ms :: "pyfloat option"
  tr_scheduling_lag_p95_ms :: "pyfloat option"
  tr_scheduling_lag_p99_ms :: "pyfloat option"
  tr_max_read_service_gap_ms :: pyfloat
  tr_worker_start_skew_ms :: pyfloat
  tr_client_disconnects :: int
  tr_send_errors :: int
  tr_client_partial_sends :: int
  tr_client_send_eagain :: int
  tr_server_crashed :: bool
  tr_diagnostic_mode :: string
  tr_profile_started :: bool
  tr_profile_command :: string
  tr_profile_events :: string
  tr_profile_error :: string
  tr_harness_error :: string
  tr_server_disconnects :: int
  tr_disconnect_reasons :: string
  tr_metrics :: "string \<rightharpoonup> int"
  tr_missed_offer_ratio :: pyfloat
  tr_deadline_completion_ratio :: pyfloat
  tr_cpu_per_completed_request_us :: "pyfloat option"
  tr_valid :: bool
  tr_invalid_reasons :: string

text \<open>The samples are quotients of integers, hence finite.\<close>

definition finite_parts :: "pyfloat list \<Rightarrow> rat list" where
  "finite_parts xs = map (\<lambda>x. case x of Fin r \<Rightarrow> r | _ \<Rightarrow> 0) xs"

definition samples :: "state_dict \<Rightarrow> string \<Rightarrow> rat list" where
  "samples state key = finite_parts (the (d_lists state key))"

definition counter :: "state_dict \<Rightarrow> string \<Rightarrow> int" where
  "counter state key = the (d_ints state key)"

text \<open>\<^verbatim>\<open>n / x\<close> for an integer and a float.\<close>

definition int_over :: "int \<Rightarrow> pyfloat \<Rightarrow> py_exn + pyfloat" where
  "int_over n x = seq (of_py_int n) (\<lambda>f. fdiv f x)"

definition ratio_or :: "pyfloat \<Rightarrow> int \<Rightarrow> int \<Rightarrow> py_exn + pyfloat" where
  "ratio_or d a b = (if b \<noteq> 0 then int_div a b else Inr d)"

definition server_cpu_percent :: "bench_args \<Rightarrow> trial_outcome \<Rightarrow> py_exn + pyfloat option" where
  "server_cpu_percent a oc =
     (case (oc_cpu_start oc, oc_cpu_end oc) of
        (Some s, Some e) \<Rightarrow> seq (fdiv (fsub e s) (arg_duration a)) (\<lambda>q. Inr (Some (fmul q (Fin 100))))
      | _ \<Rightarrow> Inr None)"

definition cpu_per_request :: "bench_args \<Rightarrow> pyfloat option \<Rightarrow> int \<Rightarrow> py_exn + pyfloat option" where
  "cpu_per_request a cpu completions =
     (case cpu of
        None \<Rightarrow> Inr None
      | Some c \<Rightarrow>
          if completions = 0 then Inr None
          else seq (of_py_int completions) (\<lambda>n.
               seq (fdiv (fmul (fmul c (arg_duration a)) (Fin 10000)) n) (\<lambda>q. Inr (Some q))))"

definition verdict_of :: "trial_row \<Rightarrow> verdict_row" where
  "verdict_of r =
     \<lparr> v_diagnostic_mode = Some (tr_diagnostic_mode r), v_profile_started = Some (tr_profile_started r),
       v_harness_error = Some (tr_harness_error r), v_server_crashed = Some (tr_server_crashed r),
       v_client_disconnects = Some (tr_client_disconnects r), v_server_disconnects = Some (tr_server_disconnects r),
       v_send_errors = Some (tr_send_errors r), v_delivery_ratio = Some (tr_delivery_ratio r),
       v_deadline_completion_ratio = Some (tr_deadline_completion_ratio r),
       v_missed_offer_ratio = Some (tr_missed_offer_ratio r),
       v_scheduling_lag_p99_ms = tr_scheduling_lag_p99_ms r, v_p99_ms = tr_p99_ms r,
       v_max_read_service_gap_ms = Some (tr_max_read_service_gap_ms r), v_metrics = tr_metrics r \<rparr>"

text \<open>The row before its verdict.\<close>

definition measured_row ::
  "bench_args \<Rightarrow> string \<Rightarrow> int \<Rightarrow> int \<Rightarrow> int \<Rightarrow> trial_outcome \<Rightarrow> py_exn + trial_row" where
  "measured_row a workload total_connections active_connections run oc =
     (let st = oc_state oc; dur = arg_duration a;
          fan_out = (if workload = ''broadcast'' then total_connections - 1 else 1);
          sent = counter st ''sent_operations'';
          expected_deliveries = sent * fan_out;
          latency = samples st ''latencies_ms''; lag = samples st ''scheduling_lag_ms'';
          metrics = (case oc_server_metrics oc of None \<Rightarrow> Map.empty | Some m \<Rightarrow> m);
          server_disconnects = get_default 0 (metrics ''disconnects'')
      in
        seq (server_cpu_percent a oc) (\<lambda>cpu.
        seq (int_over sent dur) (\<lambda>offered_msg.
        seq (int_over (counter st ''completed_by_deadline'') dur) (\<lambda>completed_msg.
        seq (int_over (counter st ''deliveries_by_deadline'') dur) (\<lambda>delivered_msg.
        seq (of_py_int total_connections) (\<lambda>sockets.
        seq (fdiv delivered_msg sockets) (\<lambda>per_socket.
        seq (ratio_or (Fin 1) (counter st ''deliveries'') expected_deliveries) (\<lambda>delivery.
        seq (percentile latency (to_float (50 / 100))) (\<lambda>p50.
        seq (percentile latency (to_float (95 / 100))) (\<lambda>p95.
        seq (percentile latency (to_float (99 / 100))) (\<lambda>p99.
        seq (fdiv (the (d_floats st ''generator_cpu_seconds'')) dur) (\<lambda>generator.
        seq (percentile lag (to_float (50 / 100))) (\<lambda>lag50.
        seq (percentile lag (to_float (95 / 100))) (\<lambda>lag95.
        seq (percentile lag (to_float (99 / 100))) (\<lambda>lag99.
        seq (ratio_or (Fin 1) (counter st ''missed_offers'') (counter st ''offered_operations'')) (\<lambda>missed.
        seq (ratio_or (Fin 0) (counter st ''completed_by_deadline'') sent) (\<lambda>deadline.
        seq (cpu_per_request a cpu (counter st ''eventual_completions'')) (\<lambda>per_request.
          Inr
            \<lparr> tr_timestamp_utc = oc_timestamp oc, tr_label = arg_label a, tr_experiment = arg_experiment a,
              tr_server = arg_server a, tr_workload = workload, tr_total_connections = total_connections,
              tr_active_connections = active_connections, tr_clients = total_connections,
              tr_load_workers = oc_load_workers oc,
              tr_server_affinity = (case arg_server_cpu a of None \<Rightarrow> ''none'' | Some c \<Rightarrow> show_int c),
              tr_server_affinity_applied = oc_server_affinity_applied oc,
              tr_worker_affinity = (if arg_worker_cpus a \<noteq> [] then join '','' (map show_int (arg_worker_cpus a)) else ''none''),
              tr_worker_affinity_applied = (if arg_worker_cpus a \<noteq> []
                then oc_worker_setup oc \<noteq> [] \<and> list_all (\<lambda>b. b) (oc_worker_setup oc) else False),
              tr_run = arg_trial_id a + run - 1, tr_duration_s = dur,
              tr_global_offered_rate_s = arg_rate a,
              tr_payload_bytes = (if workload = ''broadcast'' then arg_payload_size a else 0),
              tr_offered_operations = counter st ''offered_operations'', tr_sent_operations = sent,
              tr_missed_offers = counter st ''missed_offers'', tr_offered_msg_s = offered_msg,
              tr_completed_by_deadline = counter st ''completed_by_deadline'',
              tr_eventual_completions = counter st ''eventual_completions'',
              tr_completed_by_deadline_msg_s = completed_msg, tr_delivered = counter st ''deliveries'',
              tr_delivered_by_deadline_msg_s = delivered_msg, tr_inbound_messages_s = offered_msg,
              tr_outbound_deliveries_s = delivered_msg, tr_per_socket_receive_rate_s = per_socket,
              tr_fan_out = fan_out, tr_delivery_ratio = delivery, tr_latency_samples = length latency,
              tr_p50_ms = p50, tr_p95_ms = p95, tr_p99_ms = p99,
              tr_generator_cpu_percent = fmul generator (Fin 100), tr_server_cpu_percent = cpu,
              tr_scheduling_lag_p50_ms = lag50, tr_scheduling_lag_p95_ms = lag95, tr_scheduling_lag_p99_ms = lag99,
              tr_max_read_service_gap_ms = the (d_floats st ''max_read_service_gap_ms''),
              tr_worker_start_skew_ms = the (d_floats st ''start_skew_ms''),
              tr_client_disconnects = int (card (the (d_sets st ''disconnects''))),
              tr_send_errors = counter st ''send_errors'',
              tr_client_partial_sends = counter st ''client_partial_sends'',
              tr_client_send_eagain = counter st ''client_send_eagain'',
              tr_server_crashed = oc_server_crashed oc, tr_diagnostic_mode = arg_profile a,
              tr_profile_started = oc_profile_started oc,
              tr_profile_command = (if oc_profile_command oc \<noteq> [] then shlex_join (oc_profile_command oc) else []),
              tr_profile_events = join '';'' (oc_profile_events oc), tr_profile_error = oc_profile_error oc,
              tr_harness_error = oc_harness_error oc,
              tr_server_disconnects = server_disconnects,
              tr_disconnect_reasons = (if server_disconnects = 0 then [] else join '' | '' (oc_disconnect_reasons oc)),
              tr_metrics = metrics, tr_missed_offer_ratio = missed, tr_deadline_completion_ratio = deadline,
              tr_cpu_per_completed_request_us = per_request, tr_valid = False, tr_invalid_reasons = [] \<rparr>))))))))))))))))))"

definition result_row ::
  "bench_args \<Rightarrow> string \<Rightarrow> int \<Rightarrow> int \<Rightarrow> int \<Rightarrow> trial_outcome \<Rightarrow> py_exn + trial_row" where
  "result_row a workload total_connections active_connections run oc =
     seq (measured_row a workload total_connections active_connections run oc) (\<lambda>row.
     seq (classify_result (verdict_of row) a) (\<lambda>(valid, why).
       Inr (row\<lparr>tr_valid := valid, tr_invalid_reasons := why\<rparr>)))"

section \<open>What the row says\<close>

lemma measured_row_fields:
  assumes "measured_row a workload conns active run oc = Inr row"
  shows "ratio_or (Fin 1) (counter (oc_state oc) ''missed_offers'') (counter (oc_state oc) ''offered_operations'') =
       Inr (tr_missed_offer_ratio row) \<and>
    ratio_or (Fin 0) (counter (oc_state oc) ''completed_by_deadline'') (counter (oc_state oc) ''sent_operations'') =
       Inr (tr_deadline_completion_ratio row) \<and>
    percentile (samples (oc_state oc) ''latencies_ms'') (to_float (50 / 100)) = Inr (tr_p50_ms row) \<and>
    percentile (samples (oc_state oc) ''latencies_ms'') (to_float (95 / 100)) = Inr (tr_p95_ms row) \<and>
    percentile (samples (oc_state oc) ''latencies_ms'') (to_float (99 / 100)) = Inr (tr_p99_ms row) \<and>
    tr_offered_operations row = counter (oc_state oc) ''offered_operations'' \<and>
    tr_sent_operations row = counter (oc_state oc) ''sent_operations'' \<and>
    tr_missed_offers row = counter (oc_state oc) ''missed_offers'' \<and>
    tr_completed_by_deadline row = counter (oc_state oc) ''completed_by_deadline''"
  using assms unfolding measured_row_def Let_def seq_Inr_iff by (elim exE conjE) (drule Inr_inject, hypsubst, simp)

lemma result_rowE:
  assumes "result_row a workload conns active run oc = Inr r"
  obtains row valid why where "measured_row a workload conns active run oc = Inr row"
    "classify_result (verdict_of row) a = Inr (valid, why)"
    "r = row\<lparr>tr_valid := valid, tr_invalid_reasons := why\<rparr>"
  using assms by (auto simp: result_row_def exn_simps)

lemma ratio_or_unit:
  assumes "ratio_or d a b = Inr x" "0 \<le> a" "a \<le> b" "d = Fin 0 \<or> d = Fin 1"
  shows "\<exists>q. x = Fin q \<and> 0 \<le> q \<and> q \<le> 1"
  using assms int_div_ratio[of a b] by (auto simp: ratio_or_def split: if_splits)


text \<open>A worker that sent its one offer and got the response in two milliseconds.\<close>

definition sample_outcome :: trial_outcome where
  "sample_outcome =
     \<lparr> oc_timestamp = [], oc_server_affinity_applied = False, oc_profile_command = [], oc_profile_events = [],
       oc_profile_error = [], oc_state = merge_states (foldl fadd (Fin 0)) [dict_of ((empty_state 0)\<lparr>offered_operations := 1,
         sent_operations := 1, missed_offers := 0, completed_by_deadline := 1, eventual_completions := 1,
         deliveries := 1, deliveries_by_deadline := 1, latencies_ms := [Fin 2], scheduling_lag_ms := [Fin 1]\<rparr>)],
       oc_worker_setup = [], oc_load_workers = 1, oc_cpu_start = None, oc_cpu_end = None,
       oc_server_metrics = Some (\<lambda>f. Some 0), oc_server_crashed = False, oc_profile_started = False,
       oc_harness_error = [], oc_disconnect_reasons = [] \<rparr>"

lemma percentile_single: "0 \<le> f \<Longrightarrow> f \<le> 1 \<Longrightarrow> representable x \<Longrightarrow> \<bar>x\<bar> < 2 ^ 1024 \<Longrightarrow>
    percentile [x] (to_float f) = Inr (Some (Fin x))"
  by (simp add: percentile_def Let_def to_float_unit(1) py_nth_def fsub_def float_simps)

lemma sample_state:
  "counter (oc_state sample_outcome) ''offered_operations'' = 1" "counter (oc_state sample_outcome) ''sent_operations'' = 1"
  "counter (oc_state sample_outcome) ''missed_offers'' = 0" "counter (oc_state sample_outcome) ''completed_by_deadline'' = 1"
  "counter (oc_state sample_outcome) ''deliveries'' = 1" "counter (oc_state sample_outcome) ''deliveries_by_deadline'' = 1"
  "counter (oc_state sample_outcome) ''eventual_completions'' = 1" "counter (oc_state sample_outcome) ''send_errors'' = 0"
  "samples (oc_state sample_outcome) ''latencies_ms'' = [2]" "samples (oc_state sample_outcome) ''scheduling_lag_ms'' = [1]"
  "the (d_floats (oc_state sample_outcome) ''generator_cpu_seconds'') = Fin 0"
  "the (d_floats (oc_state sample_outcome) ''max_read_service_gap_ms'') = Fin 0"
  "the (d_floats (oc_state sample_outcome) ''start_skew_ms'') = Fin 0"
  "the (d_sets (oc_state sample_outcome) ''disconnects'') = {}"
proof -
  have one: "order_states [dict_of w] = [dict_of w]" for w using order_states_dicts[of "[w]"] by simp
  show "counter (oc_state sample_outcome) ''offered_operations'' = 1" "counter (oc_state sample_outcome) ''sent_operations'' = 1"
    "counter (oc_state sample_outcome) ''missed_offers'' = 0" "counter (oc_state sample_outcome) ''completed_by_deadline'' = 1"
    "counter (oc_state sample_outcome) ''deliveries'' = 1" "counter (oc_state sample_outcome) ''deliveries_by_deadline'' = 1"
    "counter (oc_state sample_outcome) ''eventual_completions'' = 1" "counter (oc_state sample_outcome) ''send_errors'' = 0"
    by (simp_all add: sample_outcome_def counter_def merged_counter summed_ints_def sum_key_def one)
      (simp_all add: dict_of_def empty_state_def)
  show "samples (oc_state sample_outcome) ''latencies_ms'' = [2]" "samples (oc_state sample_outcome) ''scheduling_lag_ms'' = [1]"
    "the (d_floats (oc_state sample_outcome) ''generator_cpu_seconds'') = Fin 0"
    "the (d_floats (oc_state sample_outcome) ''max_read_service_gap_ms'') = Fin 0"
    "the (d_floats (oc_state sample_outcome) ''start_skew_ms'') = Fin 0"
    "the (d_sets (oc_state sample_outcome) ''disconnects'') = {}"
    by (simp_all add: sample_outcome_def samples_def finite_parts_def merge_states_def Let_def one)
      (simp_all add: dict_of_def empty_state_def max_default_def)
qed

lemma sample_rest:
  "oc_server_metrics sample_outcome = Some (\<lambda>f. Some 0)" "oc_server_crashed sample_outcome = False"
  "oc_profile_started sample_outcome = False" "oc_harness_error sample_outcome = []"
  by (simp_all add: sample_outcome_def)

lemma verdict_total: "\<exists>valid why. classify_result (verdict_of row) a = Inr (valid, why)"
  by (simp add: classify_result_def reasons_of_def Let_def verdict_of_def ratio_reason_def) (auto intro: exI[of _ False])

lemma sample_row: "\<exists>r. result_row default_args ''direct'' 2 2 1 sample_outcome = Inr r \<and> tr_valid r"
proof -
  have i: "int_div 1 1 = Inr (Fin 1)" "int_div 0 1 = Inr (Fin 0)" by (simp_all add: int_div_def)
  have d: "arg_duration default_args = Fin 5" by (simp add: default_args_def)
  obtain r1 where r: "int_over 1 (Fin 5) = Inr r1" by (simp add: int_over_def of_py_int_small)
  obtain s where s: "fdiv r1 (Fin 2) = Inr s" by (cases r1) auto
  have g: "fdiv (Fin 0) (Fin 5) = Inr (Fin 0)" by simp
  have cpu: "server_cpu_percent default_args sample_outcome = Inr None"
    by (simp add: server_cpu_percent_def sample_outcome_def)
  have p: "percentile [2] (to_float f) = Inr (Some (Fin 2))" "percentile [1] (to_float f) = Inr (Some (Fin 1))"
    if "0 \<le> f" "f \<le> 1" for f
    using that by (simp_all add: percentile_single representable_numeral)
  have "\<exists>row. measured_row default_args ''direct'' 2 2 1 sample_outcome = Inr row \<and>
      reasons_of default_args (verdict_of row) = Inr []"
    unfolding measured_row_def Let_def d cpu sample_state
    by (simp add: p r s g i ratio_or_def cpu_per_request_def float_simps del: fdiv.simps)
      (simp add: reasons_of_empty verdict_of_def get_default_def limit_reason_Nil default_args_def sample_state
        sample_rest to_float_unit(1,2,3) not_less)
  then show ?thesis by (auto simp: result_row_def classify_result_def)
qed


section \<open>The summary of the valid trials\<close>

definition summary_key :: "trial_row \<Rightarrow> string \<times> int \<times> int" where
  "summary_key r = (tr_workload r, tr_total_connections r, tr_active_connections r)"

definition valid_summary_groups :: "trial_row list \<Rightarrow> ((string \<times> int \<times> int) \<times> trial_row list) list" where
  "valid_summary_groups rows =
     fold (\<lambda>r groups. if \<not> tr_valid r then groups else add_to_group (summary_key r) r groups) rows []"

text \<open>\<^verbatim>\<open>display(value, unit)\<close>.\<close>

definition display :: "pyfloat option \<Rightarrow> string \<Rightarrow> string" where
  "display v unit = (case v of None \<Rightarrow> ''n/a'' | Some x \<Rightarrow> show_fixed 2 x @ unit)"

definition pad_left :: "nat \<Rightarrow> string \<Rightarrow> string" where
  "pad_left n s = replicate (n - length s) (CHR '' '') @ s"

definition pad_right :: "nat \<Rightarrow> string \<Rightarrow> string" where
  "pad_right n s = s @ replicate (n - length s) (CHR '' '')"

text \<open>The entries of a column that are not \<^verbatim>\<open>None\<close>.\<close>

definition present :: "(trial_row \<Rightarrow> pyfloat option) \<Rightarrow> trial_row list \<Rightarrow> rat list" where
  "present col rows = finite_parts (List.map_filter col rows)"

text \<open>The line of one group; \<^verbatim>\<open>statistics.median\<close> raises for an empty column.\<close>

definition summary_line :: "(string \<times> int \<times> int) \<times> trial_row list \<Rightarrow> py_exn + string" where
  "summary_line g =
     (case g of ((workload, conns, active), rows) \<Rightarrow>
        seq (median (finite_parts (map tr_offered_msg_s rows))) (\<lambda>offered.
        seq (median (present tr_p50_ms rows)) (\<lambda>p50.
        seq (median (present tr_p95_ms rows)) (\<lambda>p95.
          Inr (pad_right 9 workload @ '' total='' @ pad_left 5 (show_int conns) @ '' active='' @
            pad_left 5 (show_int active) @ '' offered='' @ show_fixed 1 offered @ ''/s p50='' @
            display (Some p50) ''ms'' @ '' p95='' @ display (Some p95) ''ms'')))))"

lemma valid_groups_filter: "valid_summary_groups rows = group_rows summary_key (filter tr_valid rows)"
proof -
  have "fold (\<lambda>r groups. if \<not> tr_valid r then groups else add_to_group (summary_key r) r groups) rows groups =
      fold (\<lambda>r. add_to_group (summary_key r) r) (filter tr_valid rows) groups" for groups
    by (induction rows arbitrary: groups) simp_all
  then show ?thesis by (simp add: valid_summary_groups_def group_rows_def)
qed

text \<open>The summary groups hold exactly the valid rows: under each workload and connection counts that
  some valid row has, once, the valid rows with them, in their order.\<close>

theorem valid_summary_groups_correct:
  "distinct (map fst (valid_summary_groups rows)) \<and>
   set (valid_summary_groups rows) =
     {kg. snd kg \<noteq> [] \<and> snd kg = filter (\<lambda>r. tr_valid r \<and> summary_key r = fst kg) rows}"
proof (intro conjI set_eqI)
  show "distinct (map fst (valid_summary_groups rows))" by (simp add: valid_groups_filter group_rows_distinct)
  fix kg :: "(string \<times> int \<times> int) \<times> trial_row list"
  obtain k g where kg: "kg = (k, g)" by (cases kg)
  have "kg \<in> set (valid_summary_groups rows) \<longleftrightarrow>
      k \<in> summary_key ` set (filter tr_valid rows) \<and> g = filter (\<lambda>r. summary_key r = k) (filter tr_valid rows)"
    by (simp add: kg valid_groups_filter group_rows_mem)
  also have "\<dots> \<longleftrightarrow> g \<noteq> [] \<and> g = filter (\<lambda>r. tr_valid r \<and> summary_key r = k) rows"
    by (auto simp: filter_empty_conv conj_commute)
  finally show "kg \<in> set (valid_summary_groups rows) \<longleftrightarrow>
      kg \<in> {kg. snd kg \<noteq> [] \<and> snd kg = filter (\<lambda>r. tr_valid r \<and> summary_key r = fst kg) rows}"
    by (simp add: kg)
qed

lemma percentile_None: "percentile xs f = Inr None \<longleftrightarrow> xs = []"
  by (auto simp: percentile_def Let_def seq_Inr_iff)

lemma median_Inr: "data \<noteq> [] \<Longrightarrow> \<exists>m. median data = Inr m"
  by (auto simp: median_def Let_def split: pyfloat.split)

text \<open>A valid row has latency samples, hence all percentiles.\<close>

lemma valid_row_percentiles:
  assumes "result_row a workload conns active run oc = Inr r" "tr_valid r"
  shows "tr_p50_ms r \<noteq> None" "tr_p95_ms r \<noteq> None"
proof -
  obtain row valid why where m: "measured_row a workload conns active run oc = Inr row"
    and c: "classify_result (verdict_of row) a = Inr (valid, why)"
    and r: "r = row\<lparr>tr_valid := valid, tr_invalid_reasons := why\<rparr>"
    using assms(1) by (rule result_rowE)
  note f = measured_row_fields[OF m]
  have "reasons_of a (verdict_of row) = Inr []"
    using c assms(2) r by (auto simp: classify_result_def exn_simps)
  then have "tr_p99_ms row \<noteq> None" unfolding reasons_of_empty limit_reason_Nil by (auto simp: verdict_of_def)
  then have ne: "samples (oc_state oc) ''latencies_ms'' \<noteq> []"
    using f percentile_None[of "samples (oc_state oc) ''latencies_ms''" "to_float (99 / 100)"] by auto
  have some: "x \<noteq> None" if "percentile (samples (oc_state oc) ''latencies_ms'') q = Inr x" for q x
    using that ne percentile_None[of "samples (oc_state oc) ''latencies_ms''" q] by auto
  have "tr_p50_ms row \<noteq> None" "tr_p95_ms row \<noteq> None"
    by (rule some, use f in blast)+
  then show "tr_p50_ms r \<noteq> None" "tr_p95_ms r \<noteq> None" by (simp_all add: r)
qed

text \<open>The lines of all groups, sorted by key.\<close>

fun each_line :: "((string \<times> int \<times> int) \<times> trial_row list) list \<Rightarrow> py_exn + string list" where
  "each_line [] = Inr []"
| "each_line (g # gs) = seq (summary_line g) (\<lambda>l. seq (each_line gs) (\<lambda>ls. Inr (l # ls)))"

definition summary_lines :: "trial_row list \<Rightarrow> py_exn + string list" where
  "summary_lines rows = each_line (sort_key fst (valid_summary_groups rows))"

text \<open>The line of an invalid row, and all that \<^verbatim>\<open>print_summary\<close> prints.\<close>

definition invalid_line :: "trial_row \<Rightarrow> string" where
  "invalid_line r =
     tr_label r @ '' '' @ tr_workload r @ '' total='' @ show_int (tr_total_connections r) @ '' active='' @
     show_int (tr_active_connections r) @ '' run='' @ show_int (tr_run r) @ '': '' @ tr_invalid_reasons r"

definition print_summary :: "trial_row list \<Rightarrow> py_exn + string list" where
  "print_summary rows =
     seq (summary_lines rows) (\<lambda>lines.
       let invalid = filter (\<lambda>r. \<not> tr_valid r) rows
       in Inr ([[], ''median across valid runs''] @ lines @
         (if invalid \<noteq> [] then [[], ''invalid trials''] @ map invalid_line invalid else [])))"

text \<open>\<^verbatim>\<open>print_result\<close>: the line of one trial, and its reasons when it is invalid.\<close>

definition print_result :: "trial_row \<Rightarrow> string list" where
  "print_result r =
     [pad_right 9 (tr_workload r) @ '' total='' @ pad_left 5 (show_int (tr_total_connections r)) @
      '' active='' @ pad_left 5 (show_int (tr_active_connections r)) @ '' run='' @ show_int (tr_run r) @
      '' workers='' @ pad_left 2 (show_int (tr_load_workers r)) @
      '' offered='' @ show_fixed 1 (tr_offered_msg_s r) @ ''/s missed='' @ show_int (tr_missed_offers r) @
      '' completed='' @ show_fixed 1 (tr_completed_by_deadline_msg_s r) @ ''/s ratio='' @
      show_fixed 4 (tr_delivery_ratio r) @ '' p50='' @ display (tr_p50_ms r) ''ms'' @
      '' p95='' @ display (tr_p95_ms r) ''ms'' @ '' cpu='' @ display (tr_server_cpu_percent r) ''%'' @
      '' generator_cpu='' @ display (Some (tr_generator_cpu_percent r)) ''%'' @
      '' lag_p95='' @ display (tr_scheduling_lag_p95_ms r) ''ms'' @
      '' disconnects='' @ show_int (tr_client_disconnects r) @ '' send_errors='' @ show_int (tr_send_errors r) @
      '' valid='' @ (if tr_valid r then ''yes'' else ''no'')] @
     (if tr_valid r then [] else [''  invalid: '' @ tr_invalid_reasons r])"

text \<open>C30: the summary of a run never fails for lack of data: every group of valid rows has offered
  rates and latency percentiles to take the median of, since a row without latency samples is not
  classified valid. One line is printed per group, and every invalid row is printed with its reasons,
  in the order of the trials.\<close>

theorem print_summary_total:
  assumes "\<forall>r\<in>set rows. \<exists>a workload conns active run oc. result_row a workload conns active run oc = Inr r"
  shows "\<exists>lines. print_summary rows = Inr ([[], ''median across valid runs''] @ lines @
      (if filter (\<lambda>r. \<not> tr_valid r) rows = [] then []
       else [[], ''invalid trials''] @ map invalid_line (filter (\<lambda>r. \<not> tr_valid r) rows))) \<and>
    length lines = length (valid_summary_groups rows)"
proof -
  have line: "\<exists>l. summary_line kg = Inr l" if "kg \<in> set (valid_summary_groups rows)" for kg
  proof -
    obtain w c n g where kg: "kg = ((w, c, n), g)" by (cases kg) auto
    have g: "g \<noteq> []" "\<forall>r\<in>set g. tr_valid r \<and> r \<in> set rows"
      using that by (auto simp: kg valid_groups_filter group_rows_mem filter_empty_conv)
    obtain r where r: "r \<in> set g" using g(1) by (cases g) auto
    then obtain a workload conns active run oc where row: "result_row a workload conns active run oc = Inr r"
      and "tr_valid r" using g(2) assms by blast
    then have "tr_p50_ms r \<noteq> None" "tr_p95_ms r \<noteq> None" by (rule valid_row_percentiles)+
    then have "present tr_p50_ms g \<noteq> []" "present tr_p95_ms g \<noteq> []" "finite_parts (map tr_offered_msg_s g) \<noteq> []"
      using r g(1) by (auto simp: present_def finite_parts_def map_filter_def filter_empty_conv)
    from this[THEN median_Inr] show ?thesis by (auto simp: summary_line_def kg)
  qed
  have "\<exists>ls. each_line gs = Inr ls \<and> length ls = length gs" if "set gs \<subseteq> set (valid_summary_groups rows)" for gs
    using that
  proof (induction gs)
    case (Cons kg gs)
    then obtain ls where ls: "each_line gs = Inr ls" "length ls = length gs" by auto
    obtain l where "summary_line kg = Inr l" using line[of kg] Cons.prems by auto
    with ls show ?case by simp
  qed simp
  from this[of "sort_key fst (valid_summary_groups rows)"] show ?thesis by (auto simp: summary_lines_def print_summary_def)
qed

theorem print_summary_total_witness:
  "\<exists>r l. tr_valid r \<and> print_summary [r] = Inr [[], ''median across valid runs'', l]"
proof -
  obtain r where r: "result_row default_args ''direct'' 2 2 1 sample_outcome = Inr r" "tr_valid r"
    using sample_row by blast
  have "\<exists>a workload conns active run oc. result_row a workload conns active run oc = Inr r"
    by (intro exI) (rule r(1))
  then have "\<forall>r\<in>set [r]. \<exists>a workload conns active run oc. result_row a workload conns active run oc = Inr r" by simp
  from print_summary_total[OF this] r(2) show ?thesis by (auto simp: valid_summary_groups_def length_Suc_conv)
qed

end
