(* ===== verification/Float_Text.thy ===== *)
theory Float_Text
  imports Py_Text Py_Float
begin

text \<open>
  Floats in text: \<^verbatim>\<open>float(text)\<close>, correctly rounded, and \<^verbatim>\<open>str(x)\<close>, the shortest decimal that reads
  back as the same float. Both directions are used by the sweep (\<^verbatim>\<open>bench/compare.py\<close>), which
  passes its parameters to \<^verbatim>\<open>bench/benchmark.py\<close> as words of a command line and reads the results
  back from CSV files. Text is ASCII here.
\<close>

section \<open>Reading\<close>

definition opt_digits :: "string \<Rightarrow> string option" where
  "opt_digits s = (if s = [] then Some [] else underscored False s)"

text \<open>A sign, and the rest.\<close>

definition take_sign :: "string \<Rightarrow> bool \<times> string" where
  "take_sign s =
     (case s of [] \<Rightarrow> (False, [])
      | c # cs \<Rightarrow> if c = CHR ''-'' then (True, cs) else if c = CHR ''+'' then (False, cs) else (False, s))"

definition exponent_part :: "string \<Rightarrow> int option" where
  "exponent_part s =
     (case s of [] \<Rightarrow> Some 0
      | _ # cs \<Rightarrow>
          let (negative, ds) = take_sign cs
          in map_option (\<lambda>ds. if negative then - int (read_digits ds) else int (read_digits ds)) (underscored False ds))"

definition decimal_number :: "string \<Rightarrow> rat option" where
  "decimal_number s =
     (let m = takeWhile (\<lambda>c. c \<noteq> CHR ''e'' \<and> c \<noteq> CHR ''E'') s;
          ex = drop (length m) s;
          whole = takeWhile (\<lambda>c. c \<noteq> CHR ''.'') m
      in case (opt_digits whole, opt_digits (drop (Suc (length whole)) m), exponent_part ex) of
           (Some a, Some b, Some e) \<Rightarrow>
             if a = [] \<and> b = [] then None
             else Some (of_nat (read_digits (a @ b)) * 10 powi (e - int (length b)))
         | _ \<Rightarrow> None)"

definition lower_char :: "char \<Rightarrow> char" where
  "lower_char c = (let n = of_char c :: nat in if 65 \<le> n \<and> n \<le> 90 then char_of (n + 32) else c)"

text \<open>\<^verbatim>\<open>float(text)\<close>, \<open>None\<close> for \<^verbatim>\<open>ValueError\<close>.\<close>

definition py_float_text :: "string \<Rightarrow> pyfloat option" where
  "py_float_text s =
     (let (negative, body) = take_sign (strip s); word = map lower_char body
      in if word = ''inf'' \<or> word = ''infinity'' then Some (if negative then NInf else PInf)
         else if word = ''nan'' then Some NaN
         else map_option (\<lambda>r. to_float (if negative then - r else r)) (decimal_number body))"

section \<open>Writing\<close>

text \<open>The position of the decimal point before the first digit.\<close>

definition dec_exp :: "rat \<Rightarrow> int" where
  "dec_exp r =
     (let (n, d) = quotient_of r; k = int (length (show_nat (nat n))) - int (length (show_nat (nat d)))
      in if r < 10 powi k then k else k + 1)"

text \<open>The decimals of \<open>n\<close> digits on either side of \<open>r\<close>, the nearer one first.\<close>

definition neighbours :: "rat \<Rightarrow> nat \<Rightarrow> nat list" where
  "neighbours r n =
     (let q = r * 10 powi (int n - dec_exp r); lo = nat \<lfloor>q\<rfloor>
      in if q - of_nat lo \<le> 1 / 2 then [lo, Suc lo] else [Suc lo, lo])"

definition reads_back :: "rat \<Rightarrow> nat \<times> int \<Rightarrow> bool" where
  "reads_back r p \<longleftrightarrow> to_float (of_nat (fst p) * 10 powi (snd p)) = Fin r"

definition with_digits :: "rat \<Rightarrow> nat \<Rightarrow> (nat \<times> int) list" where
  "with_digits r n = map (\<lambda>m. (m, dec_exp r - int n)) (neighbours r n)"

text \<open>The first that reads back, by number of digits; seventeen always do.\<close>

definition shortest :: "rat \<Rightarrow> nat \<times> int" where
  "shortest r =
     (case find (reads_back r) (concat (map (with_digits r) [1..<18])) of None \<Rightarrow> (0, 0) | Some p \<Rightarrow> p)"

definition drop_zeros :: "string \<Rightarrow> string" where
  "drop_zeros ds = rev (dropWhile (\<lambda>c. c = CHR ''0'') (rev ds))"

text \<open>The digits with a decimal point after the first \<open>p\<close> of them, or in exponent form.\<close>

definition place_point :: "string \<Rightarrow> int \<Rightarrow> string" where
  "place_point ds p =
     (if - 4 < p \<and> p \<le> 0 then ''0.'' @ replicate (nat (- p)) (CHR ''0'') @ ds
      else if 0 < p \<and> p \<le> 16
      then (if int (length ds) \<le> p then ds @ replicate (nat p - length ds) (CHR ''0'') @ ''.0''
            else take (nat p) ds @ ''.'' @ drop (nat p) ds)
      else hd ds # (if tl ds = [] then [] else CHR ''.'' # tl ds) @ ''e'' @ (if p - 1 < 0 then ''-'' else ''+'') @
        (let e = show_nat (nat \<bar>p - 1\<bar>) in if length e < 2 then CHR ''0'' # e else e))"

text \<open>\<^verbatim>\<open>str(x)\<close> of a float.\<close>

fun show_float :: "pyfloat \<Rightarrow> string" where
  "show_float (Fin r) =
     (if r = 0 then ''0.0''
      else (let (m, k) = shortest \<bar>r\<bar>; ds = show_nat m
            in (if r < 0 then ''-'' else '''') @ place_point (drop_zeros ds) (k + int (length ds))))"
| "show_float PInf = ''inf''"
| "show_float NInf = ''-inf''"
| "show_float NaN = ''nan''"

section \<open>Seventeen digits suffice\<close>

lemma show_nat_bounds: "n < 10 ^ length (show_nat n)" "0 < n \<Longrightarrow> 10 ^ (length (show_nat n) - 1) \<le> n"
proof (induction n rule: show_nat.induct)
  case (1 n)
  {
    case 1
    show ?case
    proof (cases "n < 10")
      case True
      then show ?thesis by (simp add: show_nat.simps[of n])
    next
      case False
      then have "n div 10 < 10 ^ length (show_nat (n div 10))" using "1.IH"(1) by simp
      then have "n < 10 * 10 ^ length (show_nat (n div 10))" by (simp add: less_mult_imp_div_less div_less_iff_less_mult mult.commute)
      then show ?thesis using False by (simp add: show_nat.simps[of n])
    qed
  next
    case 2
    show ?case
    proof (cases "n < 10")
      case True
      then show ?thesis using 2 by (simp add: show_nat.simps[of n])
    next
      case False
      obtain j where j: "length (show_nat (n div 10)) = Suc j" by (cases "length (show_nat (n div 10))") simp_all
      have "10 ^ j \<le> n div 10" using "1.IH"(2) False j by simp
      then have "10 * 10 ^ j \<le> n" by simp
      then show ?thesis using False j by (simp add: show_nat.simps[of n])
    qed
  }
qed

lemma powi10_pos: "(0::rat) < 10 powi k"
  by (rule zero_less_power_int) simp

lemma powi10_add: "(10::rat) powi (a + b) = 10 powi a * 10 powi b"
  by (rule power_int_add) simp

lemma show_nat_powi:
  assumes "0 < n"
  shows "(of_nat n :: rat) < 10 powi int (length (show_nat n))" "(10::rat) powi (int (length (show_nat n)) - 1) \<le> of_nat n"
proof -
  have "(of_nat n :: rat) < of_nat (10 ^ length (show_nat n))" using show_nat_bounds(1) by (simp only: of_nat_less_iff)
  then show "(of_nat n :: rat) < 10 powi int (length (show_nat n))" by simp
  obtain j where j: "length (show_nat n) = Suc j" by (cases "length (show_nat n)") simp_all
  have "(of_nat (10 ^ (length (show_nat n) - 1)) :: rat) \<le> of_nat n" using show_nat_bounds(2)[OF assms] by (simp only: of_nat_le_iff)
  then show "(10::rat) powi (int (length (show_nat n)) - 1) \<le> of_nat n" by (simp add: j)
qed

lemma dec_exp_bounds:
  assumes "0 < r"
  shows "10 powi (dec_exp r - 1) \<le> r \<and> r < 10 powi (dec_exp r)"
proof -
  obtain n d where q: "quotient_of r = (n, d)" by fastforce
  then have d: "0 < d" and r: "r = of_int n / of_int d"
    using quotient_of_denom_pos[OF q] quotient_of_div[OF q] by auto
  then have n: "0 < n" using assms by (simp add: zero_less_divide_iff)
  let ?a = "int (length (show_nat (nat n)))" and ?b = "int (length (show_nat (nat d)))"
  have rr: "r = of_nat (nat n) / of_nat (nat d)" using n d by (simp add: r)
  have nb: "(of_nat (nat n) :: rat) < 10 powi ?a" "(10::rat) powi (?a - 1) \<le> of_nat (nat n)"
    using show_nat_powi[of "nat n"] n by simp_all
  have db: "(of_nat (nat d) :: rat) < 10 powi ?b" "(10::rat) powi (?b - 1) \<le> of_nat (nat d)"
    using show_nat_powi[of "nat d"] d by simp_all
  have d0: "(0::rat) < of_nat (nat d)" using d by simp
  have "10 powi (?a - ?b - 1) * of_nat (nat d) \<le> 10 powi (?a - ?b - 1) * (10 powi ?b :: rat)"
    using db(1) by (intro mult_left_mono) auto
  also have "\<dots> = 10 powi (?a - 1)" by (subst powi10_add[symmetric]) simp
  also note nb(2)
  finally have lo: "10 powi (?a - ?b - 1) \<le> r" unfolding rr using d0 by (simp add: pos_le_divide_eq)
  have "(of_nat (nat n) :: rat) < 10 powi (?a - ?b + 1) * 10 powi (?b - 1)" using nb(1) by (simp flip: powi10_add)
  also have "\<dots> \<le> 10 powi (?a - ?b + 1) * of_nat (nat d)" using db(2) powi10_pos by (intro mult_left_mono) (auto simp: less_imp_le)
  finally have hi: "r < 10 powi (?a - ?b + 1)" unfolding rr using d0 by (simp add: pos_divide_less_eq)
  show ?thesis using lo hi by (auto simp: dec_exp_def q Let_def not_less)
qed

text \<open>A representable number is a multiple of the grid of every number that is not far above it.\<close>

lemma on_grid:
  assumes "representable r" "r \<noteq> 0"
  obtains m where "r = of_int m * 2 powi grid_exp r"
  using rnd64_representable[OF assms(1)] assms(2) that[of "round_half_even (r / 2 powi grid_exp r)"]
  by (simp add: rnd64_def)

lemma on_finer_grid:
  assumes "representable r" "r \<noteq> 0" "g \<le> grid_exp r"
  obtains m where "r / 2 powi g = of_int m"
proof -
  obtain m where m: "r = of_int m * 2 powi grid_exp r" using on_grid[OF assms(1,2)] .
  have "r / 2 powi g = of_int m * of_int (2 ^ nat (grid_exp r - g))"
    unfolding powi_quot[OF assms(3), symmetric] by (subst m) simp
  then have "r / 2 powi g = of_int (m * 2 ^ nat (grid_exp r - g))" by simp
  then show ?thesis using that by blast
qed

lemma round_half_even_near:
  assumes "\<bar>y - of_int m\<bar> < 1 / 2"
  shows "round_half_even y = m"
proof (cases "of_int m \<le> y")
  case True
  then have "\<lfloor>y\<rfloor> = m" using assms by (intro floor_unique) (auto simp: abs_less_iff)
  then show ?thesis using assms True by (simp add: round_half_even_def)
next
  case False
  then have "\<lfloor>y\<rfloor> = m - 1" using assms by (intro floor_unique) (auto simp: abs_less_iff)
  then show ?thesis using assms False by (simp add: round_half_even_def Let_def abs_less_iff)
qed

lemma powi2_pos: "(0::rat) < 2 powi k"
  by (rule zero_less_power_int) simp

lemma powi2_add: "(2::rat) powi (a + b) = 2 powi a * 2 powi b"
  by (rule power_int_add) simp

lemma grid_factor_pos: "(r :: rat) = of_int m * 2 powi g \<Longrightarrow> 0 < r \<Longrightarrow> 0 < m"
  using zero_less_mult_pos2[of "of_int m" "2 powi g :: rat"] powi2_pos[of g] by simp

text \<open>The number next below the end of a binade.\<close>

lemma below_binade_end:
  assumes "representable r" "0 < r"
  shows "r \<le> 2 powi (bin_exp r + 1) * (1 - 1 / 2 ^ 53)"
proof -
  let ?e = "bin_exp r" and ?g = "grid_exp r"
  have b: "2 powi ?e \<le> r" "r < 2 powi (?e + 1)" using bin_exp_bounds[of r] assms(2) by auto
  obtain m where m: "r = of_int m * 2 powi ?g" using on_grid[of r] assms by auto
  have g: "?e - 52 \<le> ?g" by (simp add: grid_exp_def)
  show ?thesis
  proof (cases "?g \<le> ?e + 1")
    case True
    have q: "(2::rat) powi (?e + 1) = of_int (2 ^ nat (?e + 1 - ?g)) * 2 powi ?g"
      using powi_quot[OF True] powi2_pos[of ?g] by (simp add: field_simps)
    have "of_int m * 2 powi ?g < of_int (2 ^ nat (?e + 1 - ?g)) * (2 powi ?g :: rat)" using b(2) m q by metis
    then have "(of_int m :: rat) < of_int (2 ^ nat (?e + 1 - ?g))" using powi2_pos[of ?g] mult_less_cancel_right_pos by blast
    then have "m + 1 \<le> 2 ^ nat (?e + 1 - ?g)" by (simp only: of_int_less_iff)
    then have "of_int (m + 1) \<le> (of_int (2 ^ nat (?e + 1 - ?g)) :: rat)" by (simp only: of_int_le_iff)
    then have "of_int (m + 1) * 2 powi ?g \<le> of_int (2 ^ nat (?e + 1 - ?g)) * (2 powi ?g :: rat)"
      using powi2_pos[of ?g] by (intro mult_right_mono) auto
    moreover have "of_int (m + 1) * 2 powi ?g = r + 2 powi ?g"
      unfolding of_int_add distrib_right m[symmetric] by simp
    ultimately have "r + 2 powi ?g \<le> 2 powi (?e + 1)" using q by linarith
    moreover have "2 powi (?e + 1) / 2 ^ 53 = (2 powi (?e - 52) :: rat)"
      by (simp add: power_int_diff power_int_add)
    moreover have "(2 powi (?e - 52) :: rat) \<le> 2 powi ?g" using g by (intro power_int_increasing) auto
    ultimately show ?thesis by (simp add: algebra_simps)
  next
    case False
    then have "(2::rat) powi (?e + 1) \<le> 2 powi ?g" by (intro power_int_increasing) auto
    then have "of_int m * 2 powi ?g < 1 * (2 powi ?g :: rat)" using b(2) m by linarith
    then have "(of_int m :: rat) < 1" using powi2_pos[of ?g] mult_less_cancel_right_pos by blast
    then have "m \<le> 0" by simp
    moreover have "0 < m" using m assms(2) by (rule grid_factor_pos)
    ultimately show ?thesis by simp
  qed
qed

text \<open>The number next above a binade's start.\<close>

lemma above_binade_start:
  assumes "representable r" "2 powi k < r" "bin_exp r = k"
  shows "2 powi k * (1 + 1 / 2 ^ 52) \<le> r"
proof -
  let ?g = "grid_exp r"
  have r: "0 < r" using assms(2) powi2_pos[of k] by linarith
  obtain m where m: "r = of_int m * 2 powi ?g" using on_grid[of r] assms(1) r by auto
  have g: "k - 52 \<le> ?g" using assms(3) by (simp add: grid_exp_def)
  have le: "?g \<le> k"
  proof (rule ccontr)
    assume "\<not> ?g \<le> k"
    then have "(2::rat) powi (k + 1) \<le> 2 powi ?g" by (intro power_int_increasing) auto
    moreover have "r < 2 powi (k + 1)" using bin_exp_bounds[of r] r assms(3) by auto
    ultimately have "of_int m * 2 powi ?g < 1 * (2 powi ?g :: rat)" using m by linarith
    then have "(of_int m :: rat) < 1" using powi2_pos[of ?g] mult_less_cancel_right_pos by blast
    then have "m \<le> 0" by simp
    moreover have "0 < m" using m r by (rule grid_factor_pos)
    ultimately show False by simp
  qed
  have q: "(2::rat) powi k = of_int (2 ^ nat (k - ?g)) * 2 powi ?g"
    using powi_quot[OF le] powi2_pos[of ?g] by (simp add: field_simps)
  have "of_int (2 ^ nat (k - ?g)) * 2 powi ?g < of_int m * (2 powi ?g :: rat)" using assms(2) m q by metis
  then have "of_int (2 ^ nat (k - ?g)) < (of_int m :: rat)" using powi2_pos[of ?g] mult_less_cancel_right_pos by blast
  then have "2 ^ nat (k - ?g) + 1 \<le> m" by (simp only: of_int_less_iff)
  then have "of_int (2 ^ nat (k - ?g) + 1) \<le> (of_int m :: rat)" by (simp only: of_int_le_iff)
  then have "of_int (2 ^ nat (k - ?g) + 1) * 2 powi ?g \<le> of_int m * (2 powi ?g :: rat)"
    using powi2_pos[of ?g] by (intro mult_right_mono) auto
  moreover have "of_int (2 ^ nat (k - ?g) + 1) * 2 powi ?g = 2 powi k + (2 powi ?g :: rat)"
    unfolding of_int_add distrib_right q[symmetric] by simp
  ultimately have "2 powi k + 2 powi ?g \<le> r" using m by linarith
  moreover have "2 powi k / 2 ^ 52 = (2 powi (k - 52) :: rat)" by (simp add: power_int_diff)
  moreover have "(2 powi (k - 52) :: rat) \<le> 2 powi ?g" using g by (intro power_int_increasing) auto
  ultimately show ?thesis by (simp add: algebra_simps)
qed

lemma rnd64_near:
  assumes "representable r" "0 < r" "\<bar>d - r\<bar> < r / 2 ^ 54"
  shows "rnd64 d = r"
proof -
  let ?e = "bin_exp r" and ?b = "bin_exp d" and ?g = "grid_exp d"
  have "r / 2 ^ 54 \<le> r / 1" using assms(2) by (intro divide_left_mono) auto
  then have d: "0 < d" using assms(3) by linarith
  have br: "2 powi ?e \<le> r" "r < 2 powi (?e + 1)" using bin_exp_bounds[of r] assms(2) by auto
  have bd: "2 powi ?b \<le> d" "d < 2 powi (?b + 1)" using bin_exp_bounds[of d] d by auto
  have "d < r + r / 2 ^ 54" using assms(3) by linarith
  also have "\<dots> = r * (1 + 1 / 2 ^ 54)" by (simp add: distrib_left)
  also have "\<dots> \<le> (2 powi (?e + 1) * (1 - 1 / 2 ^ 53)) * (1 + 1 / 2 ^ 54)"
    using below_binade_end[OF assms(1,2)] by (intro mult_right_mono) auto
  also have "\<dots> < 2 powi (?e + 1) * 1"
    unfolding mult.assoc by (rule mult_strict_left_mono) (simp_all add: powi2_pos)
  finally have top: "d < 2 powi (?e + 1)" by simp
  have be: "?b \<le> ?e"
  proof (rule ccontr)
    assume "\<not> ?b \<le> ?e"
    then have "(2::rat) powi (?e + 1) \<le> 2 powi ?b" by (intro power_int_increasing) auto
    then show False using top bd(1) by linarith
  qed
  then have ge: "?g \<le> grid_exp r" by (simp add: grid_exp_def)
  obtain m where m: "r / 2 powi ?g = of_int m" using on_finer_grid[OF assms(1) _ ge] assms(2) by auto
  have up: "r \<le> 2 powi (?b + 1)"
  proof (rule ccontr)
    assume "\<not> r \<le> 2 powi (?b + 1)"
    then have lt: "2 powi (?b + 1) < r" by simp
    have "r - r / 2 ^ 54 < d" using assms(3) by linarith
    then have rd: "r * (1 - 1 / 2 ^ 54) < d" by (simp add: right_diff_distrib)
    have "?b + 1 = ?e"
    proof (rule ccontr)
      assume "?b + 1 \<noteq> ?e"
      moreover have "?b < ?e"
      proof (rule ccontr)
        assume "\<not> ?b < ?e"
        then have "(2::rat) powi (?e + 1) \<le> 2 powi (?b + 1)" by (intro power_int_increasing) auto
        then show False using br(2) lt by linarith
      qed
      ultimately have "(2::rat) powi (?b + 1 + 1) \<le> 2 powi ?e" by (intro power_int_increasing) auto
      then have "2 * 2 powi (?b + 1) \<le> r" using br(1) powi2_add[of "?b + 1" 1] by simp
      moreover have "r / 2 ^ 54 \<le> r / 2" using assms(2) by (intro divide_left_mono) auto
      ultimately show False using rd bd(2) by (simp add: algebra_simps)
    qed
    then have "2 powi (?b + 1) * (1 + 1 / 2 ^ 52) \<le> r" using above_binade_start[OF assms(1) lt] by simp
    moreover have "False" if "P * (1 + 1 / 2 ^ 52) \<le> r" "d < P" "0 < P" for P
      using that rd by (simp add: field_simps)
    ultimately show False using bd(2) powi2_pos[of "?b + 1"] by blast
  qed
  have "r / 2 ^ 54 \<le> 2 powi (?b + 1) / 2 ^ 54" using up by (simp add: divide_right_mono)
  also have "\<dots> = 2 powi (?b - 52) * (1 / 2)" by (simp add: power_int_diff power_int_add)
  also have "\<dots> \<le> 2 powi ?g * (1 / 2)"
    by (intro mult_right_mono power_int_increasing) (auto simp: grid_exp_def)
  finally have near: "\<bar>d - r\<bar> < 2 powi ?g * (1 / 2)" using assms(3) by linarith
  have "\<bar>d / 2 powi ?g - of_int m\<bar> = \<bar>d - r\<bar> / 2 powi ?g"
    unfolding m[symmetric] by (simp add: diff_divide_distrib[symmetric] abs_divide powi2_pos less_imp_le)
  also have "\<dots> < 1 / 2" using near powi2_pos[of ?g] by (simp add: pos_divide_less_eq mult.commute)
  finally have "round_half_even (d / 2 powi ?g) = m" by (rule round_half_even_near)
  then show ?thesis using d m powi2_pos[of ?g] by (simp add: rnd64_def field_simps)
qed

lemma neighbours_close:
  assumes "0 < r"
  shows "\<exists>m\<in>set (neighbours r n). \<bar>of_nat m * 10 powi (dec_exp r - int n) - r\<bar> \<le> 10 powi (dec_exp r - int n) / 2"
proof -
  let ?k = "dec_exp r - int n" and ?q = "r * 10 powi (int n - dec_exp r)"
  let ?lo = "nat \<lfloor>?q\<rfloor>"
  have q0: "0 \<le> ?q" using assms powi10_pos by (intro mult_nonneg_nonneg) (auto simp: less_imp_le)
  then have lo: "(of_nat ?lo :: rat) \<le> ?q" "?q < of_nat ?lo + 1" by (simp_all, linarith)
  have q: "?q * 10 powi ?k = r" using powi10_add[of "int n - dec_exp r" ?k] by (simp add: mult.assoc)
  have scale: "\<bar>of_nat m * 10 powi ?k - r\<bar> = \<bar>of_nat m - ?q\<bar> * 10 powi ?k" for m
  proof -
    have "of_nat m * 10 powi ?k - r = (of_nat m - ?q) * 10 powi ?k" unfolding left_diff_distrib q ..
    then show ?thesis using powi10_pos[of ?k] by (simp add: abs_mult less_imp_le)
  qed
  have "\<exists>m\<in>set (neighbours r n). \<bar>of_nat m - ?q\<bar> \<le> 1 / 2"
  proof (cases "?q - of_nat ?lo \<le> 1 / 2")
    case True
    then have "\<bar>of_nat ?lo - ?q\<bar> \<le> 1 / 2" using lo by linarith
    then show ?thesis using True by (auto simp: neighbours_def Let_def)
  next
    case False
    then have "\<bar>of_nat (Suc ?lo) - ?q\<bar> \<le> 1 / 2" using lo by (simp add: abs_le_iff)
    then show ?thesis using False by (auto simp: neighbours_def Let_def)
  qed
  then obtain m where m: "m \<in> set (neighbours r n)" "\<bar>of_nat m - ?q\<bar> \<le> 1 / 2" by blast
  have "\<bar>of_nat m - ?q\<bar> * 10 powi ?k \<le> 1 / 2 * 10 powi ?k"
    using m(2) powi10_pos[of ?k] by (intro mult_right_mono) (auto simp: less_imp_le)
  then show ?thesis using m(1) by (intro bexI[of _ m]) (simp_all add: scale)
qed

lemma seventeen_digits:
  assumes "representable r" "0 < r" "r < 2 ^ 1024"
  shows "\<exists>p\<in>set (with_digits r 17). reads_back r p"
proof -
  let ?k = "dec_exp r - int 17"
  obtain m where m: "m \<in> set (neighbours r 17)" "\<bar>of_nat m * 10 powi ?k - r\<bar> \<le> 10 powi ?k / 2"
    using neighbours_close[OF assms(2)] by blast
  have "10 powi ?k / 2 = 10 powi (dec_exp r - 1) * (5 / 10 ^ 17 :: rat)"
    by (simp add: power_int_diff)
  also have "\<dots> \<le> r * (5 / 10 ^ 17)" using dec_exp_bounds[OF assms(2)] by (intro mult_right_mono) auto
  also have "\<dots> < r * (1 / 2 ^ 54)" using assms(2) by (intro mult_strict_left_mono) simp_all
  finally have "\<bar>of_nat m * 10 powi ?k - r\<bar> < r / 2 ^ 54" using m(2) by simp
  then have "rnd64 (of_nat m * 10 powi ?k) = r" by (rule rnd64_near[OF assms(1,2)])
  then have "reads_back r (m, ?k)" using assms(2,3) by (simp add: reads_back_def to_float_def)
  then show ?thesis using m(1) by (auto simp: with_digits_def)
qed

lemma shortest_reads_back:
  assumes "representable r" "0 < r" "r < 2 ^ 1024"
  shows "reads_back r (shortest r)"
proof -
  have "\<exists>p\<in>set (concat (map (with_digits r) [1..<18])). reads_back r p"
    using seventeen_digits[OF assms] by auto
  then obtain p where p: "find (reads_back r) (concat (map (with_digits r) [1..<18])) = Some p"
    by (metis find_None_iff not_None_eq)
  then have "reads_back r p" by (auto simp: find_Some_iff)
  then show ?thesis unfolding shortest_def p by simp
qed

section \<open>What is written is read back\<close>

definition digits :: "string \<Rightarrow> bool" where
  "digits s \<longleftrightarrow> list_all is_digit_char s"

lemma digits_simps [simp]:
  "digits []" "digits (c # s) \<longleftrightarrow> is_digit_char c \<and> digits s" "digits (s @ t) \<longleftrightarrow> digits s \<and> digits t"
  by (simp_all add: digits_def)

lemma digits_show_nat [simp]: "digits (show_nat n)"
  by (auto simp: digits_def list_all_iff dest: show_nat_digits)

lemma digits_replicate [simp]: "digits (replicate n (CHR ''0''))"
  by (induction n) (simp_all add: is_digit_char_def)

lemma opt_digits: "digits s \<Longrightarrow> opt_digits s = Some s"
  by (simp add: opt_digits_def digits_def list_all_iff underscored_digits)

lemma opt_digits_Nil [simp]: "opt_digits [] = Some []"
  by (simp add: opt_digits_def)

lemma digits_underscored: "digits s \<Longrightarrow> s \<noteq> [] \<Longrightarrow> underscored False s = Some s"
  by (simp add: digits_def list_all_iff underscored_digits)

lemma digits_plain: "digits s \<Longrightarrow> c \<in> set s \<Longrightarrow> c \<noteq> CHR ''.'' \<and> c \<noteq> CHR ''e'' \<and> c \<noteq> CHR ''E'' \<and> c \<noteq> CHR ''-'' \<and> c \<noteq> CHR ''+'' \<and> \<not> is_space c"
  by (auto simp: digits_def list_all_iff is_digit_char_def is_space_def)

lemma read_digits_append: "read_digits (s @ t) = read_digits s * 10 ^ length t + read_digits t"
proof (induction t rule: rev_induct)
  case (snoc c t)
  then show ?case by (simp add: read_digits_def algebra_simps)
qed (simp add: read_digits_def)

lemma read_digits_zeros [simp]: "read_digits (replicate n (CHR ''0'')) = 0"
  by (induction n) (simp_all add: read_digits_def digit_val_def)

lemma takeWhile_stop: "(\<And>c. c \<in> set s \<Longrightarrow> P c) \<Longrightarrow> \<not> P d \<Longrightarrow> takeWhile P (s @ d # t) = s"
  by (simp add: takeWhile_append2)

text \<open>Digits, a point and digits, with and without an exponent.\<close>

lemma decimal_point:
  assumes "digits a" "digits b" "a \<noteq> [] \<or> b \<noteq> []"
    and "ex = [] \<and> e = 0 \<or> (\<exists>ds. ds \<noteq> [] \<and> digits ds \<and>
      (ex = ''e+'' @ ds \<and> e = int (read_digits ds) \<or> ex = ''e-'' @ ds \<and> e = - int (read_digits ds)))"
  shows "decimal_number (a @ CHR ''.'' # b @ ex) = Some (of_nat (read_digits (a @ b)) * 10 powi (e - int (length b)))"
    and "b = [] \<Longrightarrow> decimal_number (a @ ex) = Some (of_nat (read_digits a) * 10 powi e)"
proof -
  let ?P = "\<lambda>c. c \<noteq> CHR ''e'' \<and> c \<noteq> CHR ''E''"
  have tw: "takeWhile ?P (s @ ex) = s" if "\<And>c. c \<in> set s \<Longrightarrow> ?P c" for s
    using assms(4) that by (auto simp: takeWhile_append2 takeWhile_eq_all_conv)
  have exp: "exponent_part ex = Some e"
    using assms(4) by (auto simp: exponent_part_def take_sign_def digits_underscored)
  have m: "takeWhile ?P (a @ CHR ''.'' # b @ ex) = a @ CHR ''.'' # b"
    using tw[of "a @ CHR ''.'' # b"] assms(1,2) digits_plain by fastforce
  have w: "takeWhile (\<lambda>c. c \<noteq> CHR ''.'') (a @ CHR ''.'' # b) = a"
    by (rule takeWhile_stop) (use assms(1) digits_plain in auto)
  show "decimal_number (a @ CHR ''.'' # b @ ex) = Some (of_nat (read_digits (a @ b)) * 10 powi (e - int (length b)))"
    unfolding decimal_number_def Let_def m w using assms(1-3) by (simp add: opt_digits exp)
  assume "b = []"
  have m: "takeWhile ?P (a @ ex) = a" by (rule tw) (use assms(1) digits_plain in auto)
  have w: "takeWhile (\<lambda>c. c \<noteq> CHR ''.'') a = a" using assms(1) digits_plain by (auto simp: takeWhile_eq_all_conv)
  show "decimal_number (a @ ex) = Some (of_nat (read_digits a) * 10 powi e)"
    unfolding decimal_number_def Let_def m w using assms(1,3) \<open>b = []\<close> by (simp add: opt_digits exp)
qed

text \<open>The number that digits with a decimal point position stand for.\<close>

definition pointed :: "string \<Rightarrow> int \<Rightarrow> rat" where
  "pointed ds p = of_nat (read_digits ds) * 10 powi (p - int (length ds))"

lemma exponent_text:
  "\<exists>es. es \<noteq> [] \<and> digits es \<and> read_digits es = nat \<bar>e\<bar> \<and>
    (let t = show_nat (nat \<bar>e\<bar>) in if length t < 2 then CHR ''0'' # t else t) = es"
proof -
  have "is_digit_char (CHR ''0'')" "read_digits (CHR ''0'' # t) = read_digits t" for t
    by (simp_all add: is_digit_char_def read_digits_def digit_val_def)
  then show ?thesis by (simp add: Let_def)
qed

lemma place_point_reads:
  assumes "digits ds" "ds \<noteq> []"
  shows "decimal_number (place_point ds p) = Some (pointed ds p)"
proof -
  have zero: "is_digit_char (CHR ''0'')" "read_digits (CHR ''0'' # s) = read_digits s" for s
    by (simp_all add: is_digit_char_def read_digits_def digit_val_def)
  consider "- 4 < p" "p \<le> 0" | "0 < p" "p \<le> 16" "int (length ds) \<le> p" | "0 < p" "p \<le> 16" "p < int (length ds)"
    | "\<not> (- 4 < p \<and> p \<le> 0)" "\<not> (0 < p \<and> p \<le> 16)" by linarith
  then show ?thesis
  proof cases
    case 1
    then have "- int (nat (- p)) - int (length ds) = p - int (length ds)" by simp
    then show ?thesis
      using decimal_point(1)[of "''0''" "replicate (nat (- p)) (CHR ''0'') @ ds" "[]" 0] assms 1 zero
      by (simp add: place_point_def pointed_def read_digits_append)
  next
    case 2
    let ?z = "nat p - length ds"
    have "(10::rat) ^ Suc ?z * 10 powi (- 1) = 10 powi (p - int (length ds))"
      using 2(3) by (simp add: power_int_def nat_diff_distrib')
    then have "of_nat (read_digits (ds @ replicate ?z (CHR ''0'') @ ''0'')) * 10 powi (- 1) = pointed ds p"
      by (simp add: read_digits_append pointed_def zero(2)[of "[]"] mult.assoc) (simp add: read_digits_def)
    then show ?thesis
      using decimal_point(1)[of "ds @ replicate ?z (CHR ''0'')" "''0''" "[]" 0] assms 2 zero
      by (simp add: place_point_def)
  next
    case 3
    then have "0 - int (length (drop (nat p) ds)) = p - int (length ds)" by simp
    moreover have "digits (take (nat p) ds)" "digits (drop (nat p) ds)"
      using assms(1) digits_simps(3)[of "take (nat p) ds" "drop (nat p) ds"] by simp_all
    ultimately show ?thesis
      using decimal_point(1)[of "take (nat p) ds" "drop (nat p) ds" "[]" 0] assms 3
      by (simp add: place_point_def pointed_def)
  next
    case 4
    obtain es where es: "es \<noteq> []" "digits es" "read_digits es = nat \<bar>p - 1\<bar>"
      "(let e = show_nat (nat \<bar>p - 1\<bar>) in if length e < 2 then CHR ''0'' # e else e) = es"
      using exponent_text[of "p - 1"] by blast
    obtain d t where d: "ds = d # t" using assms(2) by (cases ds) auto
    define ex where "ex = ''e'' @ (if p - 1 < 0 then ''-'' else ''+'') @ es"
    have ex: "ex = [] \<and> p - 1 = 0 \<or> (\<exists>ds. ds \<noteq> [] \<and> digits ds \<and>
      (ex = ''e+'' @ ds \<and> p - 1 = int (read_digits ds) \<or> ex = ''e-'' @ ds \<and> p - 1 = - int (read_digits ds)))"
      unfolding ex_def using es by (intro disjI2 exI[of _ es]) auto
    have len: "p - 1 - int (length t) = p - int (length ds)" by (simp add: d)
    have out: "place_point ds p = d # (if t = [] then [] else CHR ''.'' # t) @ ex"
      unfolding place_point_def es(4) if_not_P[OF 4(1)] if_not_P[OF 4(2)] ex_def by (simp add: d)
    show ?thesis
    proof (cases "t = []")
      case True
      then show ?thesis unfolding out using decimal_point(2)[of "[d]" "[]" ex "p - 1"] ex assms(1) len
        by (simp add: pointed_def d)
    next
      case False
      then show ?thesis unfolding out using decimal_point(1)[of "[d]" t ex "p - 1"] ex assms(1) len
        by (simp add: pointed_def d)
    qed
  qed
qed

lemma drop_zeros_split: "\<exists>k. ds = drop_zeros ds @ replicate k (CHR ''0'')"
proof -
  have "takeWhile (\<lambda>c. c = CHR ''0'') s = replicate (length (takeWhile (\<lambda>c. c = CHR ''0'') s)) (CHR ''0'')" for s :: string
    by (induction s) auto
  then have "rev ds = replicate (length (takeWhile (\<lambda>c. c = CHR ''0'') (rev ds))) (CHR ''0'') @
      dropWhile (\<lambda>c. c = CHR ''0'') (rev ds)"
    by (metis takeWhile_dropWhile_id)
  then have "ds = rev (dropWhile (\<lambda>c. c = CHR ''0'') (rev ds)) @
      replicate (length (takeWhile (\<lambda>c. c = CHR ''0'') (rev ds))) (CHR ''0'')"
    by (metis rev_append rev_replicate rev_rev_ident)
  then show ?thesis unfolding drop_zeros_def by blast
qed

lemma pointed_drop_zeros: "pointed (drop_zeros ds) (k + int (length ds)) = of_nat (read_digits ds) * 10 powi k"
proof -
  obtain j where j: "ds = drop_zeros ds @ replicate j (CHR ''0'')" using drop_zeros_split by blast
  have len: "length ds = length (drop_zeros ds) + j" by (subst j) simp
  have "read_digits ds = read_digits (drop_zeros ds) * 10 ^ j" by (subst j) (simp add: read_digits_append)
  moreover have "(10::rat) powi (k + int j) = 10 ^ j * 10 powi k" by (simp add: powi10_add)
  ultimately show ?thesis by (simp add: pointed_def len)
qed

text \<open>The characters of a number in text.\<close>

definition number_char :: "char \<Rightarrow> bool" where
  "number_char c \<longleftrightarrow> is_digit_char c \<or> c = CHR ''.'' \<or> c = CHR ''e'' \<or> c = CHR ''+'' \<or> c = CHR ''-''"

lemma number_char_simps [simp]:
  "number_char (CHR ''0'')" "number_char (CHR ''.'')" "number_char (CHR ''e'')" "number_char (CHR ''+'')" "number_char (CHR ''-'')"
  by (simp_all add: number_char_def is_digit_char_def)

lemma number_char_not_space: "number_char c \<Longrightarrow> \<not> is_space c"
  by (auto simp: number_char_def is_digit_char_def is_space_def)

lemma digits_number: "digits s \<Longrightarrow> list_all number_char s"
  by (auto simp: digits_def list_all_iff number_char_def)

lemma place_point_chars:
  assumes "digits ds" "ds \<noteq> []"
  shows "list_all number_char (place_point ds p)" and "\<exists>d t. place_point ds p = d # t \<and> is_digit_char d"
proof -
  obtain d t where d: "ds = d # t" using assms(2) by (cases ds) auto
  have parts: "digits (take n ds)" "digits (drop n ds)" "digits t" "is_digit_char d" for n
    using assms digits_simps(3)[of "take n ds" "drop n ds"] d by simp_all
  have "number_char d" using parts(4) by (simp add: number_char_def)
  moreover have "list_all number_char (replicate n (CHR ''0''))" for n by (simp add: list_all_iff)
  moreover have "list_all number_char (show_nat k)" for k by (rule digits_number) simp
  ultimately show "list_all number_char (place_point ds p)"
    using digits_number[OF assms(1)] digits_number[OF parts(1)] digits_number[OF parts(2)] digits_number[OF parts(3)]
    unfolding place_point_def Let_def by (auto simp: d list_all_append)
  have "is_digit_char (CHR ''0'')" by (simp add: is_digit_char_def)
  then show "\<exists>d t. place_point ds p = d # t \<and> is_digit_char d"
    using parts(4) by (auto simp: place_point_def take_Cons' d)
qed

lemma word_of_number:
  assumes "is_digit_char d"
  shows "take_sign (d # t) = (False, d # t)" "map lower_char (d # t) \<noteq> ''inf''"
    "map lower_char (d # t) \<noteq> ''infinity''" "map lower_char (d # t) \<noteq> ''nan''"
  using assms by (auto simp: take_sign_def is_digit_char_def lower_char_def Let_def)

lemma float_text_number:
  assumes "decimal_number t = Some q" "t = d # t'" "is_digit_char d" "\<And>c. c \<in> set t \<Longrightarrow> \<not> is_space c"
  shows "py_float_text t = Some (to_float q)" "py_float_text (CHR ''-'' # t) = Some (to_float (- q))"
proof -
  have "\<not> is_space (CHR ''-'')" by (simp add: is_space_def)
  then have "strip t = t" "strip (CHR ''-'' # t) = CHR ''-'' # t"
    using assms(4) strip_id[of t] strip_id[of "CHR ''-'' # t"] by auto
  moreover have "take_sign t = (False, t)" "take_sign (CHR ''-'' # t) = (True, t)"
    using assms(2,3) word_of_number(1) by (simp_all add: take_sign_def)
  ultimately show "py_float_text t = Some (to_float q)" "py_float_text (CHR ''-'' # t) = Some (to_float (- q))"
    using word_of_number[OF assms(3), of t', folded assms(2)] assms(1) by (simp_all add: py_float_text_def)
qed

text \<open>A value that a float variable can hold.\<close>

definition is_float :: "pyfloat \<Rightarrow> bool" where
  "is_float x = (case x of Fin r \<Rightarrow> representable r \<and> \<bar>r\<bar> < 2 ^ 1024 | _ \<Rightarrow> True)"

lemma to_float_minus: "to_float q = Fin r \<Longrightarrow> to_float (- q) = Fin (- r)"
  by (auto simp: to_float_def Let_def rnd64_minus split: if_splits)

text \<open>The text of a nonzero float: a sign, and a decimal that starts with a digit and reads as its magnitude.\<close>

lemma show_float_form:
  assumes "is_float (Fin r)" "r \<noteq> 0"
  obtains t d t' q where "show_float (Fin r) = (if r < 0 then ''-'' else []) @ t" "t = d # t'" "is_digit_char d"
    "list_all number_char t" "decimal_number t = Some q" "to_float q = Fin \<bar>r\<bar>"
proof -
  obtain m k where mk: "shortest \<bar>r\<bar> = (m, k)" by fastforce
  have "representable \<bar>r\<bar>"
    using assms rnd64_minus[of r] by (auto simp: is_float_def abs_if simp flip: rnd64_fixed_iff)
  then have "reads_back \<bar>r\<bar> (m, k)" using shortest_reads_back[of "\<bar>r\<bar>"] assms mk by (simp add: is_float_def)
  then have again: "to_float (of_nat m * 10 powi k) = Fin \<bar>r\<bar>" by (simp add: reads_back_def)
  let ?ds = "drop_zeros (show_nat m)" and ?p = "k + int (length (show_nat m))"
  have val: "pointed ?ds ?p = of_nat m * 10 powi k" by (simp add: pointed_drop_zeros)
  have ne: "?ds \<noteq> []"
  proof
    assume "?ds = []"
    then have "of_nat m * (10::rat) powi k = 0" using val by (simp add: pointed_def read_digits_def)
    then show False using again assms(2) by simp
  qed
  have ds: "digits ?ds"
    using drop_zeros_split[of "show_nat m"] digits_show_nat[of m] digits_simps(3) by metis
  obtain d t' where dt: "place_point ?ds ?p = d # t'" "is_digit_char d" using place_point_chars(2)[OF ds ne] by blast
  have out: "show_float (Fin r) = (if r < 0 then ''-'' else []) @ place_point ?ds ?p"
    using assms(2) by (simp only: show_float.simps mk Let_def case_prod_conv if_False)
  show thesis
  proof (rule that[OF out dt])
    show "decimal_number (place_point ?ds ?p) = Some (pointed ?ds ?p)" by (rule place_point_reads[OF ds ne])
    show "to_float (pointed ?ds ?p) = Fin \<bar>r\<bar>" by (simp add: val again)
    show "list_all number_char (place_point ?ds ?p)" by (rule place_point_chars(1)[OF ds ne])
  qed
qed

text \<open>Writing a float as text and reading it back gives the same float.\<close>

lemma float_text_roundtrip:
  assumes "is_float x"
  shows "py_float_text (show_float x) = Some x"
proof (cases x)
  case (Fin r)
  show ?thesis
  proof (cases "r = 0")
    case True
    have "decimal_number ''0.0'' = Some 0"
      using decimal_point(1)[of "''0''" "''0''" "[]" 0] by (simp add: is_digit_char_def read_digits_def digit_val_def)
    then have "py_float_text ''0.0'' = Some (to_float 0)"
      by (rule float_text_number) (auto simp: is_digit_char_def is_space_def)
    then show ?thesis by (simp add: Fin True)
  next
    case False
    obtain t d t' q where t: "show_float (Fin r) = (if r < 0 then ''-'' else []) @ t" "t = d # t'" "is_digit_char d"
      "list_all number_char t" "decimal_number t = Some q" "to_float q = Fin \<bar>r\<bar>"
      using assms[unfolded Fin] False by (rule show_float_form)
    have space: "\<not> is_space c" if "c \<in> set t" for c using t(4) that number_char_not_space by (auto simp: list_all_iff)
    note texts = float_text_number[OF t(5,2,3) space]
    show ?thesis
      unfolding Fin t(1) using texts t(6) to_float_minus[OF t(6)] False by (cases "r < 0") simp_all
  qed
qed (simp_all add: py_float_text_def take_sign_def strip_def is_space_def lower_char_def Let_def)

lemma show_float_chars: "is_float x \<Longrightarrow> list_all (\<lambda>c. number_char c \<or> c \<in> set ''infa'') (show_float x)"
proof (cases x)
  case (Fin r)
  assume x: "is_float x"
  show ?thesis
  proof (cases "r = 0")
    case False
    obtain t d t' q where t: "show_float (Fin r) = (if r < 0 then ''-'' else []) @ t" "t = d # t'" "is_digit_char d"
      "list_all number_char t" "decimal_number t = Some q" "to_float q = Fin \<bar>r\<bar>"
      using x[unfolded Fin] False by (rule show_float_form)
    show ?thesis using t(4) unfolding Fin t(1) by (auto simp: list_all_iff)
  qed (simp add: Fin)
qed auto

text \<open>Text of a float that is not negative starts with no minus.\<close>

lemma show_float_head:
  assumes "is_float x" "\<not> flt x (Fin 0)"
  shows "\<exists>d t. show_float x = d # t \<and> d \<noteq> CHR ''-''"
proof (cases x)
  case (Fin r)
  show ?thesis
  proof (cases "r = 0")
    case False
    obtain t d t' q where t: "show_float (Fin r) = (if r < 0 then ''-'' else []) @ t" "t = d # t'" "is_digit_char d"
      "list_all number_char t" "decimal_number t = Some q" "to_float q = Fin \<bar>r\<bar>"
      using assms(1)[unfolded Fin] False by (rule show_float_form)
    have "d \<noteq> CHR ''-''" using t(3) by (auto simp: is_digit_char_def)
    then show ?thesis unfolding Fin t(1,2) using assms(2) Fin by simp
  qed (simp add: Fin)
qed (use assms in auto)

end
