(* ===== verification/Comma_Lists.thy ===== *)
theory Comma_Lists
  imports Float_Text Py_Format
begin

text \<open>
  Lists in an option of the command line: \<^verbatim>\<open>comma_values\<close> of \<^verbatim>\<open>bench/compare.py\<close> and \<^verbatim>\<open>csv_values\<close> of
  \<^verbatim>\<open>bench/benchmark.py\<close>, with the conversions \<^verbatim>\<open>str\<close>, \<^verbatim>\<open>int\<close> and \<^verbatim>\<open>float\<close> that are passed to them.
\<close>

text \<open>\<open>[cast(item) for item in items]\<close>, where a cast that fails raises.\<close>

fun cast_all :: "(string \<Rightarrow> 'a option) \<Rightarrow> string list \<Rightarrow> py_exn + 'a list" where
  "cast_all cast [] = Inr []"
| "cast_all cast (s # ss) =
     (case cast s of None \<Rightarrow> Inl ValueError | Some x \<Rightarrow> seq (cast_all cast ss) (\<lambda>xs. Inr (x # xs)))"

definition items_of :: "string \<Rightarrow> string list" where
  "items_of s = filter (\<lambda>item. item \<noteq> []) (map str_strip (split_all (CHR '','') s))"

definition comma_values :: "(string \<Rightarrow> 'a option) \<Rightarrow> string \<Rightarrow> py_exn + 'a list" where
  "comma_values cast s = cast_all cast (items_of s)"

definition csv_values :: "(string \<Rightarrow> 'a option) \<Rightarrow> string \<Rightarrow> py_exn + 'a list" where
  "csv_values cast s =
     seq (comma_values cast s) (\<lambda>values.
       if values = [] then Inl (ArgumentError ''expected a comma-separated value'') else Inr values)"

lemma split_all_nonempty [simp]: "split_all sep s \<noteq> []"
  by (induction s) (auto split: list.splits)

lemma split_all_none: "sep \<notin> set s \<Longrightarrow> split_all sep s = [s]"
  by (induction s) auto

lemma split_all_append: "sep \<notin> set a \<Longrightarrow> split_all sep (a @ sep # b) = a # split_all sep b"
  by (induction a) auto

text \<open>Items without the separator, joined by it, are split again as they were.\<close>

lemma split_all_join:
  assumes "ws \<noteq> []" "\<And>w. w \<in> set ws \<Longrightarrow> sep \<notin> set w"
  shows "split_all sep (join [sep] ws) = ws"
  using assms
proof (induction "[sep]" ws rule: join.induct)
  case (3 s v va)
  then show ?case by (simp add: split_all_append)
qed (simp_all add: split_all_none)

lemma str_strip_id: "(\<And>c. c \<in> set s \<Longrightarrow> \<not> is_str_space c) \<Longrightarrow> str_strip s = s"
  unfolding str_strip_def using dropWhile_none[of s is_str_space] dropWhile_none[of "rev s" is_str_space] by simp

text \<open>Text that stands as one item of a list.\<close>

definition plain_item :: "string \<Rightarrow> bool" where
  "plain_item s \<longleftrightarrow> s \<noteq> [] \<and> (\<forall>c\<in>set s. c \<noteq> CHR '','' \<and> \<not> is_str_space c)"

lemma items_of_join:
  assumes "\<And>w. w \<in> set ws \<Longrightarrow> plain_item w"
  shows "items_of (join '','' ws) = ws"
proof (cases "ws = []")
  case True
  then show ?thesis by (simp add: items_of_def str_strip_def)
next
  case False
  have "split_all (CHR '','') (join '','' ws) = ws"
    using assms by (intro split_all_join[OF False]) (auto simp: plain_item_def)
  moreover have "map str_strip ws = ws" using assms by (intro map_idI str_strip_id) (auto simp: plain_item_def)
  moreover have "filter (\<lambda>item. item \<noteq> []) ws = ws" using assms by (intro filter_True) (auto simp: plain_item_def)
  ultimately show ?thesis by (simp add: items_of_def)
qed

lemma cast_all_map: "(\<And>x. x \<in> set xs \<Longrightarrow> cast (render x) = Some x) \<Longrightarrow> cast_all cast (map render xs) = Inr xs"
  by (induction xs) auto

text \<open>A list of rendered values is read back.\<close>

lemma comma_values_join:
  assumes "\<And>x. x \<in> set xs \<Longrightarrow> plain_item (render x) \<and> cast (render x) = Some x"
  shows "comma_values cast (join '','' (map render xs)) = Inr xs"
  unfolding comma_values_def using assms by (subst items_of_join) (auto intro: cast_all_map)

lemma plain_show_int: "plain_item (show_int n)"
proof -
  have "show_int n \<noteq> []" by (simp add: show_int_def)
  moreover have "c \<noteq> CHR '','' \<and> \<not> is_str_space c" if "c \<in> set (show_int n)" for c
    using show_int_chars[OF that] by (auto simp: is_digit_char_def is_str_space_def is_space_def)
  ultimately show ?thesis by (simp add: plain_item_def)
qed

lemma cast_all_length: "cast_all cast ss = Inr xs \<Longrightarrow> length xs = length ss"
  by (induction ss arbitrary: xs) (auto split: option.splits simp: exn_simps)

lemma cast_all_mem: "cast_all cast ss = Inr xs \<Longrightarrow> x \<in> set xs \<Longrightarrow> \<exists>s\<in>set ss. cast s = Some x"
  by (induction ss arbitrary: xs) (auto split: option.splits simp: exn_simps)

end
