(* ===== verification/Fresh_Names.thy ===== *)
theory Fresh_Names
  imports Prelude
begin

text \<open>
  The search for a name that is not taken: a first choice, then the choices with the suffixes 2, 3
  and so on. Result directories (\<^verbatim>\<open>bench/compare.py\<close>) and worksheets (\<^verbatim>\<open>bench/csv_to_xlsx.py\<close>) are
  named in this way. The fuel bounds the rounds of the \<^verbatim>\<open>while\<close> loop.
\<close>

fun first_free :: "('a \<Rightarrow> bool) \<Rightarrow> (nat \<Rightarrow> 'a) \<Rightarrow> nat \<Rightarrow> nat \<Rightarrow> 'a option" where
  "first_free taken choice 0 k = None"
| "first_free taken choice (Suc n) k =
     (if taken (choice k) then first_free taken choice n (Suc k) else Some (choice k))"

text \<open>The first choice, and the base with a suffix from two on.\<close>

definition suffix_choice :: "'a \<Rightarrow> (nat \<Rightarrow> 'a) \<Rightarrow> nat \<Rightarrow> 'a" where
  "suffix_choice base suffixed k = (if k = 0 then base else suffixed (Suc k))"

lemma first_free_Some:
  "first_free taken choice n k = Some x \<Longrightarrow> \<not> taken x \<and> (\<exists>j\<ge>k. x = choice j \<and> (\<forall>i. k \<le> i \<and> i < j \<longrightarrow> taken (choice i)))"
proof (induction n arbitrary: k)
  case (Suc n)
  show ?case
  proof (cases "taken (choice k)")
    case True
    then obtain j where j: "\<not> taken x" "Suc k \<le> j" "x = choice j" "\<forall>i. Suc k \<le> i \<and> i < j \<longrightarrow> taken (choice i)"
      using Suc by auto
    have "taken (choice i)" if "k \<le> i" "i < j" for i
      using j(4) that True by (cases "i = k") auto
    then show ?thesis using j by (intro conjI exI[of _ j]) auto
  next
    case False
    then show ?thesis using Suc.prems by (auto intro: exI[of _ k])
  qed
qed simp

lemma first_free_None: "first_free taken choice n k = None \<longleftrightarrow> (\<forall>j. k \<le> j \<and> j < k + n \<longrightarrow> taken (choice j))"
proof (induction n arbitrary: k)
  case (Suc n)
  show ?case
  proof (cases "taken (choice k)")
    case True
    then have "first_free taken choice (Suc n) k = None \<longleftrightarrow> (\<forall>j. Suc k \<le> j \<and> j < Suc k + n \<longrightarrow> taken (choice j))"
      using Suc by simp
    also have "\<dots> \<longleftrightarrow> (\<forall>j. k \<le> j \<and> j < k + Suc n \<longrightarrow> taken (choice j))"
      using True by (metis Suc_le_eq add_Suc add_Suc_right le_neq_implies_less order.strict_implies_order)
    finally show ?thesis .
  next
    case False
    then show ?thesis by auto
  qed
qed auto

lemma first_free_mono:
  assumes "first_free taken choice n k = Some x" "n \<le> m"
  shows "first_free taken choice m k = Some x"
  using assms
proof (induction n arbitrary: k m)
  case (Suc n)
  then show ?case by (cases m) (auto split: if_splits)
qed simp

text \<open>
  What a search needs of its choices: those with a suffix differ in what the test looks at (the key
  of a name), at least for the suffixes below a bound.
\<close>

locale fresh_names =
  fixes choice :: "nat \<Rightarrow> 'a" and key :: "'a \<Rightarrow> 'b" and bound :: nat
  assumes inj_choice: "inj_on (\<lambda>k. key (choice k)) {1..<bound}"
begin

text \<open>One round more than there are names taken, and the first choice, are enough.\<close>

lemma enough_rounds:
  assumes "finite used" "card used + 2 \<le> bound" "card used + 2 \<le> n"
  shows "\<exists>x. first_free (\<lambda>x. key x \<in> used) choice n 0 = Some x"
proof (rule ccontr)
  assume "\<nexists>x. first_free (\<lambda>x. key x \<in> used) choice n 0 = Some x"
  then have "first_free (\<lambda>x. key x \<in> used) choice n 0 = None" by (cases "first_free (\<lambda>x. key x \<in> used) choice n 0") auto
  then have "(\<lambda>k. key (choice k)) ` {1..<card used + 2} \<subseteq> used"
    using assms(3) by (auto simp: first_free_None)
  then have "card ((\<lambda>k. key (choice k)) ` {1..<card used + 2}) \<le> card used"
    using assms(1) by (intro card_mono)
  moreover have "inj_on (\<lambda>k. key (choice k)) {1..<card used + 2}"
    by (rule inj_on_subset[OF inj_choice]) (use assms(2) in auto)
  ultimately show False by (simp add: card_image)
qed

lemma found_is_free: "first_free (\<lambda>x. key x \<in> used) choice n 0 = Some x \<Longrightarrow> key x \<notin> used \<and> x \<in> range choice"
  by (auto dest: first_free_Some)

end

end
