(* ===== verification/Sweep_Plan.thy ===== *)
theory Sweep_Plan
  imports Comma_Lists Fresh_Names
begin

text \<open>
  The plan of a sweep (\<^verbatim>\<open>bench/compare.py\<close>): the parsed command line, the experiment groups with
  their offered rates, the checks of \<^verbatim>\<open>main\<close> before the first run, the order of the implementations
  in a trial and the fresh directory for the results.
\<close>

section \<open>The command line\<close>

record sweep_args =
  sa_implementations :: string
  sa_name :: string
  sa_result_root :: string
  sa_experiments :: string
  sa_sparse_tiers :: string
  sa_sparse_active :: string
  sa_sparse_rate :: pyfloat
  sa_dense_tiers :: string
  sa_dense_rates :: string
  sa_broadcast_tiers :: string
  sa_broadcast_rates :: string
  sa_runs :: int
  sa_duration :: pyfloat
  sa_warmup :: pyfloat
  sa_warmup_rate :: pyfloat
  sa_drain :: pyfloat
  sa_payload_size :: int
  sa_workers :: int
  sa_server_cpu :: "int option"
  sa_worker_cpus :: string
  sa_min_delivery_ratio :: pyfloat
  sa_min_deadline_completion_ratio :: pyfloat
  sa_max_missed_offer_ratio :: pyfloat
  sa_max_scheduler_lag_ms :: pyfloat
  sa_max_read_service_gap_ms :: pyfloat
  sa_max_latency_p99_ms :: pyfloat
  sa_no_build :: bool

definition SERVERS :: "string list" where
  "SERVERS = [''poll'', ''epoll'']"

definition default_sweep :: sweep_args where
  "default_sweep =
     \<lparr> sa_implementations = ''poll,epoll'', sa_name = ''comparison'', sa_result_root = ''bench/results'',
       sa_experiments = ''sparse,dense,broadcast'', sa_sparse_tiers = ''1000,5000,10000,50000'',
       sa_sparse_active = ''1,10,100'', sa_sparse_rate = Fin 1000, sa_dense_tiers = ''100,500,1000'',
       sa_dense_rates = ''1000,5000,10000,25000,50000,100000'', sa_broadcast_tiers = ''10,100,500'',
       sa_broadcast_rates = ''100,500,1000,5000'', sa_runs = 3, sa_duration = Fin 10, sa_warmup = Fin 1,
       sa_warmup_rate = Fin 1000, sa_drain = Fin 2, sa_payload_size = 128, sa_workers = 4,
       sa_server_cpu = None, sa_worker_cpus = [], sa_min_delivery_ratio = to_float (999 / 1000),
       sa_min_deadline_completion_ratio = to_float (99 / 100), sa_max_missed_offer_ratio = to_float (1 / 100),
       sa_max_scheduler_lag_ms = Fin 20, sa_max_read_service_gap_ms = Fin 20,
       sa_max_latency_p99_ms = Fin 50, sa_no_build = False \<rparr>"

section \<open>Experiment groups\<close>

record group =
  g_experiment :: string
  g_workload :: string
  g_total :: int
  g_active :: int
  g_rates :: "pyfloat list"

text \<open>
  \<^verbatim>\<open>sorted\<close> on floats: stable, by \<^verbatim>\<open><\<close>. (Python leaves the order of a list with \<^verbatim>\<open>nan\<close> to its
  algorithm; nothing is stated for such lists.)
\<close>

fun insert_float :: "pyfloat \<Rightarrow> pyfloat list \<Rightarrow> pyfloat list" where
  "insert_float x [] = [x]"
| "insert_float x (y # ys) = (if flt x y then x # y # ys else y # insert_float x ys)"

definition sort_floats :: "pyfloat list \<Rightarrow> pyfloat list" where
  "sort_floats xs = foldl (\<lambda>acc x. insert_float x acc) [] xs"

text \<open>A loop that appends to a list and may raise.\<close>

fun collect :: "'a list \<Rightarrow> ('a \<Rightarrow> py_exn + 'b list) \<Rightarrow> py_exn + 'b list" where
  "collect [] f = Inr []"
| "collect (x # xs) f = seq (f x) (\<lambda>ys. seq (collect xs f) (\<lambda>zs. Inr (ys @ zs)))"

definition sparse_groups :: "sweep_args \<Rightarrow> py_exn + group list" where
  "sparse_groups a =
     seq (comma_values py_int (sa_sparse_tiers a)) (\<lambda>totals.
       collect totals (\<lambda>total.
         seq (comma_values py_int (sa_sparse_active a)) (\<lambda>actives.
           Inr (map (\<lambda>active. \<lparr> g_experiment = ''sparse'', g_workload = ''direct'', g_total = total,
             g_active = active, g_rates = [sa_sparse_rate a] \<rparr>) (filter (\<lambda>active. active \<le> total) actives)))))"

definition full_groups :: "string \<Rightarrow> string \<Rightarrow> string \<Rightarrow> string \<Rightarrow> py_exn + group list" where
  "full_groups experiment workload rates_text tiers_text =
     seq (comma_values py_float_text rates_text) (\<lambda>rates.
     seq (comma_values py_int tiers_text) (\<lambda>totals.
       Inr (map (\<lambda>total. \<lparr> g_experiment = experiment, g_workload = workload, g_total = total,
         g_active = total, g_rates = sort_floats rates \<rparr>) totals)))"

definition when_selected :: "bool \<Rightarrow> py_exn + group list \<Rightarrow> py_exn + group list" where
  "when_selected b gs = (if b then gs else Inr [])"

definition experiment_groups :: "sweep_args \<Rightarrow> py_exn + group list" where
  "experiment_groups a =
     seq (comma_values Some (sa_experiments a)) (\<lambda>selected.
       if \<exists>e\<in>set selected. e \<notin> {''sparse'', ''dense'', ''broadcast''} then Inl ValueError
       else
         seq (when_selected (''sparse'' \<in> set selected) (sparse_groups a)) (\<lambda>sparse.
         seq (when_selected (''dense'' \<in> set selected)
           (full_groups ''dense'' ''direct'' (sa_dense_rates a) (sa_dense_tiers a))) (\<lambda>dense.
         seq (when_selected (''broadcast'' \<in> set selected)
           (full_groups ''broadcast'' ''broadcast'' (sa_broadcast_rates a) (sa_broadcast_tiers a))) (\<lambda>broadcast.
           Inr (sparse @ dense @ broadcast)))))"

text \<open>The checks of \<^verbatim>\<open>main\<close>; the implementations and groups are what the sweep runs. (The message of a
  caught \<^verbatim>\<open>ValueError\<close> is not kept.)\<close>

definition plan_sweep :: "sweep_args \<Rightarrow> py_exn + string list \<times> group list" where
  "plan_sweep a =
     seq (comma_values Some (sa_implementations a)) (\<lambda>implementations.
       if implementations = [] \<or> (\<exists>name\<in>set implementations. name \<notin> set SERVERS)
       then Inl (ArgumentError ''implementations must contain poll and/or epoll'')
       else if sa_runs a < 1 \<or> fle (py_min (sa_duration a) (sa_drain a)) (Fin 0) \<or> flt (sa_warmup a) (Fin 0)
       then Inl (ArgumentError ''invalid run durations'')
       else
         case experiment_groups a of
           Inl ValueError \<Rightarrow> Inl (ArgumentError ''invalid experiments'')
         | Inl e \<Rightarrow> Inl e
         | Inr groups \<Rightarrow>
             if groups = [] then Inl (ArgumentError ''no experiment groups selected'')
             else
               seq (if sa_worker_cpus a \<noteq> [] then comma_values py_int (sa_worker_cpus a) else Inr []) (\<lambda>worker_cpus.
                 if (case sa_server_cpu a of None \<Rightarrow> False | Some c \<Rightarrow> c \<in> set worker_cpus)
                 then Inl (ArgumentError ''server and worker CPU affinity sets must not overlap'')
                 else Inr (implementations, groups)))"

definition execution_order :: "'a list \<Rightarrow> int \<Rightarrow> 'a list" where
  "execution_order implementations trial = (if trial mod 2 \<noteq> 0 then implementations else rev implementations)"

section \<open>The directory of the results\<close>

definition result_base :: "string \<Rightarrow> string \<Rightarrow> string \<Rightarrow> string \<Rightarrow> string" where
  "result_base parent timestamp name sha = parent @ ''/'' @ timestamp @ ''-'' @ name @ ''-'' @ sha"

definition directory_choice :: "string \<Rightarrow> nat \<Rightarrow> string" where
  "directory_choice base = suffix_choice base (\<lambda>suffix. base @ ''-'' @ show_nat suffix)"

text \<open>
  The new directory and the paths that exist then; the clock's time stamp, the commit and the paths
  that exist are arguments.
\<close>

definition new_result_directory ::
  "nat \<Rightarrow> string \<Rightarrow> string \<Rightarrow> string \<Rightarrow> string \<Rightarrow> string set \<Rightarrow> (string \<times> string set) option" where
  "new_result_directory fuel parent timestamp name sha existing =
     map_option (\<lambda>candidate. (candidate, insert candidate existing))
       (first_free (\<lambda>candidate. candidate \<in> existing) (directory_choice (result_base parent timestamp name sha)) fuel 0)"

interpretation result_directories: fresh_names "directory_choice base" "\<lambda>x. x" bound for base bound
  by unfold_locales (auto simp: inj_on_def directory_choice_def suffix_choice_def)

lemma new_directory:
  assumes "finite existing" "card existing + 2 \<le> fuel"
  obtains tail where "new_result_directory fuel dir timestamp name sha existing =
      Some (result_base dir timestamp name sha @ tail, insert (result_base dir timestamp name sha @ tail) existing)"
    "result_base dir timestamp name sha @ tail \<notin> existing"
proof -
  let ?base = "result_base dir timestamp name sha"
  obtain d where d: "first_free (\<lambda>x. x \<in> existing) (directory_choice ?base) fuel 0 = Some d"
    using result_directories.enough_rounds[OF assms(1) order_refl assms(2)] by blast
  have free: "d \<notin> existing" "d \<in> range (directory_choice ?base)" using result_directories.found_is_free[OF d] by auto
  then obtain k where "d = directory_choice ?base k" by blast
  then obtain tail where "d = ?base @ tail"
    by (cases "k = 0") (auto simp: directory_choice_def suffix_choice_def)
  with that[of tail] d free(1) show thesis by (simp add: new_result_directory_def)
qed

text \<open>The results of a sweep never overwrite earlier ones: the search for a directory ends, after at
  most one round more than there are paths, with one that did not exist and now does; other paths
  stay, and its name is the plain one if that was free.\<close>

theorem new_result_directory_fresh:
  assumes "finite existing" "card existing + 2 \<le> fuel"
  shows "\<exists>d. new_result_directory fuel parent timestamp name sha existing = Some (d, insert d existing) \<and>
    d \<notin> existing \<and> (result_base parent timestamp name sha \<notin> existing \<longrightarrow> d = result_base parent timestamp name sha)"
proof -
  let ?c = "directory_choice (result_base parent timestamp name sha)"
  obtain d where d: "first_free (\<lambda>x. x \<in> existing) ?c fuel 0 = Some d"
    using result_directories.enough_rounds[OF assms(1) order_refl assms(2)] by blast
  have "?c 0 = result_base parent timestamp name sha" by (simp add: directory_choice_def suffix_choice_def)
  moreover obtain n where "fuel = Suc n" using assms(2) by (cases fuel) auto
  ultimately show ?thesis
    using d result_directories.found_is_free[OF d] by (auto simp: new_result_directory_def split: if_splits)
qed

theorem new_result_directory_fresh_witness:
  "\<exists>d. new_result_directory 3 ''r'' ''t'' ''n'' ''s'' {''r/t-n-s''} = Some (d, {d, ''r/t-n-s''}) \<and> d \<noteq> ''r/t-n-s''"
  using new_result_directory_fresh[of "{''r/t-n-s''}" 3 "''r''" "''t''" "''n''" "''s''"] by auto

section \<open>The groups of a plan\<close>

lemma insert_float_mset [simp]: "mset (insert_float x ys) = add_mset x (mset ys)"
  by (induction ys) auto

lemma sort_floats_snoc: "sort_floats (xs @ [x]) = insert_float x (sort_floats xs)"
  by (simp add: sort_floats_def)

lemma sort_floats_mset [simp]: "mset (sort_floats xs) = mset xs"
  by (induction xs rule: rev_induct) (simp_all add: sort_floats_snoc, simp add: sort_floats_def)

lemma sort_floats_set [simp]: "set (sort_floats xs) = set xs"
  by (metis set_mset_mset sort_floats_mset)

lemma insert_float_set [simp]: "set (insert_float x ys) = insert x (set ys)"
  by (induction ys) auto

lemma insert_float_sorted:
  assumes "sorted_wrt fle ys" "x \<noteq> NaN" "NaN \<notin> set ys"
  shows "sorted_wrt fle (insert_float x ys)"
  using assms
proof (induction ys)
  case (Cons y ys)
  show ?case
  proof (cases "flt x y")
    case True
    then have "fle x y" by (simp add: fle_def)
    then show ?thesis using Cons.prems True by (auto intro: fle_trans)
  next
    case False
    then have "fle y x" using not_flt Cons.prems by auto
    then show ?thesis using Cons False by simp
  qed
qed simp

lemma sort_floats_sorted: "NaN \<notin> set xs \<Longrightarrow> sorted_wrt fle (sort_floats xs)"
proof (induction xs rule: rev_induct)
  case (snoc x xs)
  then show ?case by (auto simp: sort_floats_snoc intro!: insert_float_sorted)
qed (simp add: sort_floats_def)

lemma collect_Inr: "collect xs f = Inr ys \<Longrightarrow> y \<in> set ys \<Longrightarrow> \<exists>x\<in>set xs. \<exists>zs. f x = Inr zs \<and> y \<in> set zs"
  by (induction xs arbitrary: ys) (auto simp: exn_simps)

lemma collect_const: "(\<And>x. x \<in> set xs \<Longrightarrow> f x = Inr (g x)) \<Longrightarrow> collect xs f = Inr (concat (map g xs))"
  by (induction xs) auto

text \<open>What every group of a sweep satisfies.\<close>

definition group_ok :: "group \<Rightarrow> bool" where
  "group_ok g \<longleftrightarrow>
     g_experiment g \<in> {''sparse'', ''dense'', ''broadcast''} \<and>
     g_workload g = (if g_experiment g = ''broadcast'' then ''broadcast'' else ''direct'') \<and>
     g_active g \<le> g_total g \<and> (g_experiment g \<noteq> ''sparse'' \<longrightarrow> g_active g = g_total g) \<and>
     (NaN \<notin> set (g_rates g) \<longrightarrow> sorted_wrt fle (g_rates g))"

lemma sparse_groups_ok: "sparse_groups a = Inr gs \<Longrightarrow> g \<in> set gs \<Longrightarrow> group_ok g \<and> g_experiment g = ''sparse''"
  by (auto simp: sparse_groups_def exn_simps group_ok_def dest!: collect_Inr)

lemma full_groups_ok:
  assumes "full_groups e w rates tiers = Inr gs" "g \<in> set gs" "e = ''dense'' \<and> w = ''direct'' \<or> e = ''broadcast'' \<and> w = ''broadcast''"
  shows "group_ok g \<and> g_experiment g = e"
  using assms sort_floats_sorted by (auto simp: full_groups_def exn_simps group_ok_def)

lemma experiment_groups_ok:
  assumes "experiment_groups a = Inr gs" "g \<in> set gs"
  shows "group_ok g \<and> g_experiment g \<in> set (items_of (sa_experiments a))"
proof -
  obtain sel s d b where sel: "comma_values Some (sa_experiments a) = Inr sel"
    and s: "when_selected (''sparse'' \<in> set sel) (sparse_groups a) = Inr s"
    and d: "when_selected (''dense'' \<in> set sel)
      (full_groups ''dense'' ''direct'' (sa_dense_rates a) (sa_dense_tiers a)) = Inr d"
    and b: "when_selected (''broadcast'' \<in> set sel)
      (full_groups ''broadcast'' ''broadcast'' (sa_broadcast_rates a) (sa_broadcast_tiers a)) = Inr b"
    and gs: "gs = s @ d @ b"
    using assms(1) by (auto simp: experiment_groups_def exn_simps split: if_split_asm)
  have "cast_all Some xs = Inr xs" for xs by (induction xs) auto
  then have items: "sel = items_of (sa_experiments a)" using sel by (simp add: comma_values_def)
  have "group_ok g \<and> g_experiment g \<in> set sel" if "g \<in> set s"
    using s that sparse_groups_ok by (auto simp: when_selected_def split: if_split_asm)
  moreover have "group_ok g \<and> g_experiment g \<in> set sel" if "g \<in> set d"
    using d that full_groups_ok by (auto simp: when_selected_def split: if_split_asm)
  moreover have "group_ok g \<and> g_experiment g \<in> set sel" if "g \<in> set b"
    using b that full_groups_ok by (auto simp: when_selected_def split: if_split_asm)
  ultimately show ?thesis using assms(2) by (auto simp: gs items)
qed

text \<open>C31: an accepted sweep runs at least one known implementation, has at least one group, and every
  group is well formed: a selected experiment with its workload, no more active than total
  connections (all of them active unless sparse), and offered rates in ascending order, which the
  early stop of the sweep relies on.\<close>

theorem plan_sweep_sound:
  assumes "plan_sweep a = Inr (implementations, groups)"
  shows "implementations \<noteq> [] \<and> set implementations \<subseteq> set SERVERS \<and> groups \<noteq> [] \<and> 1 \<le> sa_runs a \<and>
    (\<forall>g\<in>set groups. group_ok g \<and> g_experiment g \<in> set (items_of (sa_experiments a)))"
proof -
  have "experiment_groups a = Inr groups" "groups \<noteq> []" "implementations \<noteq> []" "set implementations \<subseteq> set SERVERS" "1 \<le> sa_runs a"
    using assms unfolding plan_sweep_def seq_Inr_iff
    by (auto split: if_split_asm sum.split_asm py_exn.split_asm simp: exn_simps)
  then show ?thesis using experiment_groups_ok by blast
qed

text \<open>The groups of the lists on the command line: every sparse tier with each active count that
  fits it, in the order given, then every dense and every broadcast tier at the sorted rates.\<close>

theorem experiment_groups_of_lists:
  assumes "sa_experiments a = ''sparse,dense,broadcast''"
    and "sa_sparse_tiers a = join '','' (map show_int ts)" "sa_sparse_active a = join '','' (map show_int as)"
    and "sa_dense_tiers a = join '','' (map show_int ds)" "sa_broadcast_tiers a = join '','' (map show_int bs)"
    and "comma_values py_float_text (sa_dense_rates a) = Inr drs" "comma_values py_float_text (sa_broadcast_rates a) = Inr brs"
    and "\<forall>n\<in>set (ts @ as @ ds @ bs). length (show_nat (nat \<bar>n\<bar>)) \<le> 4300"
  shows "experiment_groups a = Inr
    (concat (map (\<lambda>t. map (\<lambda>n. \<lparr> g_experiment = ''sparse'', g_workload = ''direct'', g_total = t, g_active = n,
        g_rates = [sa_sparse_rate a] \<rparr>) (filter (\<lambda>n. n \<le> t) as)) ts) @
     map (\<lambda>t. \<lparr> g_experiment = ''dense'', g_workload = ''direct'', g_total = t, g_active = t, g_rates = sort_floats drs \<rparr>) ds @
     map (\<lambda>t. \<lparr> g_experiment = ''broadcast'', g_workload = ''broadcast'', g_total = t, g_active = t,
        g_rates = sort_floats brs \<rparr>) bs)"
proof -
  have ints: "comma_values py_int (join '','' (map show_int ns)) = Inr ns"
    if "\<forall>n\<in>set ns. length (show_nat (nat \<bar>n\<bar>)) \<le> 4300" for ns
    using that by (intro comma_values_join) (auto simp: plain_show_int py_int_show_int)
  have sel: "comma_values Some ''sparse,dense,broadcast'' = Inr [''sparse'', ''dense'', ''broadcast'']"
    by (simp add: comma_values_def items_of_def str_strip_def is_str_space_def is_space_def)
  have sparse: "sparse_groups a = Inr (concat (map (\<lambda>t. map (\<lambda>n. \<lparr> g_experiment = ''sparse'', g_workload = ''direct'',
      g_total = t, g_active = n, g_rates = [sa_sparse_rate a] \<rparr>) (filter (\<lambda>n. n \<le> t) as)) ts))"
    unfolding sparse_groups_def assms(2,3) using ints[of ts] ints[of as] assms(8) by (simp add: collect_const)
  show ?thesis
    unfolding experiment_groups_def assms(1) sel using sparse ints[of ds] ints[of bs] assms(8)
    by (simp add: when_selected_def full_groups_def assms(4-7))
qed

text \<open>A sweep with one tier of each kind.\<close>

definition small_sweep :: sweep_args where
  "small_sweep = default_sweep\<lparr>sa_sparse_tiers := ''8'', sa_sparse_active := ''2,9'', sa_dense_tiers := ''8'',
     sa_dense_rates := ''7,5'', sa_broadcast_tiers := ''4'', sa_broadcast_rates := ''6'', sa_runs := 2\<rparr>"

lemma digit_text: "show_int 8 = ''8''" "show_int 2 = ''2''" "show_int 9 = ''9''" "show_int 4 = ''4''"
  by (simp_all add: show_int_def show_nat.simps digit_char_def char_of_def bit_0)

lemma digit_float:
  assumes "is_digit_char c"
  shows "py_float_text [c] = Some (to_float (of_nat (digit_val c)))"
proof -
  have "decimal_number [c] = Some (of_nat (read_digits [c]) * 10 powi 0)"
    using decimal_point(2)[of "[c]" "[]" "[]" 0] assms by simp
  then show ?thesis
    using float_text_number(1)[of "[c]" _ c "[]"] assms digits_plain[of "[c]" c] by (simp add: read_digits_def)
qed

lemma small_rates:
  "comma_values py_float_text ''7,5'' = Inr [Fin 7, Fin 5]" "comma_values py_float_text ''6'' = Inr [Fin 6]"
  by (simp_all add: comma_values_def items_of_def str_strip_def is_str_space_def is_space_def digit_float
      is_digit_char_def digit_val_def float_simps)

text \<open>The groups of the small sweep.\<close>

definition small_groups :: "group list" where
  "small_groups =
     [\<lparr> g_experiment = ''sparse'', g_workload = ''direct'', g_total = 8, g_active = 2, g_rates = [Fin 1000] \<rparr>,
      \<lparr> g_experiment = ''dense'', g_workload = ''direct'', g_total = 8, g_active = 8, g_rates = [Fin 5, Fin 7] \<rparr>,
      \<lparr> g_experiment = ''broadcast'', g_workload = ''broadcast'', g_total = 4, g_active = 4, g_rates = [Fin 6] \<rparr>]"

lemma small_ints: "comma_values py_int ''8'' = Inr [8]" "comma_values py_int ''4'' = Inr [4]" "comma_values py_int ''2,9'' = Inr [2, 9]"
  by (simp_all add: comma_values_def items_of_def str_strip_def strip_def is_str_space_def is_space_def py_int_def
      Let_def is_digit_char_def read_digits_def digit_val_def)

lemma small_plan: "plan_sweep small_sweep = Inr ([''poll'', ''epoll''], small_groups)"
proof -
  have strs: "comma_values Some ''poll,epoll'' = Inr [''poll'', ''epoll'']"
    "comma_values Some ''sparse,dense,broadcast'' = Inr [''sparse'', ''dense'', ''broadcast'']"
    by (simp_all add: comma_values_def items_of_def str_strip_def is_str_space_def is_space_def)
  have "experiment_groups small_sweep = Inr small_groups"
    by (simp add: experiment_groups_def when_selected_def sparse_groups_def full_groups_def small_sweep_def default_sweep_def
        strs small_rates small_ints small_groups_def sort_floats_def)
  then show ?thesis
    by (simp add: plan_sweep_def) (simp add: small_sweep_def default_sweep_def strs SERVERS_def small_groups_def)
qed

theorem plan_sweep_sound_witness:
  "plan_sweep small_sweep = Inr ([''poll'', ''epoll''], small_groups) \<and> group_ok (small_groups ! 0) \<and> small_groups \<noteq> []"
proof -
  have "small_groups ! 0 \<in> set small_groups" by (simp add: small_groups_def)
  then show ?thesis using plan_sweep_sound[OF small_plan] small_plan by blast
qed

theorem experiment_groups_of_lists_witness:
  "experiment_groups small_sweep = Inr small_groups"
proof -
  have "experiment_groups small_sweep = Inr
    (concat (map (\<lambda>t. map (\<lambda>n. \<lparr> g_experiment = ''sparse'', g_workload = ''direct'', g_total = t, g_active = n,
        g_rates = [sa_sparse_rate small_sweep] \<rparr>) (filter (\<lambda>n. n \<le> t) [2, 9])) [8]) @
     map (\<lambda>t. \<lparr> g_experiment = ''dense'', g_workload = ''direct'', g_total = t, g_active = t, g_rates = sort_floats [Fin 7, Fin 5] \<rparr>) [8] @
     map (\<lambda>t. \<lparr> g_experiment = ''broadcast'', g_workload = ''broadcast'', g_total = t, g_active = t,
        g_rates = sort_floats [Fin 6] \<rparr>) [4])"
    by (rule experiment_groups_of_lists)
      (simp_all add: small_sweep_def default_sweep_def digit_text small_rates show_nat.simps)
  then show ?thesis by (simp add: small_groups_def sort_floats_def) (simp add: small_sweep_def default_sweep_def)
qed

end
