(* ===== verification/Command_Line.thy ===== *)
theory Command_Line
  imports Phase_Config Sweep_Plan
begin

text \<open>
  How a sweep starts a benchmark: the words that \<^verbatim>\<open>benchmark_command\<close> (\<^verbatim>\<open>bench/compare.py\<close>) and
  \<^verbatim>\<open>main\<close> of \<^verbatim>\<open>bench/profile.py\<close> build, and the options by which \<^verbatim>\<open>main\<close> of
  \<^verbatim>\<open>bench/benchmark.py\<close> reads them. Of \<^verbatim>\<open>argparse\<close> the form with the full option name and its
  value as the next word is modelled, which is the only one the program writes.
\<close>

section \<open>Words that are values\<close>

text \<open>\<^verbatim>\<open>argparse\<close> takes a word for a negative number if it is digits, or digits with a point, after a minus.\<close>

definition negative_number :: "string \<Rightarrow> bool" where
  "negative_number s =
     (case s of [] \<Rightarrow> False
      | c # cs \<Rightarrow> c = CHR ''-'' \<and>
          (cs \<noteq> [] \<and> list_all is_digit_char cs \<or>
           (case split_first (CHR ''.'') cs of None \<Rightarrow> False
            | Some (a, b) \<Rightarrow> list_all is_digit_char a \<and> b \<noteq> [] \<and> list_all is_digit_char b)))"

definition is_value :: "string \<Rightarrow> bool" where
  "is_value s \<longleftrightarrow> s = [] \<or> hd s \<noteq> CHR ''-'' \<or> length s = 1 \<or> negative_number s \<or> CHR '' '' \<in> set s"

section \<open>The options of the benchmark\<close>

definition typed :: "'a option \<Rightarrow> ('a \<Rightarrow> bench_args) \<Rightarrow> py_exn + bench_args" where
  "typed v upd = (case v of None \<Rightarrow> Inl (ArgumentError ''invalid value'') | Some x \<Rightarrow> Inr (upd x))"

definition listed :: "py_exn + 'a list \<Rightarrow> ('a list \<Rightarrow> bench_args) \<Rightarrow> py_exn + bench_args" where
  "listed r upd = (case r of Inl e \<Rightarrow> Inl (ArgumentError ''invalid value'') | Inr xs \<Rightarrow> Inr (upd xs))"

definition choice_of :: "string list \<Rightarrow> string \<Rightarrow> string option" where
  "choice_of choices s = (if s \<in> set choices then Some s else None)"

text \<open>An option with its value.\<close>

definition value_options :: "(string \<times> (string \<Rightarrow> bench_args \<Rightarrow> py_exn + bench_args)) list" where
  "value_options =
     [(''--server'', \<lambda>v a. Inr (a\<lparr>arg_server := v\<rparr>)),
      (''--label'', \<lambda>v a. Inr (a\<lparr>arg_label := v\<rparr>)),
      (''--experiment'', \<lambda>v a. typed (choice_of [''sparse'', ''dense'', ''broadcast'', ''smoke''] v) (\<lambda>x. a\<lparr>arg_experiment := x\<rparr>)),
      (''--tiers'', \<lambda>v a. listed (csv_values py_int v) (\<lambda>x. a\<lparr>arg_tiers := x\<rparr>)),
      (''--active-connections'', \<lambda>v a. typed (py_int v) (\<lambda>x. a\<lparr>arg_active_connections := Some x\<rparr>)),
      (''--workloads'', \<lambda>v a. listed (csv_values Some v) (\<lambda>x. a\<lparr>arg_workloads := x\<rparr>)),
      (''--runs'', \<lambda>v a. typed (py_int v) (\<lambda>x. a\<lparr>arg_runs := x\<rparr>)),
      (''--trial-id'', \<lambda>v a. typed (py_int v) (\<lambda>x. a\<lparr>arg_trial_id := x\<rparr>)),
      (''--duration'', \<lambda>v a. typed (py_float_text v) (\<lambda>x. a\<lparr>arg_duration := x\<rparr>)),
      (''--warmup'', \<lambda>v a. typed (py_float_text v) (\<lambda>x. a\<lparr>arg_warmup := x\<rparr>)),
      (''--warmup-rate'', \<lambda>v a. typed (py_float_text v) (\<lambda>x. a\<lparr>arg_warmup_rate := Some x\<rparr>)),
      (''--drain'', \<lambda>v a. typed (py_float_text v) (\<lambda>x. a\<lparr>arg_drain := x\<rparr>)),
      (''--rate'', \<lambda>v a. typed (py_float_text v) (\<lambda>x. a\<lparr>arg_rate := x\<rparr>)),
      (''--payload-size'', \<lambda>v a. typed (py_int v) (\<lambda>x. a\<lparr>arg_payload_size := x\<rparr>)),
      (''--workers'', \<lambda>v a. typed (py_int v) (\<lambda>x. a\<lparr>arg_workers := x\<rparr>)),
      (''--server-cpu'', \<lambda>v a. typed (py_int v) (\<lambda>x. a\<lparr>arg_server_cpu := Some x\<rparr>)),
      (''--worker-cpus'', \<lambda>v a. listed (csv_values py_int v) (\<lambda>x. a\<lparr>arg_worker_cpus := x\<rparr>)),
      (''--max-overdue-sends'', \<lambda>v a. typed (py_int v) (\<lambda>x. a\<lparr>arg_max_overdue_sends := x\<rparr>)),
      (''--max-offer-lag-ms'', \<lambda>v a. typed (py_float_text v) (\<lambda>x. a\<lparr>arg_max_offer_lag_ms := x\<rparr>)),
      (''--max-recv-calls'', \<lambda>v a. typed (py_int v) (\<lambda>x. a\<lparr>arg_max_recv_calls := x\<rparr>)),
      (''--max-recv-bytes'', \<lambda>v a. typed (py_int v) (\<lambda>x. a\<lparr>arg_max_recv_bytes := x\<rparr>)),
      (''--min-delivery-ratio'', \<lambda>v a. typed (py_float_text v) (\<lambda>x. a\<lparr>arg_min_delivery_ratio := x\<rparr>)),
      (''--min-deadline-completion-ratio'', \<lambda>v a. typed (py_float_text v) (\<lambda>x. a\<lparr>arg_min_deadline_completion_ratio := x\<rparr>)),
      (''--max-missed-offer-ratio'', \<lambda>v a. typed (py_float_text v) (\<lambda>x. a\<lparr>arg_max_missed_offer_ratio := x\<rparr>)),
      (''--max-scheduler-lag-ms'', \<lambda>v a. typed (py_float_text v) (\<lambda>x. a\<lparr>arg_max_scheduler_lag_ms := x\<rparr>)),
      (''--max-latency-p99-ms'', \<lambda>v a. typed (py_float_text v) (\<lambda>x. a\<lparr>arg_max_latency_p99_ms := x\<rparr>)),
      (''--max-read-service-gap-ms'', \<lambda>v a. typed (py_float_text v) (\<lambda>x. a\<lparr>arg_max_read_service_gap_ms := x\<rparr>)),
      (''--profile'', \<lambda>v a. typed (choice_of [''none'', ''perf'', ''strace''] v) (\<lambda>x. a\<lparr>arg_profile := x\<rparr>)),
      (''--profile-output'', \<lambda>v a. Inr (a\<lparr>arg_profile_output := Some v\<rparr>)),
      (''--output'', \<lambda>v a. Inr (a\<lparr>arg_output := Some v\<rparr>))]"

definition flag_options :: "(string \<times> (bench_args \<Rightarrow> bench_args)) list" where
  "flag_options =
     [(''--allow-disconnects'', \<lambda>a. a\<lparr>arg_allow_disconnects := True\<rparr>),
      (''--allow-queue-overflow'', \<lambda>a. a\<lparr>arg_allow_queue_overflow := True\<rparr>)]"

fun parse_words :: "string list \<Rightarrow> bench_args \<Rightarrow> py_exn + bench_args" where
  "parse_words [] a = Inr a"
| "parse_words [w] a =
     (case map_of flag_options w of Some f \<Rightarrow> Inr (f a)
      | None \<Rightarrow> Inl (ArgumentError ''unrecognized or incomplete arguments''))"
| "parse_words (w # v # ws) a =
     (case map_of flag_options w of Some f \<Rightarrow> parse_words (v # ws) (f a)
      | None \<Rightarrow>
          (case map_of value_options w of
             None \<Rightarrow> Inl (ArgumentError ''unrecognized or incomplete arguments'')
           | Some f \<Rightarrow>
               if is_value v then seq (f v a) (parse_words ws)
               else Inl (ArgumentError ''expected one argument'')))"

text \<open>\<^verbatim>\<open>parser.parse_args\<close>: the defaults, the words, and the two required options.\<close>

definition parse_args :: "string list \<Rightarrow> py_exn + bench_args" where
  "parse_args ws =
     seq (parse_words ws default_args) (\<lambda>a.
       if ''--server'' \<in> set ws \<and> ''--label'' \<in> set ws then Inr a
       else Inl (ArgumentError ''the following arguments are required''))"

section \<open>The commands\<close>

text \<open>The server binaries below the root of the repository.\<close>

definition server_binary :: "string \<Rightarrow> string \<Rightarrow> string" where
  "server_binary home label = home @ (if label = ''poll'' then ''/poll(2)/server'' else ''/epoll/server'')"

definition benchmark_script :: "string \<Rightarrow> string" where
  "benchmark_script home = home @ ''/bench/benchmark.py''"

definition benchmark_options :: "string \<Rightarrow> sweep_args \<Rightarrow> group \<Rightarrow> pyfloat \<Rightarrow> string \<Rightarrow> string \<Rightarrow> int \<Rightarrow> string list" where
  "benchmark_options home a g rate label output trial =
     [''--server'', server_binary home label, ''--label'', label,
      ''--experiment'', g_experiment g, ''--tiers'', show_int (g_total g),
      ''--active-connections'', show_int (g_active g),
      ''--workloads'', g_workload g, ''--rate'', show_float rate, ''--runs'', ''1'',
      ''--trial-id'', show_int trial,
      ''--duration'', show_float (sa_duration a), ''--warmup'', show_float (sa_warmup a),
      ''--warmup-rate'', show_float (sa_warmup_rate a), ''--drain'', show_float (sa_drain a),
      ''--payload-size'', show_int (sa_payload_size a),
      ''--workers'', show_int (sa_workers a),
      ''--min-delivery-ratio'', show_float (sa_min_delivery_ratio a),
      ''--min-deadline-completion-ratio'', show_float (sa_min_deadline_completion_ratio a),
      ''--max-missed-offer-ratio'', show_float (sa_max_missed_offer_ratio a),
      ''--max-scheduler-lag-ms'', show_float (sa_max_scheduler_lag_ms a),
      ''--max-read-service-gap-ms'', show_float (sa_max_read_service_gap_ms a),
      ''--max-latency-p99-ms'', show_float (sa_max_latency_p99_ms a),
      ''--output'', output] @
     (case sa_server_cpu a of None \<Rightarrow> [] | Some c \<Rightarrow> [''--server-cpu'', show_int c]) @
     (if sa_worker_cpus a \<noteq> [] then [''--worker-cpus'', sa_worker_cpus a] else [])"

definition benchmark_command ::
  "string \<Rightarrow> string \<Rightarrow> sweep_args \<Rightarrow> group \<Rightarrow> pyfloat \<Rightarrow> string \<Rightarrow> string \<Rightarrow> int \<Rightarrow> string list" where
  "benchmark_command exe home a g rate label output trial =
     [exe, benchmark_script home] @ benchmark_options home a g rate label output trial"

section \<open>Reading the options back\<close>

text \<open>One option with an accepted value, and the rest of the words.\<close>

lemma option_steps:
  "is_value v \<Longrightarrow> parse_words (''--server'' # v # ws) a = parse_words ws (a\<lparr>arg_server := v\<rparr>)"
  "is_value v \<Longrightarrow> parse_words (''--label'' # v # ws) a = parse_words ws (a\<lparr>arg_label := v\<rparr>)"
  "is_value v \<Longrightarrow> choice_of [''sparse'', ''dense'', ''broadcast'', ''smoke''] v = Some s \<Longrightarrow> parse_words (''--experiment'' # v # ws) a = parse_words ws (a\<lparr>arg_experiment := s\<rparr>)"
  "is_value v \<Longrightarrow> csv_values py_int v = Inr ns \<Longrightarrow> parse_words (''--tiers'' # v # ws) a = parse_words ws (a\<lparr>arg_tiers := ns\<rparr>)"
  "is_value v \<Longrightarrow> py_int v = Some n \<Longrightarrow> parse_words (''--active-connections'' # v # ws) a = parse_words ws (a\<lparr>arg_active_connections := Some n\<rparr>)"
  "is_value v \<Longrightarrow> csv_values Some v = Inr ss \<Longrightarrow> parse_words (''--workloads'' # v # ws) a = parse_words ws (a\<lparr>arg_workloads := ss\<rparr>)"
  "is_value v \<Longrightarrow> py_float_text v = Some x \<Longrightarrow> parse_words (''--rate'' # v # ws) a = parse_words ws (a\<lparr>arg_rate := x\<rparr>)"
  "is_value v \<Longrightarrow> py_int v = Some n \<Longrightarrow> parse_words (''--runs'' # v # ws) a = parse_words ws (a\<lparr>arg_runs := n\<rparr>)"
  "is_value v \<Longrightarrow> py_int v = Some n \<Longrightarrow> parse_words (''--trial-id'' # v # ws) a = parse_words ws (a\<lparr>arg_trial_id := n\<rparr>)"
  "is_value v \<Longrightarrow> py_float_text v = Some x \<Longrightarrow> parse_words (''--duration'' # v # ws) a = parse_words ws (a\<lparr>arg_duration := x\<rparr>)"
  "is_value v \<Longrightarrow> py_float_text v = Some x \<Longrightarrow> parse_words (''--warmup'' # v # ws) a = parse_words ws (a\<lparr>arg_warmup := x\<rparr>)"
  "is_value v \<Longrightarrow> py_float_text v = Some x \<Longrightarrow> parse_words (''--warmup-rate'' # v # ws) a = parse_words ws (a\<lparr>arg_warmup_rate := Some x\<rparr>)"
  "is_value v \<Longrightarrow> py_float_text v = Some x \<Longrightarrow> parse_words (''--drain'' # v # ws) a = parse_words ws (a\<lparr>arg_drain := x\<rparr>)"
  "is_value v \<Longrightarrow> py_int v = Some n \<Longrightarrow> parse_words (''--payload-size'' # v # ws) a = parse_words ws (a\<lparr>arg_payload_size := n\<rparr>)"
  "is_value v \<Longrightarrow> py_int v = Some n \<Longrightarrow> parse_words (''--workers'' # v # ws) a = parse_words ws (a\<lparr>arg_workers := n\<rparr>)"
  "is_value v \<Longrightarrow> py_float_text v = Some x \<Longrightarrow> parse_words (''--min-delivery-ratio'' # v # ws) a = parse_words ws (a\<lparr>arg_min_delivery_ratio := x\<rparr>)"
  "is_value v \<Longrightarrow> py_float_text v = Some x \<Longrightarrow> parse_words (''--min-deadline-completion-ratio'' # v # ws) a = parse_words ws (a\<lparr>arg_min_deadline_completion_ratio := x\<rparr>)"
  "is_value v \<Longrightarrow> py_float_text v = Some x \<Longrightarrow> parse_words (''--max-missed-offer-ratio'' # v # ws) a = parse_words ws (a\<lparr>arg_max_missed_offer_ratio := x\<rparr>)"
  "is_value v \<Longrightarrow> py_float_text v = Some x \<Longrightarrow> parse_words (''--max-scheduler-lag-ms'' # v # ws) a = parse_words ws (a\<lparr>arg_max_scheduler_lag_ms := x\<rparr>)"
  "is_value v \<Longrightarrow> py_float_text v = Some x \<Longrightarrow> parse_words (''--max-read-service-gap-ms'' # v # ws) a = parse_words ws (a\<lparr>arg_max_read_service_gap_ms := x\<rparr>)"
  "is_value v \<Longrightarrow> py_float_text v = Some x \<Longrightarrow> parse_words (''--max-latency-p99-ms'' # v # ws) a = parse_words ws (a\<lparr>arg_max_latency_p99_ms := x\<rparr>)"
  "is_value v \<Longrightarrow> parse_words (''--output'' # v # ws) a = parse_words ws (a\<lparr>arg_output := Some v\<rparr>)"
  "is_value v \<Longrightarrow> py_int v = Some n \<Longrightarrow> parse_words (''--server-cpu'' # v # ws) a = parse_words ws (a\<lparr>arg_server_cpu := Some n\<rparr>)"
  "is_value v \<Longrightarrow> csv_values py_int v = Inr ns \<Longrightarrow> parse_words (''--worker-cpus'' # v # ws) a = parse_words ws (a\<lparr>arg_worker_cpus := ns\<rparr>)"
  "is_value v \<Longrightarrow> choice_of [''none'', ''perf'', ''strace''] v = Some s \<Longrightarrow> parse_words (''--profile'' # v # ws) a = parse_words ws (a\<lparr>arg_profile := s\<rparr>)"
  "is_value v \<Longrightarrow> parse_words (''--profile-output'' # v # ws) a = parse_words ws (a\<lparr>arg_profile_output := Some v\<rparr>)"
  by (simp_all add: flag_options_def value_options_def typed_def listed_def)

declare parse_words.simps(3) [simp del]

text \<open>Numbers whose text an option takes as its value: floats that are not negative and integers of an
  accepted length.\<close>

definition sendable_float :: "pyfloat \<Rightarrow> bool" where
  "sendable_float x \<longleftrightarrow> is_float x \<and> \<not> flt x (Fin 0)"

definition short_int :: "int \<Rightarrow> bool" where
  "short_int n \<longleftrightarrow> length (show_nat (nat \<bar>n\<bar>)) \<le> 4300"

lemma sendable_float_text:
  assumes "sendable_float x"
  shows "is_value (show_float x)" "py_float_text (show_float x) = Some x"
  using assms show_float_head[of x] float_text_roundtrip[of x] by (auto simp: sendable_float_def is_value_def)

lemma is_value_show_int: "is_value (show_int n)"
proof (cases "n < 0")
  case True
  have "list_all is_digit_char (show_nat k)" for k by (auto simp: list_all_iff dest: show_nat_digits)
  then show ?thesis using True by (simp add: is_value_def show_int_def negative_number_def)
next
  case False
  obtain d t where d: "show_nat (nat n) = d # t" by (cases "show_nat (nat n)") auto
  then have "is_digit_char d" using show_nat_digits[of d "nat n"] by simp
  then show ?thesis using False d by (auto simp: is_value_def show_int_def is_digit_char_def)
qed

lemma short_int_text:
  assumes "short_int n"
  shows "py_int (show_int n) = Some n" "csv_values py_int (show_int n) = Inr [n]"
proof -
  show n: "py_int (show_int n) = Some n" using assms by (simp add: short_int_def py_int_show_int)
  show "csv_values py_int (show_int n) = Inr [n]"
    using comma_values_join[of "[n]" show_int py_int] n plain_show_int by (simp add: csv_values_def)
qed

lemma word_values:
  "is_value ''direct''" "is_value ''broadcast''" "is_value ''sparse''" "is_value ''dense''" "is_value ''poll''" "is_value ''epoll''"
  "is_value ''1''" "is_value ''perf''" "is_value ''strace''" "py_int ''1'' = Some 1"
  "csv_values Some ''direct'' = Inr [''direct'']" "csv_values Some ''broadcast'' = Inr [''broadcast'']"
  by (simp_all add: is_value_def csv_values_def comma_values_def items_of_def str_strip_def is_str_space_def is_space_def
      py_int_def strip_def is_digit_char_def read_digits_def digit_val_def)

text \<open>The parameters of a sweep that reach the benchmark as they are.\<close>

definition sendable :: "sweep_args \<Rightarrow> bool" where
  "sendable a \<longleftrightarrow>
     list_all sendable_float [sa_duration a, sa_warmup a, sa_warmup_rate a, sa_drain a, sa_min_delivery_ratio a,
       sa_min_deadline_completion_ratio a, sa_max_missed_offer_ratio a, sa_max_scheduler_lag_ms a,
       sa_max_read_service_gap_ms a, sa_max_latency_p99_ms a] \<and>
     short_int (sa_payload_size a) \<and> short_int (sa_workers a) \<and>
     (\<forall>c. sa_server_cpu a = Some c \<longrightarrow> short_int c) \<and> is_value (sa_worker_cpus a)"

text \<open>What the benchmark is to run for a group, a rate and a label.\<close>

definition requested_args ::
  "string \<Rightarrow> sweep_args \<Rightarrow> group \<Rightarrow> pyfloat \<Rightarrow> string \<Rightarrow> string \<Rightarrow> int \<Rightarrow> int list \<Rightarrow> bench_args" where
  "requested_args home a g rate label output trial cpus =
     default_args\<lparr>arg_server := server_binary home label, arg_label := label, arg_experiment := g_experiment g,
       arg_tiers := [g_total g], arg_active_connections := Some (g_active g), arg_workloads := [g_workload g],
       arg_rate := rate, arg_runs := 1, arg_trial_id := trial, arg_duration := sa_duration a,
       arg_warmup := sa_warmup a, arg_warmup_rate := Some (sa_warmup_rate a), arg_drain := sa_drain a,
       arg_payload_size := sa_payload_size a, arg_workers := sa_workers a,
       arg_min_delivery_ratio := sa_min_delivery_ratio a,
       arg_min_deadline_completion_ratio := sa_min_deadline_completion_ratio a,
       arg_max_missed_offer_ratio := sa_max_missed_offer_ratio a,
       arg_max_scheduler_lag_ms := sa_max_scheduler_lag_ms a,
       arg_max_read_service_gap_ms := sa_max_read_service_gap_ms a,
       arg_max_latency_p99_ms := sa_max_latency_p99_ms a, arg_output := Some output,
       arg_server_cpu := sa_server_cpu a, arg_worker_cpus := cpus\<rparr>"

lemma parse_benchmark_options:
  assumes a: "sendable a" "sendable_float rate" "short_int trial"
    and g: "group_ok g" "short_int (g_total g)" "short_int (g_active g)"
    and paths: "label \<in> set SERVERS" "is_value (server_binary home label)" "is_value output"
    and cpus: "if sa_worker_cpus a = [] then cpus = [] else csv_values py_int (sa_worker_cpus a) = Inr cpus"
  shows "parse_words (benchmark_options home a g rate label output trial) default_args =
    Inr (requested_args home a g rate label output trial cpus)"
proof -
  have label: "is_value label" using paths(1) word_values by (auto simp: SERVERS_def)
  have w: "is_value (g_workload g)" "csv_values Some (g_workload g) = Inr [g_workload g]"
    using g(1) word_values by (auto simp: group_ok_def)
  have e: "is_value (g_experiment g)" "choice_of [''sparse'', ''dense'', ''broadcast'', ''smoke''] (g_experiment g) = Some (g_experiment g)"
    using g(1) word_values by (auto simp: group_ok_def choice_of_def)
  note floats = sendable_float_text[OF a(2)]
  have fl: "is_value (show_float x) \<and> py_float_text (show_float x) = Some x"
    if "x \<in> {sa_duration a, sa_warmup a, sa_warmup_rate a, sa_drain a, sa_min_delivery_ratio a,
       sa_min_deadline_completion_ratio a, sa_max_missed_offer_ratio a, sa_max_scheduler_lag_ms a,
       sa_max_read_service_gap_ms a, sa_max_latency_p99_ms a}" for x
    using a(1) that sendable_float_text by (auto simp: sendable_def)
  have fls: "is_value (show_float (f a))" "py_float_text (show_float (f a)) = Some (f a)"
    if "f \<in> {sa_duration, sa_warmup, sa_warmup_rate, sa_drain, sa_min_delivery_ratio,
       sa_min_deadline_completion_ratio, sa_max_missed_offer_ratio, sa_max_scheduler_lag_ms,
       sa_max_read_service_gap_ms, sa_max_latency_p99_ms}" for f
    using fl[of "f a"] that by auto
  have ints: "short_int (sa_payload_size a)" "short_int (sa_workers a)" "is_value (sa_worker_cpus a)"
    "\<And>c. sa_server_cpu a = Some c \<Longrightarrow> short_int c"
    using a(1) by (auto simp: sendable_def)
  have server_cpu: "parse_words ((case sa_server_cpu a of None \<Rightarrow> [] | Some c \<Rightarrow> [''--server-cpu'', show_int c]) @ ws) b =
      parse_words ws (b\<lparr>arg_server_cpu := sa_server_cpu a\<rparr>)" if "arg_server_cpu b = None" for ws b
    using ints(4) that by (cases b; cases "sa_server_cpu a") (simp_all add: option_steps short_int_text is_value_show_int)
  have worker_cpus: "parse_words (if sa_worker_cpus a \<noteq> [] then [''--worker-cpus'', sa_worker_cpus a] else []) b =
      Inr (b\<lparr>arg_worker_cpus := cpus\<rparr>)" if "arg_worker_cpus b = []" for b
    using cpus ints(3) that by (cases b) (simp add: option_steps split: if_splits)
  show ?thesis
    unfolding benchmark_options_def append.simps
    by (simp only: option_steps paths label w e floats fls ints short_int_text g is_value_show_int a(3) word_values insert_iff
        simp_thms)
       (simp add: server_cpu worker_cpus requested_args_def default_args_def)
qed

lemma one_trial:
  assumes "arg_tiers b = [t]" "arg_workloads b = [w]" "arg_active_connections b = Some n" "arg_runs b = 1"
    and "1 \<le> n" "n \<le> t" "w = ''broadcast'' \<longrightarrow> 2 \<le> t"
  shows "planned_trials b = ([(w, t, n, 1)], None)"
  using assms by (auto simp: planned_trials_def active_count_def)

lemma benchmark_options_required:
  "''--server'' \<in> set (benchmark_options home a g rate label output trial)"
  "''--label'' \<in> set (benchmark_options home a g rate label output trial)"
  by (simp_all add: benchmark_options_def)

text \<open>The benchmark that a sweep starts reads from its command line exactly the parameters the sweep
  has: every float and integer survives the text, unset ones keep their defaults, the options are
  accepted in that order. It then plans exactly the one trial that the sweep recorded, if the
  connection counts are possible.\<close>

theorem benchmark_command_parsed:
  assumes "sendable a" "sendable_float rate" "short_int trial"
    and "group_ok g" "short_int (g_total g)" "short_int (g_active g)"
    and "label \<in> set SERVERS" "is_value (server_binary home label)" "is_value output"
    and "if sa_worker_cpus a = [] then cpus = [] else csv_values py_int (sa_worker_cpus a) = Inr cpus"
    and "1 \<le> g_active g" "g_experiment g = ''broadcast'' \<longrightarrow> 2 \<le> g_total g"
  shows "\<exists>b. parse_args (drop 2 (benchmark_command exe home a g rate label output trial)) = Inr b \<and>
    b = requested_args home a g rate label output trial cpus \<and>
    planned_trials b = ([(g_workload g, g_total g, g_active g, 1)], None)"
proof -
  let ?b = "requested_args home a g rate label output trial cpus"
  have "parse_args (drop 2 (benchmark_command exe home a g rate label output trial)) = Inr ?b"
    using parse_benchmark_options[OF assms(1-10)] benchmark_options_required
    by (simp add: parse_args_def benchmark_command_def)
  moreover have "g_active g \<le> g_total g" "g_workload g = ''broadcast'' \<longrightarrow> 2 \<le> g_total g"
    using assms(4,12) by (auto simp: group_ok_def split: if_splits)
  then have "planned_trials ?b = ([(g_workload g, g_total g, g_active g, 1)], None)"
    using assms(11) by (intro one_trial) (simp_all add: requested_args_def)
  ultimately show ?thesis by blast
qed

lemma sendable_to_float: "0 \<le> x \<Longrightarrow> x \<le> 1 \<Longrightarrow> sendable_float (to_float x)"
proof -
  assume x: "0 \<le> x" "x \<le> 1"
  have "rnd64 x \<le> 1" "(1::rat) < 2 ^ 1024" using to_float_unit(3)[OF x] by simp_all
  then have "rnd64 x < 2 ^ 1024" by linarith
  then show ?thesis
    using to_float_unit(1,2)[OF x] representable_rnd64[of x] by (simp add: sendable_float_def is_float_def)
qed

lemma sendable_numeral: "numeral k \<le> (2 ^ 53 :: int) \<Longrightarrow> sendable_float (Fin (numeral k))" "sendable_float (Fin 1)"
proof -
  assume k: "numeral k \<le> (2 ^ 53 :: int)"
  have "(numeral k :: rat) = of_int (numeral k)" by simp
  also have "\<dots> \<le> of_int (2 ^ 53)" using k by (simp only: of_int_le_iff)
  also have "\<dots> < (2 ^ 1024 :: rat)" by simp
  finally show "sendable_float (Fin (numeral k))" using representable_numeral[OF k] by (simp add: sendable_float_def is_float_def)
qed (simp add: sendable_float_def is_float_def)

lemma short_small: "n < 10 \<Longrightarrow> 0 \<le> n \<Longrightarrow> short_int n"
  by (simp add: short_int_def show_nat.simps)

lemma small_sendable: "sendable small_sweep"
proof -
  have "short_int 128" using length_show_nat[of 128 3] by (simp add: short_int_def)
  then show ?thesis
    by (simp add: sendable_def small_sweep_def default_sweep_def sendable_to_float sendable_numeral short_small is_value_def)
qed

theorem benchmark_command_parsed_witness:
  "\<exists>b. parse_args (drop 2 (benchmark_command ''python'' ''/r'' small_sweep (small_groups ! 0) (Fin 1000) ''poll'' ''/o.csv'' 1)) = Inr b \<and>
    arg_rate b = Fin 1000 \<and> planned_trials b = ([(''direct'', 8, 2, 1)], None)"
proof -
  let ?g = "small_groups ! 0"
  have g: "group_ok ?g" "short_int (g_total ?g)" "short_int (g_active ?g)" "1 \<le> g_active ?g"
    "g_experiment ?g = ''broadcast'' \<longrightarrow> 2 \<le> g_total ?g" "g_workload ?g = ''direct''" "g_total ?g = 8" "g_active ?g = 2"
    by (simp_all add: small_groups_def group_ok_def short_small)
  have r: "sendable_float (Fin 1000)" by (rule sendable_numeral) simp
  have c: "if sa_worker_cpus small_sweep = [] then ([] :: int list) = [] else csv_values py_int (sa_worker_cpus small_sweep) = Inr []"
    by (simp add: small_sweep_def default_sweep_def)
  have p: "''poll'' \<in> set SERVERS" "is_value (server_binary ''/r'' ''poll'')" "is_value ''/o.csv''"
    by (simp_all add: SERVERS_def is_value_def server_binary_def)
  have t: "short_int 1" by (simp add: short_small)
  from benchmark_command_parsed[OF small_sendable r t g(1-3) p c g(4,5), of "''python''"] show ?thesis
    by (auto simp: g requested_args_def)
qed

end
