(* ===== verification/Diagnostics.thy ===== *)
theory Diagnostics
  imports Command_Line Trial_Result Shell_Words
begin

text \<open>
  Diagnostic runs: the events and the command of the profilers and their start
  (\<^verbatim>\<open>bench/benchmark.py\<close>), the lines of the server's log that report a disconnect, and the
  benchmark that \<^verbatim>\<open>bench/profile.py\<close> starts. Which tracepoint directories exist, whether the
  profiler is installed and how it fares are arguments, as is what the started benchmark returns.
\<close>

section \<open>Profilers\<close>

definition PERF_BASE_EVENTS :: "string list" where
  "PERF_BASE_EVENTS =
     [''task-clock'', ''cycles'', ''instructions'', ''context-switches'', ''cpu-migrations'',
      ''cache-references'', ''cache-misses'']"

definition SYSCALL_TRACEPOINTS :: "string list" where
  "SYSCALL_TRACEPOINTS =
     [''sys_enter_poll'', ''sys_enter_epoll_wait'', ''sys_enter_epoll_ctl'', ''sys_enter_sendto'',
      ''sys_enter_recvfrom'']"

definition TRACE_ROOTS :: "string list" where
  "TRACE_ROOTS = [''/sys/kernel/tracing/events/syscalls'', ''/sys/kernel/debug/tracing/events/syscalls'']"

text \<open>
  \<^verbatim>\<open>(root / name).is_dir()\<close>, with \<open>None\<close> for an \<^verbatim>\<open>OSError\<close>; it is not asked again once a root has
  the tracepoint.
\<close>

definition tracepoint_available :: "(string \<Rightarrow> string \<Rightarrow> bool option) \<Rightarrow> string list \<Rightarrow> string \<Rightarrow> bool" where
  "tracepoint_available is_dir roots name =
     fold (\<lambda>path available. if available then True else case is_dir path name of None \<Rightarrow> available | Some b \<Rightarrow> b)
       roots False"

definition available_perf_events :: "(string \<Rightarrow> string \<Rightarrow> bool option) \<Rightarrow> string list option \<Rightarrow> string list" where
  "available_perf_events is_dir trace_roots =
     (let roots = (case trace_roots of None \<Rightarrow> TRACE_ROOTS | Some rs \<Rightarrow> if rs = [] then TRACE_ROOTS else rs)
      in PERF_BASE_EVENTS @
         map (\<lambda>name. ''syscalls:'' @ name) (filter (tracepoint_available is_dir roots) SYSCALL_TRACEPOINTS))"

definition profiler_command ::
  "(string \<Rightarrow> string \<Rightarrow> bool option) \<Rightarrow> string \<Rightarrow> string \<Rightarrow> int \<Rightarrow> string list option \<Rightarrow> py_exn + string list" where
  "profiler_command is_dir mode output pid events =
     (if mode = ''perf'' then
        let chosen = (case events of None \<Rightarrow> available_perf_events is_dir None
                      | Some es \<Rightarrow> if es = [] then available_perf_events is_dir None else es)
        in Inr [''perf'', ''stat'', ''-x'', '','', ''-o'', output, ''-e'', join '','' chosen, ''-p'', show_int pid]
      else if mode = ''strace'' then Inr [''strace'', ''-f'', ''-c'', ''-o'', output, ''-p'', show_int pid]
      else Inl ValueError)"

text \<open>
  \<^verbatim>\<open>start_profiler\<close>: \<open>installed\<close> is what \<^verbatim>\<open>shutil.which\<close> finds, \<open>exited\<close> the exit code and the
  error output of a profiler that ended within the first tenth of a second.
\<close>

record profiler_start =
  pr_process :: bool
  pr_command :: "string list"
  pr_events :: "string list"
  pr_error :: string

definition start_profiler ::
  "(string \<Rightarrow> string \<Rightarrow> bool option) \<Rightarrow> bool \<Rightarrow> (int \<times> string) option \<Rightarrow> string \<Rightarrow> string \<Rightarrow> int \<Rightarrow> py_exn + profiler_start" where
  "start_profiler is_dir installed exited mode output pid =
     (let events = (if mode = ''perf'' then available_perf_events is_dir None else [])
      in seq (profiler_command is_dir mode output pid (Some events)) (\<lambda>command.
        if \<not> installed
        then Inr \<lparr> pr_process = False, pr_command = command, pr_events = events,
                   pr_error = mode @ '' is not installed'' \<rparr>
        else Inr \<lparr> pr_process = True, pr_command = command, pr_events = events,
                   pr_error = (case exited of None \<Rightarrow> []
                     | Some (code, err) \<Rightarrow> if str_strip err \<noteq> [] then str_strip err
                                           else mode @ '' exited with '' @ show_int code) \<rparr>))"

section \<open>The server's log\<close>

definition is_disconnect_log :: "string \<Rightarrow> bool" where
  "is_disconnect_log line \<longleftrightarrow>
     take (length ''disconnect '') line = ''disconnect '' \<or> find_sub '' event=client.disconnected '' line \<noteq> None"

definition disconnect_reasons :: "string list \<Rightarrow> string list" where
  "disconnect_reasons lines = map str_strip (filter is_disconnect_log lines)"

section \<open>The diagnostic benchmark\<close>

text \<open>The parsed command line of \<^verbatim>\<open>bench/profile.py\<close>; the default of \<^verbatim>\<open>--workers\<close> is that of four or more CPUs.\<close>

record profile_args =
  pa_mode :: string
  pa_implementation :: string
  pa_total_connections :: int
  pa_active_connections :: int
  pa_rate :: pyfloat
  pa_duration :: pyfloat
  pa_warmup :: pyfloat
  pa_workers :: int
  pa_server_cpu :: "int option"
  pa_worker_cpus :: string

definition default_profile :: profile_args where
  "default_profile =
     \<lparr> pa_mode = ''perf'', pa_implementation = ''epoll'', pa_total_connections = 100, pa_active_connections = 100,
       pa_rate = Fin 5000, pa_duration = Fin 2, pa_warmup = to_float (1 / 2), pa_workers = 4,
       pa_server_cpu = None, pa_worker_cpus = [] \<rparr>"

definition profile_directory_name :: "profile_args \<Rightarrow> string" where
  "profile_directory_name a = ''diagnostic-'' @ pa_mode a @ ''-'' @ pa_implementation a"

definition profile_options :: "string \<Rightarrow> profile_args \<Rightarrow> string \<Rightarrow> string list" where
  "profile_options home a directory =
     [''--server'', server_binary home (pa_implementation a), ''--label'', pa_implementation a,
      ''--experiment'', ''dense'', ''--tiers'', show_int (pa_total_connections a),
      ''--active-connections'', show_int (pa_active_connections a), ''--workloads'', ''direct'',
      ''--rate'', show_float (pa_rate a), ''--runs'', ''1'', ''--duration'', show_float (pa_duration a),
      ''--warmup'', show_float (pa_warmup a), ''--drain'', ''1'', ''--workers'', show_int (pa_workers a),
      ''--profile'', pa_mode a, ''--profile-output'', directory @ ''/'' @ pa_mode a @ ''-server.txt'',
      ''--output'', directory @ ''/results.csv''] @
     (case pa_server_cpu a of None \<Rightarrow> [] | Some c \<Rightarrow> [''--server-cpu'', show_int c]) @
     (if pa_worker_cpus a \<noteq> [] then [''--worker-cpus'', pa_worker_cpus a] else [])"

definition profile_command :: "string \<Rightarrow> string \<Rightarrow> profile_args \<Rightarrow> string \<Rightarrow> string list" where
  "profile_command exe home a directory = [exe, benchmark_script home] @ profile_options home a directory"

text \<open>
  The run itself: what it records, prints and exits with. \<open>dh_runner\<close>: the exit code of a started
  benchmark. \<open>dh_paranoid\<close>: the text of the kernel's setting, \<open>None\<close> if it cannot be read. The other
  fields are what the operating system and git answer.
\<close>

record diagnostic_host =
  dh_exe :: string
  dh_home :: string
  dh_created_utc :: string
  dh_timestamp :: string
  dh_sha :: string
  dh_dirty_status :: string
  dh_kernel :: string
  dh_paranoid :: "string option"
  dh_existing :: "string set"
  dh_runner :: "string list \<Rightarrow> int"

record diagnostic_run =
  dr_created_utc :: string
  dr_git_sha :: string
  dr_git_dirty :: bool
  dr_kernel :: string
  dr_mode :: string
  dr_server :: string
  dr_command :: string
  dr_latency_claims_allowed :: bool
  dr_returncode :: int
  dr_perf_event_paranoid :: string
  dr_printed :: string
  dr_exit_code :: int

definition profile_main :: "nat \<Rightarrow> diagnostic_host \<Rightarrow> string \<Rightarrow> profile_args \<Rightarrow> diagnostic_run option" where
  "profile_main fuel h result_root a =
     map_option (\<lambda>(directory, existing).
       let command = profile_command (dh_exe h) (dh_home h) a directory
       in \<lparr> dr_created_utc = dh_created_utc h, dr_git_sha = dh_sha h, dr_git_dirty = (dh_dirty_status h \<noteq> []),
            dr_kernel = dh_kernel h, dr_mode = pa_mode a, dr_server = server_binary (dh_home h) (pa_implementation a),
            dr_command = shlex_join command, dr_latency_claims_allowed = False, dr_returncode = dh_runner h command,
            dr_perf_event_paranoid = (case dh_paranoid h of None \<Rightarrow> ''unavailable'' | Some text \<Rightarrow> str_strip text),
            dr_printed = ''diagnostic_results='' @ directory, dr_exit_code = dh_runner h command \<rparr>)
       (new_result_directory fuel result_root (dh_timestamp h) (profile_directory_name a) (take 7 (dh_sha h)) (dh_existing h))"

section \<open>Events\<close>

lemma tracepoint_available_iff:
  "tracepoint_available is_dir roots name \<longleftrightarrow> (\<exists>path\<in>set roots. is_dir path name = Some True)"
proof -
  have "fold (\<lambda>path available. if available then True else case is_dir path name of None \<Rightarrow> available | Some b \<Rightarrow> b) roots b
      \<longleftrightarrow> b \<or> (\<exists>path\<in>set roots. is_dir path name = Some True)" for b
    by (induction roots arbitrary: b) (auto split: option.splits)
  then show ?thesis by (simp add: tracepoint_available_def)
qed

text \<open>The events that \<^verbatim>\<open>perf\<close> is asked to count: always the base events, and of the five tracepoints
  exactly those that some readable root has, each once and in order; that one root cannot be read hides
  no tracepoint of another.\<close>

theorem available_perf_events_correct:
  assumes "roots \<noteq> []"
  shows "(\<forall>e. e \<in> set (available_perf_events is_dir (Some roots)) \<longleftrightarrow>
      e \<in> set PERF_BASE_EVENTS \<or>
      (\<exists>name\<in>set SYSCALL_TRACEPOINTS. e = ''syscalls:'' @ name \<and> (\<exists>path\<in>set roots. is_dir path name = Some True))) \<and>
    distinct (available_perf_events is_dir (Some roots))"
proof -
  have "distinct (PERF_BASE_EVENTS @ map (\<lambda>name. ''syscalls:'' @ name) SYSCALL_TRACEPOINTS)"
    by (simp add: PERF_BASE_EVENTS_def SYSCALL_TRACEPOINTS_def)
  then have "distinct (available_perf_events is_dir (Some roots))"
    using assms by (auto simp: available_perf_events_def distinct_map inj_on_def)
  then show ?thesis using assms by (auto simp: available_perf_events_def tracepoint_available_iff)
qed

theorem available_perf_events_correct_witness:
  "''syscalls:sys_enter_poll'' \<in> set (available_perf_events
     (\<lambda>path name. if path = ''a'' then None else Some (name = ''sys_enter_poll'')) (Some [''a'', ''b'']))"
  using available_perf_events_correct[of "[''a'', ''b'']" "\<lambda>path name. if path = ''a'' then None else Some (name = ''sys_enter_poll'')"]
  by (simp add: SYSCALL_TRACEPOINTS_def)

section \<open>A diagnostic run is never a headline\<close>

lemma diagnostic_row_invalid:
  assumes "result_row a workload conns active run oc = Inr r" "arg_profile a \<noteq> ''none''"
  shows "\<not> tr_valid r"
proof -
  obtain row valid why where m: "measured_row a workload conns active run oc = Inr row"
    and c: "classify_result (verdict_of row) a = Inr (valid, why)"
    and r: "r = row\<lparr>tr_valid := valid, tr_invalid_reasons := why\<rparr>"
    using assms(1) by (rule result_rowE)
  have "v_diagnostic_mode (verdict_of row) = Some (arg_profile a)"
    using m unfolding measured_row_def Let_def seq_Inr_iff by (elim exE conjE) (drule Inr_inject, hypsubst, simp add: verdict_of_def)
  then have "reasons_of a (verdict_of row) \<noteq> Inr []" using assms(2) by (simp add: reasons_of_empty get_default_def)
  then show ?thesis using c r by (auto simp: classify_result_def exn_simps)
qed

definition diagnostic_args :: "string \<Rightarrow> profile_args \<Rightarrow> string \<Rightarrow> int list \<Rightarrow> bench_args" where
  "diagnostic_args home a directory cpus =
     default_args\<lparr>arg_server := server_binary home (pa_implementation a), arg_label := pa_implementation a,
       arg_experiment := ''dense'', arg_tiers := [pa_total_connections a],
       arg_active_connections := Some (pa_active_connections a), arg_workloads := [''direct''],
       arg_rate := pa_rate a, arg_runs := 1, arg_duration := pa_duration a, arg_warmup := pa_warmup a,
       arg_drain := Fin 1, arg_workers := pa_workers a, arg_profile := pa_mode a,
       arg_profile_output := Some (directory @ ''/'' @ pa_mode a @ ''-server.txt''),
       arg_output := Some (directory @ ''/results.csv''),
       arg_server_cpu := pa_server_cpu a, arg_worker_cpus := cpus\<rparr>"

text \<open>The command of a diagnostic run is read back as its parameters.\<close>

lemma profile_command_parsed:
  assumes "pa_mode a \<in> {''perf'', ''strace''}" "pa_implementation a \<in> set SERVERS"
    and "sendable_float (pa_rate a)" "sendable_float (pa_duration a)" "sendable_float (pa_warmup a)"
    and "short_int (pa_total_connections a)" "short_int (pa_active_connections a)" "short_int (pa_workers a)"
    and "\<forall>c. pa_server_cpu a = Some c \<longrightarrow> short_int c" "is_value (pa_worker_cpus a)"
    and "if pa_worker_cpus a = [] then cpus = [] else csv_values py_int (pa_worker_cpus a) = Inr cpus"
  shows "parse_args (drop 2 (profile_command exe (CHR ''/'' # home) a (CHR ''/'' # directory))) =
      Inr (diagnostic_args (CHR ''/'' # home) a (CHR ''/'' # directory) cpus)"
proof -
  let ?b = "diagnostic_args (CHR ''/'' # home) a (CHR ''/'' # directory) cpus"
  have path: "is_value (CHR ''/'' # s)" for s by (simp add: is_value_def)
  have impl: "is_value (pa_implementation a)" using assms(2) word_values by (auto simp: SERVERS_def)
  have mode: "is_value (pa_mode a)" "choice_of [''none'', ''perf'', ''strace''] (pa_mode a) = Some (pa_mode a)"
    using assms(1) word_values by (auto simp: choice_of_def)
  have dense: "choice_of [''sparse'', ''dense'', ''broadcast'', ''smoke''] ''dense'' = Some ''dense''" by (simp add: choice_of_def)
  have one: "py_float_text ''1'' = Some (Fin 1)" using digit_float[of "CHR ''1''"] by (simp add: is_digit_char_def digit_val_def float_simps)
  have server: "is_value (server_binary (CHR ''/'' # home) (pa_implementation a))" by (simp add: server_binary_def path)
  have server_cpu: "parse_words ((case pa_server_cpu a of None \<Rightarrow> [] | Some c \<Rightarrow> [''--server-cpu'', show_int c]) @ ws) b =
      parse_words ws (b\<lparr>arg_server_cpu := pa_server_cpu a\<rparr>)" if "arg_server_cpu b = None" for ws b
    using assms(9) that by (cases b; cases "pa_server_cpu a") (simp_all add: option_steps short_int_text is_value_show_int)
  have worker_cpus: "parse_words (if pa_worker_cpus a \<noteq> [] then [''--worker-cpus'', pa_worker_cpus a] else []) b =
      Inr (b\<lparr>arg_worker_cpus := cpus\<rparr>)" if "arg_worker_cpus b = []" for b
    using assms(10,11) that by (cases b) (simp add: option_steps split: if_splits)
  have "parse_words (profile_options (CHR ''/'' # home) a (CHR ''/'' # directory)) default_args = Inr ?b"
    unfolding profile_options_def append.simps
    by (simp only: option_steps path impl mode dense one server word_values assms(3-8) sendable_float_text
        short_int_text is_value_show_int)
      (simp add: server_cpu worker_cpus diagnostic_args_def default_args_def)
  then show "parse_args (drop 2 (profile_command exe (CHR ''/'' # home) a (CHR ''/'' # directory))) = Inr ?b"
    by (simp add: parse_args_def profile_command_def) (simp add: profile_options_def)
qed

text \<open>C32: \<^verbatim>\<open>bench/profile.py\<close> starts, in a new directory, exactly one trial, with the parameters it was given and
  the profiler it was asked for: that is what the command line in its record asks for, read by a shell and by
  the benchmark's parser. And whatever that trial measures, its row is classified as invalid, so that a
  diagnostic run never counts as a result.\<close>

theorem profile_run_is_diagnostic:
  assumes "pa_mode a \<in> {''perf'', ''strace''}" "pa_implementation a \<in> set SERVERS"
    and "sendable_float (pa_rate a)" "sendable_float (pa_duration a)" "sendable_float (pa_warmup a)"
    and "short_int (pa_total_connections a)" "short_int (pa_active_connections a)" "short_int (pa_workers a)"
    and "\<forall>c. pa_server_cpu a = Some c \<longrightarrow> short_int c" "is_value (pa_worker_cpus a)"
    and "if pa_worker_cpus a = [] then cpus = [] else csv_values py_int (pa_worker_cpus a) = Inr cpus"
    and "1 \<le> pa_active_connections a" "pa_active_connections a \<le> pa_total_connections a"
    and "finite (dh_existing h)" "card (dh_existing h) + 2 \<le> fuel" "dh_home h = CHR ''/'' # home"
  shows "\<exists>run directory words. profile_main fuel h (CHR ''/'' # result_root) a = Some run \<and> directory \<notin> dh_existing h \<and>
    dr_printed run = ''diagnostic_results='' @ directory \<and> shell_split (dr_command run) = Some words \<and>
    dr_exit_code run = dh_runner h words \<and>
    parse_args (drop 2 words) = Inr (diagnostic_args (dh_home h) a directory cpus) \<and>
    planned_trials (diagnostic_args (dh_home h) a directory cpus) =
      ([(''direct'', pa_total_connections a, pa_active_connections a, 1)], None) \<and>
    (\<forall>workload conns active run oc r.
       result_row (diagnostic_args (dh_home h) a directory cpus) workload conns active run oc = Inr r \<longrightarrow> \<not> tr_valid r)"
proof -
  let ?base = "result_base (CHR ''/'' # result_root) (dh_timestamp h) (profile_directory_name a) (take 7 (dh_sha h))"
  obtain tail where d: "new_result_directory fuel (CHR ''/'' # result_root) (dh_timestamp h) (profile_directory_name a)
      (take 7 (dh_sha h)) (dh_existing h) = Some (?base @ tail, insert (?base @ tail) (dh_existing h))"
    "?base @ tail \<notin> dh_existing h"
    using new_directory[OF assms(14,15)] .
  obtain directory where dir: "?base @ tail = CHR ''/'' # directory" by (simp add: result_base_def)
  let ?words = "profile_command (dh_exe h) (dh_home h) a (CHR ''/'' # directory)"
  let ?b = "diagnostic_args (dh_home h) a (CHR ''/'' # directory) cpus"
  obtain run where run: "profile_main fuel h (CHR ''/'' # result_root) a = Some run" "dr_command run = shlex_join ?words"
    "dr_printed run = ''diagnostic_results='' @ CHR ''/'' # directory" "dr_exit_code run = dh_runner h ?words"
    using d(1) by (simp add: profile_main_def Let_def dir)
  have "planned_trials ?b = ([(''direct'', pa_total_connections a, pa_active_connections a, 1)], None)"
    by (rule one_trial) (use assms(12,13) in \<open>simp_all add: diagnostic_args_def\<close>)
  moreover have "\<not> tr_valid r" if "result_row ?b workload conns active run oc = Inr r" for workload conns active run oc r
    using that assms(1) by (intro diagnostic_row_invalid[OF that]) (auto simp: diagnostic_args_def)
  ultimately show ?thesis
    using run d(2)[unfolded dir] profile_command_parsed[OF assms(1-11)] shlex_join_roundtrip[of ?words] assms(16)
    by (intro exI[of _ run] exI[of _ "CHR ''/'' # directory"] exI[of _ ?words]) auto
qed

definition some_host :: diagnostic_host where
  "some_host =
     \<lparr> dh_exe = ''python3'', dh_home = ''/r'', dh_created_utc = ''t'', dh_timestamp = ''t'', dh_sha = ''0123456789'',
       dh_dirty_status = [], dh_kernel = ''6.1'', dh_paranoid = None, dh_existing = {}, dh_runner = (\<lambda>words. 0) \<rparr>"

theorem profile_run_is_diagnostic_witness:
  "\<exists>run directory words. profile_main 2 some_host ''/o'' default_profile = Some run \<and> shell_split (dr_command run) = Some words \<and>
    parse_args (drop 2 words) = Inr (diagnostic_args ''/r'' default_profile directory []) \<and>
    planned_trials (diagnostic_args ''/r'' default_profile directory []) = ([(''direct'', 100, 100, 1)], None)"
proof -
  have s: "short_int 100" "short_int 4" using length_show_nat[of 100 3] short_small[of 4] by (simp_all add: short_int_def)
  have h: "dh_existing some_host = {}" "dh_home some_host = ''/r''" by (simp_all add: some_host_def)
  have p: "pa_total_connections default_profile = 100" "pa_active_connections default_profile = 100"
    by (simp_all add: default_profile_def)
  have "\<exists>run directory words. profile_main 2 some_host (CHR ''/'' # ''o'') default_profile = Some run \<and>
    directory \<notin> dh_existing some_host \<and>
    dr_printed run = ''diagnostic_results='' @ directory \<and> shell_split (dr_command run) = Some words \<and>
    dr_exit_code run = dh_runner some_host words \<and>
    parse_args (drop 2 words) = Inr (diagnostic_args (dh_home some_host) default_profile directory []) \<and>
    planned_trials (diagnostic_args (dh_home some_host) default_profile directory []) =
      ([(''direct'', pa_total_connections default_profile, pa_active_connections default_profile, 1)], None) \<and>
    (\<forall>workload conns active run oc r.
       result_row (diagnostic_args (dh_home some_host) default_profile directory []) workload conns active run oc = Inr r \<longrightarrow> \<not> tr_valid r)"
    by (rule profile_run_is_diagnostic[of _ _ _ _ "''r''"])
      (use s in \<open>simp_all add: h default_profile_def SERVERS_def sendable_numeral sendable_to_float is_value_def\<close>)
  then show ?thesis unfolding h(2) p by blast
qed

end
