(* ===== verification/Trial_Run.thy ===== *)
theory Trial_Run
  imports Worker_Main Diagnostics
begin

text \<open>
  One trial as the parent process runs it (\<^verbatim>\<open>run_trial\<close> of \<^verbatim>\<open>bench/benchmark.py\<close>): the messages
  received from the workers, the commands sent to them, the warm-up, the measured phase, and what is
  left when an exception ends the trial early. The surroundings are the record \<open>surroundings\<close>, whose
  entries are indexed by the number of observations made before; a pipe is the list of what its
  worker will send, and the commands that each worker gets are recorded in the order of sending.
  Starting and ending the processes, and deleting the temporary files, are left out.
\<close>

section \<open>Receiving from the workers\<close>

text \<open>
  \<open>Arrives d m\<close>: the message \<open>m\<close> arrives \<open>d\<close> seconds after the parent starts to wait for it.
  \<open>Hangup\<close>: the worker is gone. An empty list is a worker that stays silent.
\<close>

datatype pipe_event = Arrives pyfloat message | Hangup

type_synonym pipe = "pipe_event list"

fun kind_of :: "message \<Rightarrow> string" where
  "kind_of (Connected wid applied cpu) = ''connected''"
| "kind_of (Ready wid) = ''ready''"
| "kind_of (Result st) = ''result''"
| "kind_of (Failed wid err) = ''error''"

fun poll_pipe :: "pyfloat \<Rightarrow> pipe \<Rightarrow> bool" where
  "poll_pipe remaining [] = False"
| "poll_pipe remaining (Hangup # p) = True"
| "poll_pipe remaining (Arrives d m # p) = fle d remaining"

fun recv_pipe :: "pipe \<Rightarrow> py_exn + message \<times> pipe" where
  "recv_pipe (Arrives d m # p) = Inr (m, p)"
| "recv_pipe p = Inl EOFError"

definition check_message :: "string \<Rightarrow> message \<Rightarrow> py_exn + message" where
  "check_message expected m =
     (case m of
        Failed wid err \<Rightarrow> Inl (RuntimeError (''worker '' @ show_int wid @ '': '' @ err))
      | _ \<Rightarrow> if kind_of m \<noteq> expected
             then Inl (RuntimeError (''expected '' @ expected @ '', received '' @ kind_of m)) else Inr m)"

fun receive_messages ::
  "(nat \<Rightarrow> pyfloat) \<Rightarrow> pyfloat \<Rightarrow> string \<Rightarrow> nat \<times> pipe list \<Rightarrow> py_exn + message list \<times> nat \<times> pipe list" where
  "receive_messages clock deadline expected (tick, []) = Inr ([], tick, [])"
| "receive_messages clock deadline expected (tick, p # pipes) =
     (let remaining = fsub deadline (clock tick)
      in if fle remaining (Fin 0) \<or> \<not> poll_pipe remaining p
         then Inl (RuntimeError (''worker timed out waiting for '' @ expected))
         else
           seq (recv_pipe p) (\<lambda>(m, p').
           seq (check_message expected m) (\<lambda>m.
           seq (receive_messages clock deadline expected (Suc tick, pipes)) (\<lambda>(ms, tick', pipes').
             Inr (m # ms, tick', p' # pipes')))))"

definition receive_worker_messages ::
  "(nat \<Rightarrow> pyfloat) \<Rightarrow> string \<Rightarrow> pyfloat \<Rightarrow> nat \<times> pipe list \<Rightarrow> py_exn + message list \<times> nat \<times> pipe list" where
  "receive_worker_messages clock expected timeout s =
     receive_messages clock (fadd (clock (fst s)) timeout) expected (Suc (fst s), snd s)"

section \<open>The surroundings and the state of a trial\<close>

text \<open>
  \<open>writable\<close>: can a command be sent to the worker with this number? \<open>running\<close>: the server has not exited.
  \<open>cpu_seconds\<close>: what \<^verbatim>\<open>server_cpu_seconds\<close> reads. \<open>metrics_file\<close>: the lines of the server's metrics
  file, decoded, \<open>None\<close> being a line that is not JSON. The rest is about the profiler:
  \<open>profiler_alive\<close> says whether it still runs when the trial looks at it.
\<close>

record surroundings =
  clock_s :: "nat \<Rightarrow> pyfloat"
  clock_ns :: "nat \<Rightarrow> int"
  writable :: "nat \<Rightarrow> nat \<Rightarrow> bool"
  running :: "nat \<Rightarrow> bool"
  cpu_seconds :: "nat \<Rightarrow> pyfloat option"
  metrics_file :: "nat \<Rightarrow> (string \<rightharpoonup> int) option list"
  trace_dir :: "string \<Rightarrow> string \<Rightarrow> bool option"
  profiler_installed :: bool
  profiler_exited :: "(int \<times> string) option"
  profiler_alive :: bool
  server_pid :: int
  error_text :: "py_exn \<Rightarrow> string"
  sum_floats :: "pyfloat list \<Rightarrow> pyfloat"

record trial =
  t_tick :: nat
  t_pipes :: "pipe list"
  t_sent :: "command list list"
  t_state :: state_dict
  t_worker_setup :: "bool list"
  t_cpu_start :: "pyfloat option"
  t_cpu_end :: "pyfloat option"
  t_server_metrics :: "(string \<rightharpoonup> int) option"
  t_server_crashed :: bool
  t_profile_command :: "string list"
  t_profile_events :: "string list"
  t_profile_error :: string
  t_profile_started :: bool

definition start_trial :: "pipe list \<Rightarrow> trial" where
  "start_trial pipes =
     \<lparr> t_tick = 0, t_pipes = pipes, t_sent = map (\<lambda>p. []) pipes, t_state = dict_of (empty_state 0), t_worker_setup = [],
       t_cpu_start = None, t_cpu_end = None, t_server_metrics = None, t_server_crashed = False,
       t_profile_command = [], t_profile_events = [], t_profile_error = [], t_profile_started = False \<rparr>"

text \<open>
  A statement of the \<^verbatim>\<open>try\<close> block: the trial afterwards, and the exception if it raised one. What was
  assigned before an exception stays assigned.
\<close>

type_synonym stage = "trial \<Rightarrow> (trial \<times> py_exn option) option"

definition after :: "stage \<Rightarrow> stage \<Rightarrow> stage" where
  "after f g t = (case f t of None \<Rightarrow> None | Some (t', Some e) \<Rightarrow> Some (t', Some e) | Some (t', None) \<Rightarrow> g t')"

definition stage_of :: "(trial \<Rightarrow> py_exn + trial) \<Rightarrow> stage" where
  "stage_of f t = Some (case f t of Inl e \<Rightarrow> (t, Some e) | Inr t' \<Rightarrow> (t', None))"

definition assign :: "(trial \<Rightarrow> trial) \<Rightarrow> stage" where
  "assign f t = Some (f t, None)"

section \<open>The stages of a trial\<close>

text \<open>The loop that sends a command to one worker after the other; workers before a broken pipe got it.\<close>

fun send_each :: "(nat \<Rightarrow> bool) \<Rightarrow> nat \<Rightarrow> command \<Rightarrow> command list list \<Rightarrow> command list list \<times> bool" where
  "send_each ok wid command [] = ([], True)"
| "send_each ok wid command (sent # rest) =
     (if ok wid
      then let (rest', all_sent) = send_each ok (Suc wid) command rest in ((sent @ [command]) # rest', all_sent)
      else (sent # rest, False))"

definition send_all_workers :: "surroundings \<Rightarrow> command \<Rightarrow> stage" where
  "send_all_workers su command t =
     (case send_each (writable su (t_tick t)) 0 command (t_sent t) of
        (sent, all_sent) \<Rightarrow>
          Some (t\<lparr>t_tick := Suc (t_tick t), t_sent := sent\<rparr>, if all_sent then None else Some OSError))"

definition receive_all :: "surroundings \<Rightarrow> string \<Rightarrow> pyfloat \<Rightarrow> (message list \<Rightarrow> trial \<Rightarrow> py_exn + trial) \<Rightarrow> trial \<Rightarrow> py_exn + trial" where
  "receive_all su expected timeout k t =
     seq (receive_worker_messages (clock_s su) expected timeout (t_tick t, t_pipes t)) (\<lambda>(ms, tick, pipes).
       k ms (t\<lparr>t_tick := tick, t_pipes := pipes\<rparr>))"

definition states_of :: "message list \<Rightarrow> state_dict list" where
  "states_of ms = List.map_filter (\<lambda>m. case m of Result st \<Rightarrow> Some (dict_of st) | _ \<Rightarrow> None) ms"

definition affinities :: "message list \<Rightarrow> bool list" where
  "affinities ms = List.map_filter (\<lambda>m. case m of Connected wid applied cpu \<Rightarrow> Some applied | _ \<Rightarrow> None) ms"

text \<open>Connecting and settling the workers.\<close>

definition setup_workers :: "surroundings \<Rightarrow> int \<Rightarrow> stage" where
  "setup_workers su total_connections =
     after (stage_of (\<lambda>t. seq (int_div total_connections 100) (\<lambda>q.
       receive_all su ''connected'' (py_max (Fin 20) q) (\<lambda>ms t. Inr (t\<lparr>t_worker_setup := affinities ms\<rparr>)) t)))
     (after (send_all_workers su SetupComplete)
       (stage_of (receive_all su ''ready'' (Fin 10) (\<lambda>ms t. Inr t))))"

text \<open>\<^verbatim>\<open>run_worker_phase\<close>, with what is done with the states.\<close>

definition run_worker_phase :: "surroundings \<Rightarrow> phase \<Rightarrow> (state_dict list \<Rightarrow> trial \<Rightarrow> py_exn + trial) \<Rightarrow> stage" where
  "run_worker_phase su ph k =
     after (send_all_workers su (RunPhase ph))
       (stage_of (receive_all su ''result'' (fadd (fadd (fadd START_DELAY_S (ph_duration ph)) (ph_drain ph)) (Fin 10))
         (\<lambda>ms. k (states_of ms))))"

definition check_warmup :: "surroundings \<Rightarrow> state_dict list \<Rightarrow> trial \<Rightarrow> py_exn + trial" where
  "check_warmup su states t =
     (let st = merge_states (sum_floats su) states; gone = the (d_sets st ''disconnects''); errors = counter st ''send_errors''
      in if gone \<noteq> {} \<or> errors \<noteq> 0
         then Inl (RuntimeError (''client failure during warmup: disconnects='' @ show_indices gone @
                '' send_errors='' @ show_int errors))
         else Inr t)"

definition with_phase ::
  "surroundings \<Rightarrow> bench_args \<Rightarrow> string \<Rightarrow> int \<Rightarrow> int \<Rightarrow> pyfloat \<Rightarrow> string \<Rightarrow> (phase \<Rightarrow> stage) \<Rightarrow> stage" where
  "with_phase su a workload total_connections active_connections duration token k t =
     (case phase_config a workload total_connections active_connections duration token (clock_ns su (t_tick t)) of
        Inl e \<Rightarrow> Some (t\<lparr>t_tick := Suc (t_tick t)\<rparr>, Some e)
      | Inr ph \<Rightarrow> k ph (t\<lparr>t_tick := Suc (t_tick t)\<rparr>))"

definition warm_up :: "surroundings \<Rightarrow> bench_args \<Rightarrow> string \<Rightarrow> int \<Rightarrow> int \<Rightarrow> int \<Rightarrow> stage" where
  "warm_up su a workload total_connections active_connections run t =
     (if arg_warmup a = Fin 0 then Some (t, None)
      else
        with_phase su a workload total_connections active_connections (arg_warmup a) (''warmup-'' @ show_int run)
          (\<lambda>ph. run_worker_phase su (ph\<lparr>ph_rate := configured_warmup_rate a\<rparr>) (check_warmup su)) t)"

definition launch_profiler :: "surroundings \<Rightarrow> bench_args \<Rightarrow> trial \<Rightarrow> py_exn + trial" where
  "launch_profiler su a t =
     (if arg_profile a = ''none'' then Inr t
      else
        seq (start_profiler (trace_dir su) (profiler_installed su) (profiler_exited su) (arg_profile a)
               (get_default [] (arg_profile_output a)) (server_pid su)) (\<lambda>p.
          Inr (t\<lparr>t_profile_command := pr_command p, t_profile_events := pr_events p, t_profile_error := pr_error p,
                 t_profile_started := (pr_process p \<and> profiler_alive su)\<rparr>)))"

text \<open>\<^verbatim>\<open>wait_for_metrics\<close>: the records once the file has enough lines, none after three seconds.\<close>

definition metrics_body :: "surroundings \<Rightarrow> nat \<Rightarrow> pyfloat \<Rightarrow> nat \<Rightarrow> py_exn + nat + (string \<rightharpoonup> int) list \<times> nat" where
  "metrics_body su least deadline tick =
     (if \<not> flt (clock_s su tick) deadline then Inr (Inr ([], Suc tick))
      else
        let lines = metrics_file su (Suc tick)
        in if length lines < least then Inr (Inl (tick + 2))
           else if None \<in> set lines then Inl ValueError
           else Inr (Inr (map the lines, tick + 2)))"

definition loop_stage :: "nat \<Rightarrow> (nat \<Rightarrow> py_exn + nat + 'r \<times> nat) \<Rightarrow> ('r \<Rightarrow> trial \<Rightarrow> trial) \<Rightarrow> stage" where
  "loop_stage fuel body k t =
     (case loop fuel body (t_tick t) of
        None \<Rightarrow> None
      | Some (Inl e) \<Rightarrow> Some (t, Some e)
      | Some (Inr (r, tick)) \<Rightarrow> Some (k r (t\<lparr>t_tick := tick\<rparr>), None))"

definition wait_for_metrics :: "nat \<Rightarrow> surroundings \<Rightarrow> nat \<Rightarrow> ((string \<rightharpoonup> int) list \<Rightarrow> trial \<Rightarrow> trial) \<Rightarrow> stage" where
  "wait_for_metrics fuel su least k t =
     loop_stage fuel (metrics_body su least (fadd (clock_s su (t_tick t)) (Fin 3))) k (t\<lparr>t_tick := Suc (t_tick t)\<rparr>)"

text \<open>Waiting for the common start, and watching the server until the deadline.\<close>

definition await_start :: "surroundings \<Rightarrow> int \<Rightarrow> nat \<Rightarrow> py_exn + nat + unit \<times> nat" where
  "await_start su start_ns tick =
     (if clock_ns su tick < start_ns then Inr (Inl (Suc tick)) else Inr (Inr ((), Suc tick)))"

definition watch_server :: "surroundings \<Rightarrow> int \<Rightarrow> nat \<Rightarrow> py_exn + nat + bool \<times> nat" where
  "watch_server su deadline_ns tick =
     (if \<not> clock_ns su tick < deadline_ns then Inr (Inr (False, Suc tick))
      else if \<not> running su (Suc tick) then Inr (Inr (True, tick + 2))
      else Inr (Inl (tick + 2)))"

definition read_server_cpu :: "surroundings \<Rightarrow> (pyfloat option \<Rightarrow> trial \<Rightarrow> trial) \<Rightarrow> stage" where
  "read_server_cpu su k = assign (\<lambda>t. k (cpu_seconds su (t_tick t)) (t\<lparr>t_tick := Suc (t_tick t)\<rparr>))"

definition final_metrics :: "nat \<Rightarrow> surroundings \<Rightarrow> stage" where
  "final_metrics fuel su t =
     (let t1 = t\<lparr>t_tick := Suc (t_tick t)\<rparr>
      in if \<not> running su (t_tick t) then Some (t1, None)
         else wait_for_metrics fuel su 2 (\<lambda>records t.
           if 2 \<le> length records then t\<lparr>t_server_metrics := Some (last records)\<rparr> else t) t1)"

text \<open>The measured phase, from its command to the merged state.\<close>

definition measure_phase :: "nat \<Rightarrow> surroundings \<Rightarrow> bench_args \<Rightarrow> phase \<Rightarrow> stage" where
  "measure_phase fuel su a ph =
     after (send_all_workers su (RunPhase ph))
     (after (loop_stage fuel (await_start su (ph_start_ns ph)) (\<lambda>_ t. t))
     (after (read_server_cpu su (\<lambda>c t. t\<lparr>t_cpu_start := c\<rparr>))
     (after (loop_stage fuel (watch_server su (ph_deadline_ns ph)) (\<lambda>crashed t. t\<lparr>t_server_crashed := crashed\<rparr>))
     (after (read_server_cpu su (\<lambda>c t. t\<lparr>t_cpu_end := c\<rparr>))
     (after (final_metrics fuel su)
       (stage_of (receive_all su ''result'' (fadd (arg_drain a) (Fin 10))
         (\<lambda>ms t. Inr (t\<lparr>t_state := merge_states (sum_floats su) (states_of ms)\<rparr>)))))))))"

definition phase_token :: "int \<Rightarrow> int \<Rightarrow> int \<Rightarrow> string" where
  "phase_token total_connections active_connections run =
     show_int total_connections @ ''-'' @ show_int active_connections @ ''-'' @ show_int run"

text \<open>The \<^verbatim>\<open>try\<close> block.\<close>

definition trial_body :: "nat \<Rightarrow> surroundings \<Rightarrow> bench_args \<Rightarrow> string \<Rightarrow> int \<Rightarrow> int \<Rightarrow> int \<Rightarrow> stage" where
  "trial_body fuel su a workload total_connections active_connections run =
     after (setup_workers su total_connections)
     (after (warm_up su a workload total_connections active_connections run)
     (after (stage_of (launch_profiler su a))
     (after (wait_for_metrics fuel su 1 (\<lambda>_ t. t))
       (with_phase su a workload total_connections active_connections (arg_duration a)
          (phase_token total_connections active_connections run) (measure_phase fuel su a)))))"

definition worker_count :: "bench_args \<Rightarrow> int \<Rightarrow> nat" where
  "worker_count a total_connections = nat (min total_connections (arg_workers a))"

definition trial_partitions :: "bench_args \<Rightarrow> int \<Rightarrow> int list list" where
  "trial_partitions a total_connections =
     partition_clients [0..total_connections - 1] (worker_count a total_connections)"

text \<open>What is left after the \<^verbatim>\<open>except\<close> and \<^verbatim>\<open>finally\<close> clauses.\<close>

definition outcome_of ::
  "surroundings \<Rightarrow> bench_args \<Rightarrow> int \<Rightarrow> string \<Rightarrow> bool \<Rightarrow> string list \<Rightarrow> trial \<Rightarrow> py_exn option \<Rightarrow> trial_outcome" where
  "outcome_of su a total_connections timestamp affinity_applied log_lines t err =
     \<lparr> oc_timestamp = timestamp, oc_server_affinity_applied = affinity_applied,
       oc_profile_command = t_profile_command t, oc_profile_events = t_profile_events t,
       oc_profile_error = t_profile_error t, oc_state = t_state t, oc_worker_setup = t_worker_setup t,
       oc_load_workers = int (worker_count a total_connections),
       oc_cpu_start = t_cpu_start t, oc_cpu_end = t_cpu_end t, oc_server_metrics = t_server_metrics t,
       oc_server_crashed = (t_server_crashed t \<or> \<not> running su (t_tick t)),
       oc_profile_started = t_profile_started t,
       oc_harness_error = (case err of None \<Rightarrow> [] | Some e \<Rightarrow> error_text su e),
       oc_disconnect_reasons = disconnect_reasons log_lines \<rparr>"

text \<open>The commands of each worker, and the row.\<close>

definition run_trial ::
  "nat \<Rightarrow> surroundings \<Rightarrow> bench_args \<Rightarrow> string \<Rightarrow> int \<Rightarrow> int \<Rightarrow> int \<Rightarrow> string \<Rightarrow> bool \<Rightarrow> string list \<Rightarrow> pipe list \<Rightarrow>
   (command list list \<times> (py_exn + trial_row)) option" where
  "run_trial fuel su a workload total_connections active_connections run timestamp affinity_applied log_lines pipes =
     map_option (\<lambda>(t, err). (map (\<lambda>sent. sent @ [Close]) (t_sent t),
         result_row a workload total_connections active_connections run
           (outcome_of su a total_connections timestamp affinity_applied log_lines t err)))
       (trial_body fuel su a workload total_connections active_connections run (start_trial pipes))"

section \<open>Reasoning about stages\<close>

text \<open>From \<open>P\<close>, a stage leads to \<open>Q\<close>, or to \<open>E\<close> with an exception.\<close>

definition leads :: "(trial \<Rightarrow> bool) \<Rightarrow> stage \<Rightarrow> (trial \<Rightarrow> bool) \<Rightarrow> (trial \<Rightarrow> bool) \<Rightarrow> bool" where
  "leads P f Q E \<longleftrightarrow>
     (\<forall>t t' err. P t \<longrightarrow> f t = Some (t', err) \<longrightarrow> (case err of None \<Rightarrow> Q t' | Some e \<Rightarrow> E t'))"

named_theorems stage_rules \<open>rules for the stages of a trial\<close>

lemma leads_after: "leads P f Q E \<Longrightarrow> leads Q g R E \<Longrightarrow> leads P (after f g) R E"
  by (fastforce simp: leads_def after_def split: option.splits)

lemma leads_weaken: "leads P f Q E \<Longrightarrow> (\<And>t. Q t \<Longrightarrow> Q' t) \<Longrightarrow> (\<And>t. E t \<Longrightarrow> E' t) \<Longrightarrow> leads P f Q' E'"
  unfolding leads_def by (metis (mono_tags, lifting) option.case_eq_if)

lemma leads_stage_of: "(\<And>t t'. P t \<Longrightarrow> f t = Inr t' \<Longrightarrow> Q t') \<Longrightarrow> (\<And>t. P t \<Longrightarrow> E t) \<Longrightarrow> leads P (stage_of f) Q E"
  by (auto simp: leads_def stage_of_def split: sum.splits)

lemma leads_loop_stage:
  "(\<And>t r tick. P t \<Longrightarrow> Q (k r (t\<lparr>t_tick := tick\<rparr>))) \<Longrightarrow> (\<And>t. P t \<Longrightarrow> E t) \<Longrightarrow> leads P (loop_stage fuel body k) Q E"
  by (auto simp: leads_def loop_stage_def split: option.splits sum.splits)

lemma leads_assign: "(\<And>t. P t \<Longrightarrow> Q (f t)) \<Longrightarrow> leads P (assign f) Q E"
  by (auto simp: leads_def assign_def)

lemma leads_metrics:
  assumes "\<And>t r tick. P t \<Longrightarrow> Q (k r (t\<lparr>t_tick := tick\<rparr>))" "\<And>t tick. P t \<Longrightarrow> E (t\<lparr>t_tick := tick\<rparr>)"
  shows "leads P (wait_for_metrics fuel su n k) Q E"
  using assms by (auto simp: leads_def wait_for_metrics_def loop_stage_def split: option.splits sum.splits)

lemma leads_with_phase:
  assumes "\<And>ph now. phase_config a workload conns active duration token now = Inr ph \<Longrightarrow> leads P (k ph) Q E"
    "\<And>t. P t \<Longrightarrow> E (t\<lparr>t_tick := Suc (t_tick t)\<rparr>)" "\<And>t. P t \<Longrightarrow> P (t\<lparr>t_tick := Suc (t_tick t)\<rparr>)"
  shows "leads P (with_phase su a workload conns active duration token k) Q E"
  unfolding leads_def
proof (intro allI impI)
  fix t t' err assume P: "P t" and r: "with_phase su a workload conns active duration token k t = Some (t', err)"
  show "case err of None \<Rightarrow> Q t' | Some e \<Rightarrow> E t'"
  proof (cases "phase_config a workload conns active duration token (clock_ns su (t_tick t))")
    case (Inl e)
    then show ?thesis using r assms(2)[OF P] by (auto simp: with_phase_def)
  next
    case (Inr ph)
    then have "k ph (t\<lparr>t_tick := Suc (t_tick t)\<rparr>) = Some (t', err)" using r by (simp add: with_phase_def)
    then show ?thesis using assms(1)[OF Inr] assms(3)[OF P] unfolding leads_def by blast
  qed
qed

lemma leads_final_metrics:
  assumes "\<And>t m tick. P t \<Longrightarrow> P (t\<lparr>t_tick := tick, t_server_metrics := m\<rparr>)" "\<And>t tick. P t \<Longrightarrow> P (t\<lparr>t_tick := tick\<rparr>)"
  shows "leads P (final_metrics fuel su) P P"
proof -
  have "P (t\<lparr>t_tick := tick, t_server_metrics := Some m\<rparr>)" if "P t" for t m tick using assms(1)[OF that] .
  then show ?thesis using assms(2)
    by (auto simp: leads_def final_metrics_def wait_for_metrics_def loop_stage_def Let_def split: option.splits sum.splits if_splits)
qed

lemma send_each_all: "send_each ok wid c ss = (ss', True) \<Longrightarrow> ss' = map (\<lambda>s. s @ [c]) ss"
  by (induction ss arbitrary: wid ss') (auto split: if_splits prod.splits)

lemma send_each_some: "send_each ok wid c ss = (ss', b) \<Longrightarrow> s \<in> set ss' \<Longrightarrow> s \<in> set ss \<or> (\<exists>r\<in>set ss. s = r @ [c])"
  by (induction ss arbitrary: wid ss' b) (fastforce split: if_splits prod.splits)+

lemma send_each_ok: "(\<And>i. ok i) \<Longrightarrow> send_each ok wid c ss = (map (\<lambda>s. s @ [c]) ss, True)"
  by (induction ss arbitrary: wid) simp_all

lemma send_all_workers_None:
  "send_all_workers su c t = Some (t', None) \<Longrightarrow>
     t' = t\<lparr>t_tick := Suc (t_tick t), t_sent := map (\<lambda>s. s @ [c]) (t_sent t)\<rparr>"
  by (auto simp: send_all_workers_def split: if_splits prod.splits dest: send_each_all)

lemma send_all_workers_raise:
  assumes "send_all_workers su c t = Some (t', Some e)" "s \<in> set (t_sent t')"
  shows "s \<in> set (t_sent t) \<or> (\<exists>r\<in>set (t_sent t). s = r @ [c])"
  using assms by (auto simp: send_all_workers_def split: if_splits prod.splits dest: send_each_some)

lemma leads_send:
  assumes "\<And>t t'. P t \<Longrightarrow> t' = t\<lparr>t_tick := Suc (t_tick t), t_sent := map (\<lambda>s. s @ [c]) (t_sent t)\<rparr> \<Longrightarrow> Q t'"
    and "\<And>t t'. P t \<Longrightarrow> (\<forall>s\<in>set (t_sent t'). s \<in> set (t_sent t) \<or> (\<exists>r\<in>set (t_sent t). s = r @ [c])) \<Longrightarrow> E t'"
  shows "leads P (send_all_workers su c) Q E"
  unfolding leads_def
proof (intro allI impI)
  fix t t' err assume P: "P t" and r: "send_all_workers su c t = Some (t', err)"
  show "case err of None \<Rightarrow> Q t' | Some e \<Rightarrow> E t'"
    using assms(1)[OF P send_all_workers_None] assms(2)[OF P] send_all_workers_raise r by (cases err) auto
qed

lemma receive_all_Inr:
  assumes "receive_all su expected timeout k t = Inr t'"
  obtains ms tick pipes where
    "receive_worker_messages (clock_s su) expected timeout (t_tick t, t_pipes t) = Inr (ms, tick, pipes)"
    "k ms (t\<lparr>t_tick := tick, t_pipes := pipes\<rparr>) = Inr t'"
  using assms by (auto simp: receive_all_def exn_simps)

lemma check_warmup_Inr: "check_warmup su states t = Inr t' \<Longrightarrow> t' = t"
  by (auto simp: check_warmup_def Let_def split: if_splits)

lemma launch_profiler_Inr:
  "launch_profiler su a t = Inr t' \<Longrightarrow>
     t_sent t' = t_sent t \<and> t_pipes t' = t_pipes t \<and> t_state t' = t_state t"
  by (auto simp: launch_profiler_def exn_simps split: if_splits)

section \<open>The commands of a trial\<close>

text \<open>The phases sent so far, at most \<open>n\<close> of them, all of this workload on the trial's active clients.\<close>

definition phase_of_trial :: "string \<Rightarrow> int \<Rightarrow> int \<Rightarrow> phase \<Rightarrow> bool" where
  "phase_of_trial workload total_connections active_connections ph \<longleftrightarrow>
     ph_workload ph = workload \<and> ph_total_connections ph = total_connections \<and>
     ph_active_indices ph = [0..active_connections - 1]"

definition phases_sent :: "string \<Rightarrow> int \<Rightarrow> int \<Rightarrow> nat \<Rightarrow> trial \<Rightarrow> bool" where
  "phases_sent workload total_connections active_connections n t \<longleftrightarrow>
     (\<exists>phs. (\<forall>s\<in>set (t_sent t). s = SetupComplete # map RunPhase phs) \<and> length phs \<le> n \<and>
        list_all (phase_of_trial workload total_connections active_connections) phs)"

lemma phases_sent_cong: "t_sent t' = t_sent t \<Longrightarrow> phases_sent w c m n t' = phases_sent w c m n t"
  by (simp add: phases_sent_def)

lemma phases_sent_mono: "phases_sent w c m n t \<Longrightarrow> n \<le> k \<Longrightarrow> phases_sent w c m k t"
  by (auto simp: phases_sent_def)

lemma phases_sent_snoc:
  assumes "phases_sent w c m n t" "phase_of_trial w c m ph" "t_sent t' = map (\<lambda>s. s @ [RunPhase ph]) (t_sent t)"
  shows "phases_sent w c m (Suc n) t'"
proof -
  obtain phs where "\<forall>s\<in>set (t_sent t). s = SetupComplete # map RunPhase phs" "length phs \<le> n" "list_all (phase_of_trial w c m) phs"
    using assms(1) by (auto simp: phases_sent_def)
  then show ?thesis using assms(2,3) unfolding phases_sent_def by (intro exI[of _ "phs @ [ph]"]) simp
qed

lemma phase_config_of_trial:
  "phase_config a w c m duration token now = Inr ph \<Longrightarrow> phase_of_trial w c m ph \<and> phase_of_trial w c m (ph\<lparr>ph_rate := r\<rparr>)"
  by (auto simp: phase_config_def phase_of_trial_def exn_simps)

definition conversation :: "string \<Rightarrow> int \<Rightarrow> int \<Rightarrow> command list \<Rightarrow> bool" where
  "conversation w c m s \<longleftrightarrow> s = [] \<or>
     (\<exists>phs. s = SetupComplete # map RunPhase phs \<and> length phs \<le> 2 \<and> list_all (phase_of_trial w c m) phs)"

lemma conversationI:
  "s = SetupComplete # map RunPhase phs \<Longrightarrow> length phs \<le> 2 \<Longrightarrow> list_all (phase_of_trial w c m) phs \<Longrightarrow> conversation w c m s"
  by (auto simp: conversation_def)

definition commands_ok :: "string \<Rightarrow> int \<Rightarrow> int \<Rightarrow> trial \<Rightarrow> bool" where
  "commands_ok w c m t \<longleftrightarrow> (\<forall>s\<in>set (t_sent t). conversation w c m s)"

definition nothing_sent :: "trial \<Rightarrow> bool" where
  "nothing_sent t \<longleftrightarrow> set (t_sent t) \<subseteq> {[]}"

lemma commands_ok_phases: "phases_sent w c m n t \<Longrightarrow> n \<le> 2 \<Longrightarrow> commands_ok w c m t"
  by (auto simp: commands_ok_def phases_sent_def intro!: conversationI)

lemma leads_receive:
  assumes "\<And>ms t t'. P t \<Longrightarrow> k ms t = Inr t' \<Longrightarrow> Q t'" "\<And>t. P t \<Longrightarrow> E t"
    and "\<And>t tick pipes. P t \<Longrightarrow> P (t\<lparr>t_tick := tick, t_pipes := pipes\<rparr>)"
  shows "leads P (stage_of (receive_all su expected timeout k)) Q E"
proof (rule leads_stage_of[OF _ assms(2)])
  fix t t' assume P: "P t" and "receive_all su expected timeout k t = Inr t'"
  from this(2) obtain ms tick pipes where "k ms (t\<lparr>t_tick := tick, t_pipes := pipes\<rparr>) = Inr t'" by (rule receive_all_Inr)
  then show "Q t'" by (rule assms(1)[OF assms(3)[OF P]])
qed

lemma phases_sent_same [simp]:
  "phases_sent w c m n (t\<lparr>t_tick := tick\<rparr>) = phases_sent w c m n t"
  "phases_sent w c m n (t\<lparr>t_pipes := pipes\<rparr>) = phases_sent w c m n t"
  "phases_sent w c m n (t\<lparr>t_server_metrics := x\<rparr>) = phases_sent w c m n t"
  "phases_sent w c m n (t\<lparr>t_state := st\<rparr>) = phases_sent w c m n t"
  "phases_sent w c m n (t\<lparr>t_cpu_start := u\<rparr>) = phases_sent w c m n t"
  "phases_sent w c m n (t\<lparr>t_cpu_end := u\<rparr>) = phases_sent w c m n t"
  "phases_sent w c m n (t\<lparr>t_server_crashed := b\<rparr>) = phases_sent w c m n t"
  by (simp_all add: phases_sent_def)

lemma send_phase_commands:
  assumes "phase_of_trial w c m ph" "n \<le> 1"
  shows "leads (phases_sent w c m n) (send_all_workers su (RunPhase ph)) (phases_sent w c m (Suc n)) (commands_ok w c m)"
proof (rule leads_send)
  fix t t' assume t: "phases_sent w c m n t"
  show "phases_sent w c m (Suc n) t'" if "t' = t\<lparr>t_tick := Suc (t_tick t), t_sent := map (\<lambda>s. s @ [RunPhase ph]) (t_sent t)\<rparr>"
    using phases_sent_snoc[OF t assms(1)] that by simp
  obtain phs where phs: "\<forall>s\<in>set (t_sent t). s = SetupComplete # map RunPhase phs" "length phs \<le> n"
    "list_all (phase_of_trial w c m) phs" using t by (auto simp: phases_sent_def)
  assume "\<forall>s\<in>set (t_sent t'). s \<in> set (t_sent t) \<or> (\<exists>r\<in>set (t_sent t). s = r @ [RunPhase ph])"
  then have "\<forall>s\<in>set (t_sent t'). s = SetupComplete # map RunPhase phs \<or> s = SetupComplete # map RunPhase (phs @ [ph])"
    using phs(1) by fastforce
  moreover have "list_all (phase_of_trial w c m) (phs @ [ph])" "length (phs @ [ph]) \<le> 2"
    using phs(2,3) assms by simp_all
  moreover have "length phs \<le> 2" using phs(2) assms(2) by simp
  ultimately show "commands_ok w c m t'" using phs(3) conversationI unfolding commands_ok_def by blast
qed

lemma setup_commands:
  "leads nothing_sent (setup_workers su c') (phases_sent w c m 0) (commands_ok w c m)"
  unfolding setup_workers_def
proof (intro leads_after)
  show "leads nothing_sent (stage_of (\<lambda>t. seq (int_div c' 100) (\<lambda>q. receive_all su ''connected'' (py_max (Fin 20) q)
      (\<lambda>ms t. Inr (t\<lparr>t_worker_setup := affinities ms\<rparr>)) t))) nothing_sent (commands_ok w c m)"
    by (intro leads_stage_of) (auto simp: commands_ok_def conversation_def nothing_sent_def exn_simps elim!: receive_all_Inr)
  show "leads nothing_sent (send_all_workers su SetupComplete) (phases_sent w c m 0) (commands_ok w c m)"
  proof (rule leads_send)
    fix t t' assume "nothing_sent t"
    then have t: "s = []" if "s \<in> set (t_sent t)" for s using that by (auto simp: nothing_sent_def)
    show "phases_sent w c m 0 t'" if "t' = t\<lparr>t_tick := Suc (t_tick t), t_sent := map (\<lambda>s. s @ [SetupComplete]) (t_sent t)\<rparr>"
      unfolding phases_sent_def using t that by (intro exI[of _ "[]"]) auto
    assume s: "\<forall>s\<in>set (t_sent t'). s \<in> set (t_sent t) \<or> (\<exists>r\<in>set (t_sent t). s = r @ [SetupComplete])"
    have "s = [] \<or> s = SetupComplete # map RunPhase []" if "s \<in> set (t_sent t')" for s using s that t by force
    then show "commands_ok w c m t'" using conversationI[where phs = "[]"]
      unfolding commands_ok_def by (fastforce simp: conversation_def)
  qed
  show "leads (phases_sent w c m 0) (stage_of (receive_all su ''ready'' (Fin 10) (\<lambda>ms t. Inr t)))
      (phases_sent w c m 0) (commands_ok w c m)"
    by (intro leads_receive) (auto intro: commands_ok_phases)
qed

lemma warm_up_commands:
  "leads (phases_sent w c m 0) (warm_up su a w c m run) (phases_sent w c m 1) (commands_ok w c m)"
proof (cases "arg_warmup a = Fin 0")
  case True
  then show ?thesis by (auto simp: leads_def warm_up_def intro: phases_sent_mono)
next
  case False
  have "leads (phases_sent w c m 0) (with_phase su a w c m (arg_warmup a) (''warmup-'' @ show_int run)
      (\<lambda>ph. run_worker_phase su (ph\<lparr>ph_rate := configured_warmup_rate a\<rparr>) (check_warmup su)))
      (phases_sent w c m 1) (commands_ok w c m)"
  proof (intro leads_with_phase)
    fix ph now assume "phase_config a w c m (arg_warmup a) (''warmup-'' @ show_int run) now = Inr ph"
    then have ph: "phase_of_trial w c m (ph\<lparr>ph_rate := configured_warmup_rate a\<rparr>)" using phase_config_of_trial by blast
    have "leads (phases_sent w c m 1) (stage_of (receive_all su ''result'' timeout (\<lambda>ms. check_warmup su (states_of ms))))
        (phases_sent w c m 1) (commands_ok w c m)" for timeout
      by (intro leads_receive) (auto dest!: check_warmup_Inr intro: commands_ok_phases)
    then show "leads (phases_sent w c m 0) (run_worker_phase su (ph\<lparr>ph_rate := configured_warmup_rate a\<rparr>) (check_warmup su))
        (phases_sent w c m 1) (commands_ok w c m)"
      unfolding run_worker_phase_def using send_phase_commands[OF ph, of 0] by (auto intro: leads_after)
  qed (auto intro: commands_ok_phases)
  then show ?thesis using False by (simp add: leads_def warm_up_def)
qed

lemma wait_commands:
  assumes "\<And>r t. phases_sent w c m 2 (k r t) = phases_sent w c m 2 t"
  shows "leads (phases_sent w c m 2) (loop_stage fuel body k) (phases_sent w c m 2) (commands_ok w c m)"
  by (rule leads_loop_stage) (simp_all add: assms commands_ok_phases[of w c m 2])

lemma measure_commands:
  assumes "phase_of_trial w c m ph"
  shows "leads (phases_sent w c m 1) (measure_phase fuel su a ph) (commands_ok w c m) (commands_ok w c m)"
proof -
  have two: "commands_ok w c m t" if "phases_sent w c m 2 t" for t by (rule commands_ok_phases[OF that]) simp
  have send: "leads (phases_sent w c m 1) (send_all_workers su (RunPhase ph)) (phases_sent w c m 2) (commands_ok w c m)"
    using send_phase_commands[OF assms, of 1] by (simp add: numeral_2_eq_2)
  have cpu: "leads (phases_sent w c m 2) (read_server_cpu su k) (phases_sent w c m 2) (commands_ok w c m)"
    if "\<And>r t. phases_sent w c m 2 (k r t) = phases_sent w c m 2 t" for k
    unfolding read_server_cpu_def by (rule leads_assign) (simp add: that)
  have met: "leads (phases_sent w c m 2) (final_metrics fuel su) (phases_sent w c m 2) (commands_ok w c m)"
    by (rule leads_weaken[OF leads_final_metrics]) (simp_all add: two)
  have fin: "leads (phases_sent w c m 2) (stage_of (receive_all su ''result'' (fadd (arg_drain a) (Fin 10))
      (\<lambda>ms t. Inr (t\<lparr>t_state := merge_states (sum_floats su) (states_of ms)\<rparr>)))) (commands_ok w c m) (commands_ok w c m)"
    by (rule leads_receive) (auto simp: two)
  show ?thesis
    unfolding measure_phase_def
    by (rule leads_after[OF send], rule leads_after[OF wait_commands], simp, rule leads_after[OF cpu], simp,
        rule leads_after[OF wait_commands], simp, rule leads_after[OF cpu], simp, rule leads_after[OF met fin])
qed

lemma trial_body_commands:
  "leads nothing_sent (trial_body fuel su a w c m run) (commands_ok w c m) (commands_ok w c m)"
  unfolding trial_body_def
proof (intro leads_after[OF setup_commands] leads_after[OF warm_up_commands])
  have profiler: "leads (phases_sent w c m 1) (stage_of (launch_profiler su a)) (phases_sent w c m 1) (commands_ok w c m)"
  proof (rule leads_stage_of)
    show "phases_sent w c m 1 t'" if "phases_sent w c m 1 t" "launch_profiler su a t = Inr t'" for t t'
      using that(1) launch_profiler_Inr[OF that(2)] phases_sent_cong[of t' t] by blast
  qed (auto intro: commands_ok_phases)
  have metrics: "leads (phases_sent w c m 1) (wait_for_metrics fuel su 1 (\<lambda>_ t. t)) (phases_sent w c m 1) (commands_ok w c m)"
    by (intro leads_metrics) (auto intro: commands_ok_phases)
  have measured: "leads (phases_sent w c m 1) (with_phase su a w c m (arg_duration a) (phase_token c m run)
      (measure_phase fuel su a)) (commands_ok w c m) (commands_ok w c m)"
    by (intro leads_with_phase measure_commands) (auto intro: commands_ok_phases dest: phase_config_of_trial)
  show "leads (phases_sent w c m 1) (after (stage_of (launch_profiler su a)) (after (wait_for_metrics fuel su 1 (\<lambda>_ t. t))
      (with_phase su a w c m (arg_duration a) (phase_token c m run) (measure_phase fuel su a)))) (commands_ok w c m) (commands_ok w c m)"
    by (rule leads_after[OF profiler leads_after[OF metrics measured]])
qed

section \<open>A trial that fails\<close>

text \<open>Only the last stage assigns the merged state.\<close>

definition fresh_state :: "trial \<Rightarrow> bool" where
  "fresh_state t \<longleftrightarrow> t_state t = dict_of (empty_state 0)"

definition keeps_state :: "stage \<Rightarrow> bool" where
  "keeps_state f \<longleftrightarrow> (\<forall>t t' err. f t = Some (t', err) \<longrightarrow> t_state t' = t_state t)"

lemma keeps_after: "keeps_state f \<Longrightarrow> keeps_state g \<Longrightarrow> keeps_state (after f g)"
  by (fastforce simp: keeps_state_def after_def split: option.splits)

lemma keeps_leads: "keeps_state f \<Longrightarrow> leads fresh_state f fresh_state fresh_state"
  by (fastforce simp: keeps_state_def leads_def fresh_state_def split: option.splits)

lemma keeps_stage_of: "(\<And>t t'. f t = Inr t' \<Longrightarrow> t_state t' = t_state t) \<Longrightarrow> keeps_state (stage_of f)"
  by (auto simp: keeps_state_def stage_of_def split: sum.splits)

lemma keeps_receive:
  assumes "\<And>ms t t'. k ms t = Inr t' \<Longrightarrow> t_state t' = t_state t"
  shows "keeps_state (stage_of (receive_all su expected timeout k))"
  by (intro keeps_stage_of) (fastforce elim!: receive_all_Inr dest: assms)

lemma keeps_send: "keeps_state (send_all_workers su command)"
  by (auto simp: keeps_state_def send_all_workers_def split: prod.splits)

lemma keeps_loop: "(\<And>r t. t_state (k r t) = t_state t) \<Longrightarrow> keeps_state (loop_stage fuel body k)"
  by (auto simp: keeps_state_def loop_stage_def split: option.splits sum.splits)

lemma keeps_metrics: "(\<And>r t. t_state (k r t) = t_state t) \<Longrightarrow> keeps_state (wait_for_metrics fuel su n k)"
  using keeps_loop[of k] by (fastforce simp: keeps_state_def wait_for_metrics_def)

lemma keeps_with_phase:
  "(\<And>ph. keeps_state (k ph)) \<Longrightarrow> keeps_state (with_phase su a workload conns active duration token k)"
  by (fastforce simp: keeps_state_def with_phase_def split: sum.splits)

lemma keeps_setup: "keeps_state (setup_workers su conns)"
  unfolding setup_workers_def
  by (intro keeps_after keeps_send keeps_receive keeps_stage_of) (auto simp: exn_simps elim!: receive_all_Inr)

lemma keeps_warm_up: "keeps_state (warm_up su a workload conns active run)"
proof -
  have "keeps_state (with_phase su a workload conns active (arg_warmup a) (''warmup-'' @ show_int run)
      (\<lambda>ph. run_worker_phase su (ph\<lparr>ph_rate := configured_warmup_rate a\<rparr>) (check_warmup su)))"
    unfolding run_worker_phase_def
    by (intro keeps_with_phase keeps_after keeps_send keeps_receive) (auto dest: check_warmup_Inr)
  then show ?thesis by (auto simp: keeps_state_def warm_up_def)
qed

lemma keeps_final_metrics: "keeps_state (final_metrics fuel su)"
  using keeps_metrics[of "\<lambda>records t. if 2 \<le> length records then t\<lparr>t_server_metrics := Some (last records)\<rparr> else t" fuel su 2]
  by (fastforce simp: keeps_state_def final_metrics_def Let_def)

lemma keeps_cpu: "(\<And>r t. t_state (k r t) = t_state t) \<Longrightarrow> keeps_state (read_server_cpu su k)"
  by (auto simp: keeps_state_def read_server_cpu_def assign_def)

lemma measure_phase_fails_fresh: "leads fresh_state (measure_phase fuel su a ph) (\<lambda>_. True) fresh_state"
proof -
  have last: "leads fresh_state (stage_of (receive_all su ''result'' timeout k)) (\<lambda>_. True) fresh_state" for timeout k
    by (rule leads_stage_of) simp_all
  show ?thesis
    unfolding measure_phase_def
    by (rule leads_after[OF keeps_leads[OF keeps_send]], rule leads_after[OF keeps_leads[OF keeps_loop]], simp,
        rule leads_after[OF keeps_leads[OF keeps_cpu]], simp, rule leads_after[OF keeps_leads[OF keeps_loop]], simp,
        rule leads_after[OF keeps_leads[OF keeps_cpu]], simp, rule leads_after[OF keeps_leads[OF keeps_final_metrics] last])
qed

lemma trial_body_fails_fresh: "leads fresh_state (trial_body fuel su a workload conns active run) (\<lambda>_. True) fresh_state"
proof -
  have "keeps_state (stage_of (launch_profiler su a))" by (intro keeps_stage_of) (simp add: launch_profiler_Inr)
  moreover have "keeps_state (wait_for_metrics fuel su 1 (\<lambda>_ t. t))" by (rule keeps_metrics) simp
  moreover have "leads fresh_state (with_phase su a workload conns active (arg_duration a) (phase_token conns active run)
      (measure_phase fuel su a)) (\<lambda>_. True) fresh_state"
    by (rule leads_with_phase[OF measure_phase_fails_fresh]) (simp_all add: fresh_state_def)
  ultimately show ?thesis
    unfolding trial_body_def
    by (intro leads_after[OF keeps_leads[OF keeps_setup]] leads_after[OF keeps_leads[OF keeps_warm_up]])
      (blast intro: leads_after keeps_leads)
qed

lemma empty_state_row_invalid:
  assumes "result_row a workload conns active run oc = Inr r" "oc_state oc = dict_of (empty_state 0)"
  shows "\<not> tr_valid r"
proof -
  obtain row valid why where m: "measured_row a workload conns active run oc = Inr row"
    and c: "classify_result (verdict_of row) a = Inr (valid, why)"
    and r: "r = row\<lparr>tr_valid := valid, tr_invalid_reasons := why\<rparr>"
    using assms(1) by (rule result_rowE)
  have "percentile (samples (oc_state oc) ''scheduling_lag_ms'') (to_float (99 / 100)) = Inr (tr_scheduling_lag_p99_ms row)"
    using m unfolding measured_row_def Let_def seq_Inr_iff by (elim exE conjE) (drule Inr_inject, hypsubst, simp)
  then have "tr_scheduling_lag_p99_ms row = None"
    by (simp add: assms(2) samples_def finite_parts_def dict_of_def empty_state_def percentile_def)
  then have "reasons_of a (verdict_of row) \<noteq> Inr []" by (simp add: reasons_of_empty verdict_of_def limit_reason_def)
  then show ?thesis using c r by (auto simp: classify_result_def exn_simps)
qed

text \<open>A trial ends when its clocks advance.\<close>

definition time_passes :: "surroundings \<Rightarrow> bool" where
  "time_passes su \<longleftrightarrow> (\<forall>b. \<exists>N. \<forall>k\<ge>N. b \<le> clock_ns su k) \<and>
     (\<forall>j. \<exists>M. \<forall>k\<ge>M. fle (fadd (clock_s su j) (Fin 3)) (clock_s su k))"

definition stage_ends :: "(nat \<Rightarrow> stage) \<Rightarrow> bool" where
  "stage_ends f \<longleftrightarrow> (\<forall>t. settles (\<lambda>fuel. f fuel t))"

lemma stage_ends_const: "(\<And>t. f t \<noteq> None) \<Longrightarrow> stage_ends (\<lambda>fuel. f)"
  by (simp add: stage_ends_def settles_def)

lemma stage_ends_simple:
  "stage_ends (\<lambda>fuel. stage_of f)" "stage_ends (\<lambda>fuel. read_server_cpu su k)" "stage_ends (\<lambda>fuel. send_all_workers su c)"
  by (rule stage_ends_const, simp add: stage_of_def read_server_cpu_def assign_def send_all_workers_def split: prod.split)+

lemma stage_ends_after:
  assumes "stage_ends f" "stage_ends g"
  shows "stage_ends (\<lambda>fuel. after (f fuel) (g fuel))"
  unfolding stage_ends_def
proof
  fix t
  obtain n t' err where n: "f fuel t = Some (t', err)" if "n \<le> fuel" for fuel
    using assms(1) unfolding stage_ends_def settles_def by (metis surj_pair)
  obtain k x where k: "g fuel t' = Some x" if "k \<le> fuel" for fuel
    using assms(2) unfolding stage_ends_def settles_def by blast
  have "after (f fuel) (g fuel) t = Some (if err = None then x else (t', err))" if "max n k \<le> fuel" for fuel
    using n[of fuel] k[of fuel] that by (cases err) (auto simp: after_def)
  then show "settles (\<lambda>fuel. after (f fuel) (g fuel) t)" unfolding settles_def by blast
qed

lemma loop_stage_settles:
  assumes "\<And>tick tick'. body tick = Inr (Inl tick') \<Longrightarrow> tick < N \<and> tick < tick'"
  shows "settles (\<lambda>fuel. loop_stage fuel body k t)"
proof -
  have "settles (\<lambda>fuel. loop fuel body (t_tick t))"
    by (rule settles_loop[where P = "\<lambda>_. True" and m = "\<lambda>tick. N - tick"]) (auto dest!: assms)
  then obtain n x where "loop fuel body (t_tick t) = Some x" if "n \<le> fuel" for fuel unfolding settles_def by blast
  then show ?thesis unfolding settles_def loop_stage_def by (intro exI[of _ n]) (auto split: sum.split)
qed

lemma metrics_ends: "time_passes su \<Longrightarrow> stage_ends (\<lambda>fuel. wait_for_metrics fuel su n k)"
  unfolding stage_ends_def
proof
  fix t :: trial assume "time_passes su"
  then obtain M where M: "\<forall>j\<ge>M. fle (fadd (clock_s su (t_tick t)) (Fin 3)) (clock_s su j)"
    unfolding time_passes_def by blast
  have "tick < M \<and> tick < tick'"
    if "metrics_body su n (fadd (clock_s su (t_tick t)) (Fin 3)) tick = Inr (Inl tick')" for tick tick'
  proof -
    have "flt (clock_s su tick) (fadd (clock_s su (t_tick t)) (Fin 3))" "tick' = tick + 2"
      using that by (auto simp: metrics_body_def Let_def split: if_splits)
    moreover have "tick < M" using calculation(1) M fle_not_flt not_le by blast
    ultimately show ?thesis by simp
  qed
  then show "settles (\<lambda>fuel. wait_for_metrics fuel su n k t)"
    unfolding wait_for_metrics_def by (rule loop_stage_settles)
qed

lemma clock_loop_ends:
  assumes "time_passes su" "\<And>tick tick'. body tick = Inr (Inl tick') \<Longrightarrow> clock_ns su tick < b \<and> tick < tick'"
  shows "stage_ends (\<lambda>fuel. loop_stage fuel body k)"
proof -
  obtain N where N: "\<forall>j\<ge>N. b \<le> clock_ns su j" using assms(1) unfolding time_passes_def by blast
  have "tick < N \<and> tick < tick'" if "body tick = Inr (Inl tick')" for tick tick'
    using assms(2)[OF that] N by (metis not_le)
  then show ?thesis unfolding stage_ends_def using loop_stage_settles by blast
qed

lemma final_metrics_ends: "time_passes su \<Longrightarrow> stage_ends (\<lambda>fuel. final_metrics fuel su)"
  unfolding stage_ends_def final_metrics_def Let_def
proof
  fix t :: trial assume "time_passes su"
  from metrics_ends[OF this] show "settles (\<lambda>fuel. if \<not> running su (t_tick t) then Some (t\<lparr>t_tick := Suc (t_tick t)\<rparr>, None)
      else wait_for_metrics fuel su 2 (\<lambda>records t. if 2 \<le> length records then t\<lparr>t_server_metrics := Some (last records)\<rparr> else t)
        (t\<lparr>t_tick := Suc (t_tick t)\<rparr>))"
    by (cases "running su (t_tick t)") (simp_all add: stage_ends_def settles_const)
qed

lemma with_phase_ends:
  assumes "\<And>ph. stage_ends (\<lambda>fuel. k fuel ph)"
  shows "stage_ends (\<lambda>fuel. with_phase su a workload conns active duration token (k fuel))"
  unfolding stage_ends_def
proof
  fix t
  show "settles (\<lambda>fuel. with_phase su a workload conns active duration token (k fuel) t)"
    using assms unfolding stage_ends_def
    by (cases "phase_config a workload conns active duration token (clock_ns su (t_tick t))")
      (simp_all add: with_phase_def settles_const)
qed

lemma trial_body_ends:
  assumes "time_passes su"
  shows "stage_ends (\<lambda>fuel. trial_body fuel su a workload conns active run)"
proof -
  have connected: "stage_ends (\<lambda>fuel. setup_workers su conns)"
    unfolding setup_workers_def by (intro stage_ends_after stage_ends_simple)
  have "stage_ends (\<lambda>fuel. with_phase su a workload conns active (arg_warmup a) (''warmup-'' @ show_int run)
      (\<lambda>ph. run_worker_phase su (ph\<lparr>ph_rate := configured_warmup_rate a\<rparr>) (check_warmup su)))"
    unfolding run_worker_phase_def by (intro with_phase_ends stage_ends_after stage_ends_simple)
  then have warm: "stage_ends (\<lambda>fuel. warm_up su a workload conns active run)"
    by (simp add: stage_ends_def warm_up_def settles_const)
  have await: "stage_ends (\<lambda>fuel. loop_stage fuel (await_start su b) k)" for b k
    by (rule clock_loop_ends[OF assms, where b = b]) (auto simp: await_start_def split: if_splits)
  have watch: "stage_ends (\<lambda>fuel. loop_stage fuel (watch_server su b) k)" for b k
    by (rule clock_loop_ends[OF assms, where b = b]) (auto simp: watch_server_def split: if_splits)
  show ?thesis
    unfolding trial_body_def measure_phase_def
    by (intro stage_ends_after connected warm stage_ends_simple metrics_ends[OF assms] with_phase_ends await watch
        final_metrics_ends[OF assms])
qed

text \<open>C3: a trial always produces its outcome, and never a valid row from a failure. If the clocks
  advance, the work of a trial ends, whatever the workers, the server and the profiler do. If it was
  cut short by an exception, whatever text that exception has (an \<^verbatim>\<open>EOFError\<close> from a worker that died
  has none), the row is classified as invalid.\<close>

theorem failed_trial_is_invalid:
  assumes "time_passes su"
  shows "\<exists>n t err. (\<forall>fuel\<ge>n. trial_body fuel su a workload conns active run (start_trial pipes) = Some (t, err)) \<and>
    (\<forall>e timestamp applied log_lines r. err = Some e \<longrightarrow>
       result_row a workload conns active run (outcome_of su a conns timestamp applied log_lines t err) = Inr r \<longrightarrow>
       \<not> tr_valid r)"
proof -
  obtain n x where n: "\<forall>fuel\<ge>n. trial_body fuel su a workload conns active run (start_trial pipes) = Some x"
    using trial_body_ends[OF assms] unfolding stage_ends_def settles_def by blast
  obtain t err where x: "x = (t, err)" by (cases x)
  have fresh: "fresh_state t" if "err = Some e" for e
  proof -
    have "trial_body n su a workload conns active run (start_trial pipes) = Some (t, Some e)" using n x that by simp
    moreover have "fresh_state (start_trial pipes)" by (simp add: fresh_state_def start_trial_def)
    ultimately show ?thesis using trial_body_fails_fresh unfolding leads_def by fastforce
  qed
  then show ?thesis
    using n empty_state_row_invalid by (intro exI[of _ n] exI[of _ t] exI[of _ err]) (auto simp: x fresh_state_def outcome_of_def)
qed


section \<open>A small trial\<close>

text \<open>Two workers with one client each, one request each, no warm-up; clocks that jump ahead.\<close>

definition calm :: surroundings where
  "calm =
     \<lparr> clock_s = (\<lambda>k. Fin 0), clock_ns = (\<lambda>k. 10000000000 * int k), writable = (\<lambda>k wid. True), running = (\<lambda>k. True),
       cpu_seconds = (\<lambda>k. None), metrics_file = (\<lambda>k. [Some Map.empty, Some Map.empty]),
       trace_dir = (\<lambda>path name. None), profiler_installed = False, profiler_exited = None,
       profiler_alive = False, server_pid = 1, error_text = (\<lambda>e. []), sum_floats = foldl fadd (Fin 0) \<rparr>"

definition two_args :: bench_args where
  "two_args = default_args\<lparr>arg_warmup := Fin 0, arg_rate := Fin 2, arg_duration := Fin 1\<rparr>"

definition one_done :: "int \<Rightarrow> load_state" where
  "one_done wid = (empty_state wid)\<lparr>offered_operations := 1, sent_operations := 1, completed_by_deadline := 1,
     eventual_completions := 1, deliveries := 1, deliveries_by_deadline := 1, latencies_ms := [Fin 2],
     scheduling_lag_ms := [Fin 0]\<rparr>"

definition two_pipes :: "pipe list" where
  "two_pipes = map (\<lambda>wid. [Arrives (Fin 0) (Connected wid False None), Arrives (Fin 0) (Ready wid),
     Arrives (Fin 0) (Result (one_done wid))]) [0, 1]"

definition two_phase :: phase where
  "two_phase =
     \<lparr> ph_workload = ''direct'', ph_total_connections = 2, ph_active_indices = [0..1], ph_rate = Fin 2,
       ph_duration = Fin 1, ph_drain = Fin 2, ph_payload_size = 0, ph_token = phase_token 2 2 1,
       ph_start_ns = 100200000000, ph_deadline_ns = 101200000000, ph_max_overdue_sends = 32,
       ph_max_offer_lag_ms = Fin 20, ph_max_recv_calls = 4, ph_max_recv_bytes = 65536 \<rparr>"

lemma setup_timeout: "\<exists>x. int_div 2 100 = Inr x \<and> py_max (Fin 20) x = Fin 20"
proof -
  have "int_div 2 100 = Inr (Fin (rnd64 (1 / 50)))" by (simp add: int_div_def to_float_unit(1))
  moreover have "rnd64 (1 / 50) \<le> 1" by (rule to_float_unit(3)) simp_all
  ultimately show ?thesis by (simp add: py_max_Fin)
qed

lemma calm_receive:
  "receive_worker_messages (clock_s calm) expected (Fin r) (k, [Arrives (Fin 0) m # p, Arrives (Fin 0) m' # p']) =
     Inr ([m, m'], k + 3, [p, p'])"
  if "kind_of m = expected" "kind_of m' = expected" "expected \<noteq> ''error''" "to_float r = Fin r" "0 < r"
proof -
  have "check_message expected m = Inr m" using that(1,3) by (cases m) (auto simp: check_message_def)
  moreover have "check_message expected m' = Inr m'" using that(2,3) by (cases m') (auto simp: check_message_def)
  ultimately show ?thesis
    using that(4,5) by (simp add: receive_worker_messages_def calm_def Let_def fle_Fin fsub_def)
qed

lemma calm_setup:
  "setup_workers calm 2 (start_trial two_pipes) =
     Some ((start_trial two_pipes)\<lparr>t_tick := 7, t_sent := [[SetupComplete], [SetupComplete]], t_worker_setup := [False, False],
       t_pipes := [[Arrives (Fin 0) (Result (one_done 0))], [Arrives (Fin 0) (Result (one_done 1))]]\<rparr>, None)"
proof -
  obtain x where "int_div 2 100 = Inr x" "py_max (Fin 20) x = Fin 20" using setup_timeout by blast
  then show ?thesis
    by (simp add: setup_workers_def after_def stage_of_def receive_all_def calm_receive two_pipes_def start_trial_def
        send_all_workers_def affinities_def List.map_filter_def float_simps)
      (auto simp: calm_def)
qed

lemma loop_stage_returns: "body (t_tick t) = Inr (Inr (r, tick)) \<Longrightarrow> loop_stage (Suc 0) body k t = Some (k r (t\<lparr>t_tick := tick\<rparr>), None)"
  by (simp add: loop_stage_def)

lemma calm_metrics:
  "n \<le> 2 \<Longrightarrow> wait_for_metrics (Suc 0) calm n k t = Some (k [Map.empty, Map.empty] (t\<lparr>t_tick := t_tick t + 3\<rparr>), None)"
  unfolding wait_for_metrics_def
  by (subst loop_stage_returns[where r = "[Map.empty, Map.empty]" and tick = "t_tick t + 3"])
    (simp_all add: metrics_body_def calm_def Let_def float_simps)

lemma two_phase_config:
  "phase_config two_args ''direct'' 2 2 (arg_duration two_args) (phase_token 2 2 1) (clock_ns calm 10) = Inr two_phase"
proof -
  have "to_py_int (fmul (Fin 1) (Fin 1000000000)) = Inr 1000000000" by (simp add: float_simps)
  then show ?thesis
    by (simp add: phase_config_def start_delay two_args_def default_args_def two_phase_def calm_def)
qed

lemma calm_measure:
  "measure_phase (Suc 0) calm two_args two_phase t =
     Some (t\<lparr>t_tick := 23, t_sent := map (\<lambda>s. s @ [RunPhase two_phase]) (t_sent t), t_pipes := [[], []],
       t_server_metrics := Some Map.empty,
       t_state := merge_states (sum_floats calm) [dict_of (one_done 0), dict_of (one_done 1)]\<rparr>, None)"
  if "t_tick t = 11" "t_pipes t = [[Arrives (Fin 0) (Result (one_done 0))], [Arrives (Fin 0) (Result (one_done 1))]]"
    "t_server_crashed t = False" "t_cpu_start t = None" "t_cpu_end t = None"
proof -
  have "t\<lparr>t_cpu_start := None\<rparr> = t" "t\<lparr>t_cpu_end := None\<rparr> = t" "t\<lparr>t_server_crashed := False\<rparr> = t"
    using that by simp_all
  have send: "send_all_workers calm (RunPhase two_phase) t =
      Some (t\<lparr>t_tick := 12, t_sent := map (\<lambda>s. s @ [RunPhase two_phase]) (t_sent t)\<rparr>, None)"
    by (simp add: send_all_workers_def send_each_ok calm_def that)
  have await: "await_start calm (ph_start_ns two_phase) 12 = Inr (Inr ((), 13))"
    by (simp add: await_start_def calm_def two_phase_def)
  have watch: "watch_server calm (ph_deadline_ns two_phase) 14 = Inr (Inr (False, 15))"
    by (simp add: watch_server_def calm_def two_phase_def)
  have metrics: "final_metrics (Suc 0) calm t' = Some (t'\<lparr>t_tick := t_tick t' + 4, t_server_metrics := Some Map.empty\<rparr>, None)" for t'
    by (simp add: final_metrics_def calm_metrics Let_def) (simp add: calm_def)
  have recv: "receive_worker_messages (clock_s calm) ''result'' (fadd (arg_drain two_args) (Fin 10))
      (20, [[Arrives (Fin 0) (Result (one_done 0))], [Arrives (Fin 0) (Result (one_done 1))]]) =
      Inr ([Result (one_done 0), Result (one_done 1)], 23, [[], []])"
    using calm_receive[of "Result (one_done 0)" "''result''" "Result (one_done 1)" 12 20 "[]" "[]"]
    by (simp add: two_args_def default_args_def float_simps)
  show ?thesis
    unfolding measure_phase_def
    by (simp add: after_def stage_of_def send loop_stage_returns[OF trans[OF arg_cong[where f = "await_start _ _"] await]]
        loop_stage_returns[OF trans[OF arg_cong[where f = "watch_server _ _"] watch]]
        read_server_cpu_def assign_def metrics receive_all_def recv states_of_def List.map_filter_def that)
      (simp add: calm_def that)
qed

lemma calm_trial:
  "\<exists>t. trial_body 1 calm two_args ''direct'' 2 2 1 (start_trial two_pipes) = Some (t, None) \<and>
     t_sent t = [[SetupComplete, RunPhase two_phase], [SetupComplete, RunPhase two_phase]] \<and>
     t_state t = merge_states (sum_floats calm) [dict_of (one_done 0), dict_of (one_done 1)]"
proof -
  define t1 where "t1 = (start_trial two_pipes)\<lparr>t_tick := 7, t_sent := [[SetupComplete], [SetupComplete]], t_worker_setup := [False, False],
    t_pipes := [[Arrives (Fin 0) (Result (one_done 0))], [Arrives (Fin 0) (Result (one_done 1))]]\<rparr>"
  have w: "warm_up calm two_args ''direct'' 2 2 1 t1 = Some (t1, None)" by (simp add: warm_up_def two_args_def)
  have p: "launch_profiler calm two_args t1 = Inr t1"
    by (simp add: launch_profiler_def two_args_def default_args_def)
  have m: "wait_for_metrics (Suc 0) calm 1 (\<lambda>_ t. t) t1 = Some (t1\<lparr>t_tick := 10\<rparr>, None)"
    by (subst calm_metrics) (simp_all add: t1_def)
  then have m': "wait_for_metrics (Suc 0) calm (Suc 0) (\<lambda>_ t. t) t1 = Some (t1\<lparr>t_tick := 10\<rparr>, None)" by simp
  have "trial_body 1 calm two_args ''direct'' 2 2 1 (start_trial two_pipes) =
      measure_phase (Suc 0) calm two_args two_phase (t1\<lparr>t_tick := 11\<rparr>)"
    unfolding trial_body_def
    by (simp add: after_def stage_of_def calm_setup flip: t1_def) (simp add: after_def stage_of_def w p m' with_phase_def two_phase_config t1_def[THEN arg_cong[where f = t_tick]])
  then show ?thesis by (simp add: calm_measure t1_def start_trial_def)
qed


text \<open>A trial whose worker dies at once.\<close>

definition passing :: surroundings where
  "passing = calm\<lparr>clock_s := monotonic counting_env\<rparr>"

lemma passing_passes: "time_passes passing"
  unfolding time_passes_def
proof (intro conjI allI)
  show "\<exists>N. \<forall>k\<ge>N. b \<le> clock_ns passing k" for b
    by (intro exI[of _ "nat b"]) (auto simp: passing_def calm_def)
  show "\<exists>M. \<forall>k\<ge>M. fle (fadd (clock_s passing j) (Fin 3)) (clock_s passing k)" for j
    using counting_clock[where d = 3 and j = j] by (auto simp: passing_def)
qed

theorem failed_trial_is_invalid_witness:
  "\<exists>n t. trial_body n passing two_args ''direct'' 2 2 1 (start_trial [[Hangup], [Hangup]]) = Some (t, Some EOFError) \<and>
     \<not> (\<exists>r. result_row two_args ''direct'' 2 2 1 (outcome_of passing two_args 2 ''now'' False [] t (Some EOFError)) = Inr r \<and>
           tr_valid r)"
proof -
  obtain n t err where n: "\<forall>fuel\<ge>n. trial_body fuel passing two_args ''direct'' 2 2 1 (start_trial [[Hangup], [Hangup]]) = Some (t, err)"
    and r: "\<forall>e timestamp applied log_lines r. err = Some e \<longrightarrow>
       result_row two_args ''direct'' 2 2 1 (outcome_of passing two_args 2 timestamp applied log_lines t err) = Inr r \<longrightarrow> \<not> tr_valid r"
    using failed_trial_is_invalid[OF passing_passes] by blast
  obtain x where x: "int_div 2 100 = Inr x" "py_max (Fin 20) x = Fin 20" using setup_timeout by blast
  have "fle (fsub (fadd (monotonic counting_env 0) (Fin 20)) (monotonic counting_env (Suc 0))) (Fin 0) = False"
    by (simp add: counting_env_def fsub_def float_simps)
  then have "setup_workers passing 2 (start_trial [[Hangup], [Hangup]]) = Some (start_trial [[Hangup], [Hangup]], Some EOFError)"
    using x by (simp add: setup_workers_def after_def stage_of_def receive_all_def receive_worker_messages_def start_trial_def
        passing_def Let_def)
  then have "trial_body n passing two_args ''direct'' 2 2 1 (start_trial [[Hangup], [Hangup]]) =
      Some (start_trial [[Hangup], [Hangup]], Some EOFError)" for n
    by (simp add: trial_body_def after_def)
  then have "err = Some EOFError" "t = start_trial [[Hangup], [Hangup]]" using n by auto
  then show ?thesis using n r by blast
qed

end
