(* ===== verification/Trial_End.thy ===== *)
theory Trial_End
  imports Prelude
begin

text \<open>
  How a trial ends its processes (\<^verbatim>\<open>stop_profiler\<close> and the \<^verbatim>\<open>finally\<close> clause of \<^verbatim>\<open>run_trial\<close> in
  \<^verbatim>\<open>bench/benchmark.py\<close>): the profiler is interrupted and then terminated, the workers are told to
  close and then terminated, the server is terminated and then killed. Whether a process ends in the
  time that it is given after one of these is an argument; a process that is waited for without a
  limit and never ends is the result \<open>None\<close>.
\<close>

section \<open>Processes\<close>

datatype nudge = CloseCommand | Interrupt | Terminate | Kill

record process =
  p_alive :: bool
  p_ends_on :: "nudge \<Rightarrow> bool"
  p_received :: "nudge list"

text \<open>A nudge, and waiting for the process: did it end in time?\<close>

definition nudged :: "nudge \<Rightarrow> process \<Rightarrow> process" where
  "nudged n p = p\<lparr>p_alive := (p_alive p \<and> \<not> p_ends_on p n), p_received := p_received p @ [n]\<rparr>"

text \<open>\<^verbatim>\<open>stop_profiler\<close>: the process afterwards, and whether the second wait raised \<^verbatim>\<open>TimeoutExpired\<close>.\<close>

definition stop_profiler :: "process option \<Rightarrow> process option \<times> bool" where
  "stop_profiler profiler =
     (case profiler of None \<Rightarrow> (None, False)
      | Some p \<Rightarrow>
          if \<not> p_alive p then (Some p, False)
          else let p1 = nudged Interrupt p
               in if \<not> p_alive p1 then (Some p1, False)
                  else let p2 = nudged Terminate p1 in (Some p2, p_alive p2))"

text \<open>A worker has been told to close; the last \<^verbatim>\<open>join\<close> has no limit.\<close>

definition end_worker :: "process \<Rightarrow> process option" where
  "end_worker p =
     (if \<not> p_alive p then Some p
      else let p1 = nudged Terminate p in if p_alive p1 then None else Some p1)"

definition end_server :: "process \<Rightarrow> process option" where
  "end_server p =
     (if \<not> p_alive p then Some p
      else let p1 = nudged Terminate p
           in if \<not> p_alive p1 then Some p1
              else let p2 = nudged Kill p1 in if p_alive p2 then None else Some p2)"

fun end_workers :: "process list \<Rightarrow> process list option" where
  "end_workers [] = Some []"
| "end_workers (p # ps) =
     (case end_worker p of None \<Rightarrow> None
      | Some p' \<Rightarrow> map_option (Cons p') (end_workers ps))"

record processes =
  ps_profiler :: "process option"
  ps_workers :: "process list"
  ps_server :: process

text \<open>
  The \<^verbatim>\<open>finally\<close> clause. \<open>stopped\<close>: the \<^verbatim>\<open>try\<close> block has stopped the profiler and forgotten it. An
  exception of \<^verbatim>\<open>stop_profiler\<close> leaves the clause at once.
\<close>

definition clean_up :: "bool \<Rightarrow> processes \<Rightarrow> (processes \<times> bool) option" where
  "clean_up stopped ps =
     (case (if stopped then (ps_profiler ps, False) else stop_profiler (ps_profiler ps)) of
        (profiler, True) \<Rightarrow> Some (ps\<lparr>ps_profiler := profiler\<rparr>, True)
      | (profiler, False) \<Rightarrow>
          (case end_workers (map (nudged CloseCommand) (ps_workers ps)) of None \<Rightarrow> None
           | Some workers \<Rightarrow>
               (case end_server (ps_server ps) of None \<Rightarrow> None
                | Some server \<Rightarrow>
                    Some (ps\<lparr>ps_profiler := profiler, ps_workers := workers, ps_server := server\<rparr>, False))))"

text \<open>
  The end of a trial. \<open>reached\<close>: the \<^verbatim>\<open>try\<close> block came as far as its own call of \<^verbatim>\<open>stop_profiler\<close>, whose
  exception the \<^verbatim>\<open>except\<close> clause catches.
\<close>

definition end_trial :: "bool \<Rightarrow> processes \<Rightarrow> (processes \<times> bool) option" where
  "end_trial reached ps =
     (if reached
      then (case stop_profiler (ps_profiler ps) of (profiler, raised) \<Rightarrow>
              clean_up (\<not> raised) (ps\<lparr>ps_profiler := profiler\<rparr>))
      else clean_up False ps)"

section \<open>What is left running\<close>

definition obeys :: "process \<Rightarrow> nudge \<Rightarrow> bool" where
  "obeys p n \<longleftrightarrow> (p_alive p \<longrightarrow> p_ends_on p n)"

lemma nudged_simps [simp]:
  "p_alive (nudged n p) \<longleftrightarrow> p_alive p \<and> \<not> p_ends_on p n" "p_ends_on (nudged n p) = p_ends_on p"
  by (simp_all add: nudged_def)

text \<open>A profiler that neither the interrupt nor the termination ends.\<close>

definition stubborn :: "process option \<Rightarrow> bool" where
  "stubborn profiler \<longleftrightarrow> (\<exists>p. profiler = Some p \<and> p_alive p \<and> \<not> p_ends_on p Interrupt \<and> \<not> p_ends_on p Terminate)"

definition ended :: "process option \<Rightarrow> bool" where
  "ended profiler \<longleftrightarrow> (\<forall>p. profiler = Some p \<longrightarrow> \<not> p_alive p)"

lemma stop_profiler_result:
  "stop_profiler profiler = (profiler', raised) \<Longrightarrow>
     raised = stubborn profiler \<and> stubborn profiler' = stubborn profiler \<and> (\<not> raised \<longrightarrow> ended profiler')"
  by (auto simp: stop_profiler_def stubborn_def ended_def Let_def split: option.splits if_splits)

lemma end_workers_end:
  "\<forall>p\<in>set ps. obeys p Terminate \<Longrightarrow>
     \<exists>ps'. end_workers ps = Some ps' \<and> length ps' = length ps \<and> (\<forall>p\<in>set ps'. \<not> p_alive p)"
  by (induction ps) (auto simp: end_worker_def obeys_def Let_def)

lemma end_server_ends: "obeys p Kill \<Longrightarrow> \<exists>p'. end_server p = Some p' \<and> \<not> p_alive p'"
  by (auto simp: end_server_def obeys_def Let_def)

lemma clean_up_result:
  assumes "\<forall>p\<in>set (ps_workers ps). obeys p Terminate" "obeys (ps_server ps) Kill" "stopped \<longrightarrow> ended (ps_profiler ps)"
  shows "\<exists>ps'. clean_up stopped ps = Some (ps', stubborn (ps_profiler ps)) \<and>
    (if stubborn (ps_profiler ps) then ps_workers ps' = ps_workers ps \<and> ps_server ps' = ps_server ps
     else ended (ps_profiler ps') \<and> (\<forall>p\<in>set (ps_workers ps'). \<not> p_alive p) \<and> \<not> p_alive (ps_server ps'))"
proof -
  have "\<forall>p\<in>set (map (nudged CloseCommand) (ps_workers ps)). obeys p Terminate"
    using assms(1) by (auto simp: obeys_def)
  then obtain ws where ws: "end_workers (map (nudged CloseCommand) (ps_workers ps)) = Some ws" "\<forall>p\<in>set ws. \<not> p_alive p"
    using end_workers_end by blast
  obtain s where s: "end_server (ps_server ps) = Some s" "\<not> p_alive s" using end_server_ends[OF assms(2)] by blast
  obtain profiler raised where r: "stop_profiler (ps_profiler ps) = (profiler, raised)" by fastforce
  have "\<not> stubborn (ps_profiler ps)" if stopped using assms(3) that by (auto simp: stubborn_def ended_def)
  then show ?thesis
    using stop_profiler_result[OF r] assms(3) ws s by (cases stopped; cases raised) (simp_all add: clean_up_def r)
qed

text \<open>C9: a trial ends all its processes, however it went: afterwards no worker, no profiler and no server
  runs, if the workers end when they are terminated and the server when it is killed. There is exactly
  one exception: a profiler that withstands both the interrupt and the termination makes \<^verbatim>\<open>stop_profiler\<close>
  raise in the \<^verbatim>\<open>finally\<close> clause; the exception then leaves \<^verbatim>\<open>run_trial\<close>, and the workers and the server
  are not even told to end.\<close>

theorem end_trial_leaves_nothing:
  assumes "\<forall>p\<in>set (ps_workers ps). obeys p Terminate" "obeys (ps_server ps) Kill"
  shows "\<exists>ps'. end_trial reached ps = Some (ps', stubborn (ps_profiler ps)) \<and>
    (if stubborn (ps_profiler ps) then ps_workers ps' = ps_workers ps \<and> ps_server ps' = ps_server ps
     else ended (ps_profiler ps') \<and> (\<forall>p\<in>set (ps_workers ps'). \<not> p_alive p) \<and> \<not> p_alive (ps_server ps'))"
proof (cases reached)
  case True
  obtain profiler raised where r: "stop_profiler (ps_profiler ps) = (profiler, raised)" by fastforce
  note res = stop_profiler_result[OF r]
  have "\<not> raised \<longrightarrow> ended (ps_profiler (ps\<lparr>ps_profiler := profiler\<rparr>))" using res by simp
  from clean_up_result[OF _ _ this] assms res True r show ?thesis by (cases raised) (simp_all add: end_trial_def)
next
  case False
  then show ?thesis using clean_up_result[OF assms, of False] by (simp add: end_trial_def)
qed

text \<open>A server that only a kill ends and a worker that does not close, with a profiler that ignores interrupts.\<close>

definition slow_processes :: processes where
  "slow_processes =
     \<lparr> ps_profiler = Some \<lparr> p_alive = True, p_ends_on = (\<lambda>n. n = Terminate), p_received = [] \<rparr>,
       ps_workers = [\<lparr> p_alive = True, p_ends_on = (\<lambda>n. n = Terminate), p_received = [] \<rparr>],
       ps_server = \<lparr> p_alive = True, p_ends_on = (\<lambda>n. n = Kill), p_received = [] \<rparr> \<rparr>"

theorem end_trial_leaves_nothing_witness:
  "\<exists>ps. end_trial True slow_processes = Some (ps, False) \<and> \<not> p_alive (ps_server ps) \<and>
     ps_server ps = \<lparr> p_alive = False, p_ends_on = (\<lambda>n. n = Kill), p_received = [Terminate, Kill] \<rparr>"
proof -
  have "\<forall>p\<in>set (ps_workers slow_processes). obeys p Terminate" "obeys (ps_server slow_processes) Kill"
    "\<not> stubborn (ps_profiler slow_processes)"
    by (simp_all add: slow_processes_def obeys_def stubborn_def)
  with end_trial_leaves_nothing[OF this(1,2), of True] obtain ps where
    ps: "end_trial True slow_processes = Some (ps, False)" "\<not> p_alive (ps_server ps)" by auto
  moreover have "ps_server ps = \<lparr> p_alive = False, p_ends_on = (\<lambda>n. n = Kill), p_received = [Terminate, Kill] \<rparr>"
    using ps(1) by (auto simp: end_trial_def clean_up_def stop_profiler_def slow_processes_def nudged_def end_worker_def
        end_server_def Let_def)
  ultimately show ?thesis by blast
qed

end
