(* ===== verification/Trial_Account.thy ===== *)
theory Trial_Account
  imports Trial_Run
begin

text \<open>
  The parent and its workers together: if every worker keeps to its protocol, the counters that a
  completed trial merges account for the offers of the whole trial, which are those that its rate and
  duration ask for.
\<close>

section \<open>The shares of the workers\<close>

lemma first_offers_append: "first_offers ph target (xs @ ys) = first_offers ph target xs @ first_offers ph target ys"
  by (induction xs) (simp_all add: first_offers_Cons)

lemma offers_due_append: "offers_due ph target (xs @ ys) = offers_due ph target xs + offers_due ph target ys"
  by (simp add: offers_due_def first_offers_append)

lemma offers_due_concat: "offers_due ph target (concat parts) = (\<Sum>p\<leftarrow>parts. offers_due ph target p)"
  by (induction parts) (simp_all add: offers_due_append, simp add: offers_due_def)

lemma first_offers_mset: "mset xs = mset ys \<Longrightarrow> mset (first_offers ph target xs) = mset (first_offers ph target ys)"
proof -
  have "mset (first_offers ph target xs) =
      (\<Sum>c\<in>#mset xs. mset (first_offers ph target [c]))" for xs
    by (induction xs) (simp_all add: first_offers_Cons)
  then show "mset xs = mset ys \<Longrightarrow> ?thesis" by metis
qed

lemma offers_due_mset: "mset xs = mset ys \<Longrightarrow> offers_due ph target xs = offers_due ph target ys"
  unfolding offers_due_def using first_offers_mset[of xs ys ph target]
  by (metis (mono_tags, lifting) mset_map sum_mset_sum_list)

text \<open>Every offer below the target belongs to one class of sequence numbers.\<close>

lemma classes_cover: "0 < n \<Longrightarrow> (\<Sum>j\<leftarrow>[0..<n]. (m + n - 1 - j) div n) = m"
proof -
  assume n: "0 < n"
  have "mset (concat (map (\<lambda>j. map id (filter (\<lambda>i. i mod n = j) [0..<m])) [0..<n])) = mset (map id [0..<m])"
    using n by (intro mset_classes) simp
  from arg_cong[OF this, of size]
  have "(\<Sum>j\<leftarrow>[0..<n]. length (filter (\<lambda>i. i mod n = j) [0..<m])) = m"
    by (simp add: length_concat comp_def)
  moreover have "map (\<lambda>j. length (filter (\<lambda>i. i mod n = j) [0..<m])) [0..<n] = map (\<lambda>j. (m + n - 1 - j) div n) [0..<n]"
    by (intro map_cong refl) (simp add: class_size)
  ultimately show ?thesis by simp
qed

lemma class_share:
  assumes "j < n"
  shows "int ((m + n - 1 - j) div n) = (if j < m then 1 + (int m - 1 - int j) div int n else 0)"
proof (cases "j < m")
  case True
  then have m: "m + n - 1 - j = (m - 1 - j) + n" and i: "int (m - 1 - j) = int m - 1 - int j" by auto
  have "(m + n - 1 - j) div n = (m - 1 - j) div n + 1" unfolding m using assms by (intro div_add_self2) simp
  then show ?thesis using True by (simp add: zdiv_int flip: i)
next
  case False
  then have "m + n - 1 - j < n" using assms by arith
  then show ?thesis using False by simp
qed

lemma active_position_upto:
  assumes "ph_active_indices ph = [0..int n - 1]"
  shows "active_position ph (int c) = (if c < n then Some (int c) else None)"
proof (cases "active_position ph (int c)")
  case None
  have "\<not> c < n"
  proof
    assume "c < n"
    then have "[0..int n - 1] ! c = int c" by (simp add: nth_upto)
    then have "int c \<in> fst ` set (zip [0..int n - 1] (map int [0..<n]))" using \<open>c < n\<close> by (simp add: set_map[symmetric])
    then show False using None assms by (simp add: active_position_def map_of_eq_None_iff)
  qed
  then show ?thesis using None by simp
next
  case (Some p)
  from active_position_bounds[OF Some] have "0 \<le> p" "nat p < n" "[0..int n - 1] ! nat p = int c" using assms by auto
  then show ?thesis using Some by (simp add: nth_upto)
qed

lemma offers_due_upto:
  assumes "ph_active_indices ph = [0..int n - 1]"
  shows "offers_due ph target (map int [0..<k]) =
    (\<Sum>c\<leftarrow>[0..<k]. if c < n \<and> int c < target then offers_from ph target (int c) else 0)"
  by (induction k) (simp_all add: offers_due_append, simp_all add: offers_due_def first_offers_Cons active_position_upto[OF assms])

lemma sum_list_int: "(\<Sum>x\<leftarrow>xs. int (f x)) = int (\<Sum>x\<leftarrow>xs. f x)"
  by (induction xs) simp_all

lemma offers_due_total:
  assumes "ph_active_indices ph = [0..int n - 1]" "0 < n" "n \<le> k"
  shows "offers_due ph target (map int [0..<k]) = max 0 target"
proof -
  have tail: "[0..<k] = [0..<n] @ [n..<k]" using upt_add_eq_append[of 0 n "k - n"] assms(3) by simp
  let ?F = "\<lambda>c. if c < n \<and> int c < target then offers_from ph target (int c) else 0"
  have "(\<Sum>c\<leftarrow>[n..<k]. ?F c) = 0" by (induction k) simp_all
  then have "(\<Sum>c\<leftarrow>[0..<k]. ?F c) = (\<Sum>c\<leftarrow>[0..<n]. ?F c)" unfolding tail by simp
  then have "offers_due ph target (map int [0..<k]) = (\<Sum>c\<leftarrow>[0..<n]. ?F c)"
    using offers_due_upto[OF assms(1)] by simp
  also have "\<dots> = (\<Sum>c\<leftarrow>[0..<n]. int ((nat target + n - 1 - c) div n))"
  proof (intro arg_cong[where f = sum_list] map_cong refl)
    fix c assume "c \<in> set [0..<n]"
    then show "(if c < n \<and> int c < target then offers_from ph target (int c) else 0) = int ((nat target + n - 1 - c) div n)"
      using class_share[of c n "nat target"] assms(1) by (auto simp: offers_from_def)
  qed
  also have "\<dots> = int (\<Sum>c\<leftarrow>[0..<n]. (nat target + n - 1 - c) div n)"
    by (rule sum_list_int)
  also have "\<dots> = max 0 target" using classes_cover[OF assms(2), of "nat target"] by simp
  finally show ?thesis .
qed

section \<open>The conversation, seen from the parent\<close>

text \<open>What a worker sends before its pipe ends.\<close>

fun messages_of :: "pipe \<Rightarrow> message list" where
  "messages_of (Arrives d m # p) = m # messages_of p"
| "messages_of p = []"

text \<open>One message of the expected kind is taken from every pipe.\<close>

fun took :: "string \<Rightarrow> pipe list \<Rightarrow> message list \<Rightarrow> pipe list \<Rightarrow> bool" where
  "took expected [] [] [] = True"
| "took expected (p # ps) (m # ms) (p' # ps') \<longleftrightarrow>
     (\<exists>d. p = Arrives d m # p') \<and> kind_of m = expected \<and> took expected ps ms ps'"
| "took expected _ _ _ = False"

lemma check_message_Inr: "check_message expected m = Inr m' \<Longrightarrow> m' = m \<and> kind_of m = expected \<and> (\<forall>wid err. m \<noteq> Failed wid err)"
  by (auto simp: check_message_def split: message.splits if_splits)

lemma receive_messages_took:
  "receive_messages clock deadline expected (tick, ps) = Inr (ms, tick', ps') \<Longrightarrow> took expected ps ms ps'"
proof (induction ps arbitrary: tick ms tick' ps')
  case (Cons p ps)
  then obtain m m2 p' ms1 ps1 t1 where r: "recv_pipe p = Inr (m, p')" "check_message expected m = Inr m2"
    "receive_messages clock deadline expected (Suc tick, ps) = Inr (ms1, t1, ps1)" "ms = m2 # ms1" "ps' = p' # ps1"
    by (auto simp: Let_def exn_simps split: if_splits)
  have "\<exists>d. p = Arrives d m # p'" using r(1) by (cases p rule: recv_pipe.cases) auto
  then show ?case using Cons.IH[OF r(3)] check_message_Inr[OF r(2)] r(4,5) by auto
qed simp

lemma receive_all_took:
  assumes "receive_all su expected timeout k t = Inr t'"
  obtains ms tick pipes where "took expected (t_pipes t) ms pipes" "k ms (t\<lparr>t_tick := tick, t_pipes := pipes\<rparr>) = Inr t'"
  using receive_all_Inr[OF assms] receive_messages_took unfolding receive_worker_messages_def by (metis snd_conv)

text \<open>Every worker's remaining messages are a run of its protocol from the same state.\<close>

definition talking ::
  "(py_exn \<Rightarrow> string) \<Rightarrow> phase list \<Rightarrow> protocol \<Rightarrow> (nat \<times> int list) list \<Rightarrow> pipe list \<Rightarrow> bool" where
  "talking repr phases s workers ps \<longleftrightarrow>
     list_all2 (\<lambda>(wid, clients) p. \<exists>s'. worker_trace repr clients (int wid) phases s (messages_of p) s') workers ps"

inductive_cases worker_trace_ConsE: "worker_trace repr clients wid phases s (m # ms) s'"

inductive_cases worker_stepE: "worker_step repr clients wid phases s m s'"

lemma talking_step:
  assumes "took expected ps ms ps'" "talking repr phases s workers ps"
    and "\<And>clients wid m s1. worker_step repr clients wid phases s m s1 \<Longrightarrow> kind_of m = expected \<Longrightarrow> s1 = s' \<and> R clients m"
  shows "talking repr phases s' workers ps' \<and> list_all2 (\<lambda>(wid, clients) m. R clients m) workers ms"
  using assms
proof (induction expected ps ms ps' arbitrary: workers rule: took.induct)
  case (2 expected p ps m ms p' ps')
  then obtain wid clients workers' where w: "workers = (wid, clients) # workers'"
    by (cases workers) (auto simp: talking_def)
  obtain d where p: "p = Arrives d m # p'" and m: "kind_of m = expected" and rest: "took expected ps ms ps'"
    using 2(2) by auto
  have t: "talking repr phases s workers' ps" using 2(3) by (simp add: talking_def w)
  note step = 2(4)
  obtain s1 s2 where "worker_step repr clients (int wid) phases s m s1" "worker_trace repr clients (int wid) phases s1 (messages_of p') s2"
    using 2(3) by (auto simp: talking_def w p elim!: worker_trace_ConsE)
  moreover from step[OF this(1) m] have "s1 = s'" "R clients m" by simp_all
  ultimately show ?case using 2(1)[OF rest t step] by (auto simp: talking_def w)
qed (auto simp: talking_def)

lemma talking_connected:
  "took ''connected'' ps ms ps' \<Longrightarrow> talking repr phases Connecting workers ps \<Longrightarrow> talking repr phases Settling workers ps'"
  by (drule (1) talking_step[where R = "\<lambda>_ _. True" and s' = Settling]) (auto elim!: worker_stepE)

lemma talking_ready:
  "took ''ready'' ps ms ps' \<Longrightarrow> talking repr phases Settling workers ps \<Longrightarrow> talking repr phases (Serving phases) workers ps'"
  by (drule (1) talking_step[where R = "\<lambda>_ _. True" and s' = "Serving phases"]) (auto elim!: worker_stepE)

lemma talking_result:
  assumes "took ''result'' ps ms ps'" "talking repr phases (Serving (ph # phs)) workers ps"
  shows "talking repr phases (Serving phs) workers ps' \<and>
    (\<exists>sts. ms = map Result sts \<and> list_all2 (\<lambda>(wid, clients) st. answered clients ph st) workers sts)"
proof -
  have r: "talking repr phases (Serving phs) workers ps' \<and>
      list_all2 (\<lambda>(wid, clients) m. \<exists>st. m = Result st \<and> answered clients ph st) workers ms"
    by (rule talking_step[OF assms]) (auto elim!: worker_stepE)
  have "\<exists>sts. ms = map Result sts \<and> list_all2 (\<lambda>(wid, clients) st. answered clients ph st) workers sts"
    using conjunct2[OF r]
  proof (induction workers ms rule: list_all2_induct)
    case (Cons w workers m ms)
    then obtain st sts where "m = Result st" "ms = map Result sts" "answered (snd w) ph st"
      "list_all2 (\<lambda>(wid, clients) st. answered clients ph st) workers sts" by auto
    then show ?case by (intro exI[of _ "st # sts"]) (auto split: prod.splits)
  qed simp
  then show ?thesis using r by blast
qed

section \<open>A trial that completes\<close>

lemma after_None: "after f g t = Some (t', None) \<longleftrightarrow> (\<exists>t1. f t = Some (t1, None) \<and> g t1 = Some (t', None))"
  by (auto simp: after_def split: option.splits)

lemma stage_of_None: "stage_of f t = Some (t', None) \<longleftrightarrow> f t = Inr t'"
  by (auto simp: stage_of_def split: sum.splits)

lemma loop_stage_None:
  "loop_stage fuel body k t = Some (t', None) \<Longrightarrow> \<exists>r tick. t' = k r (t\<lparr>t_tick := tick\<rparr>)"
  by (auto simp: loop_stage_def split: option.splits sum.splits)

lemma wait_for_metrics_None:
  "wait_for_metrics fuel su n k t = Some (t', None) \<Longrightarrow> \<exists>r tick. t' = k r (t\<lparr>t_tick := tick\<rparr>)"
  unfolding wait_for_metrics_def by (drule loop_stage_None) auto

text \<open>The commands and the pipes between two moments.\<close>

definition wire :: "trial \<Rightarrow> command list list \<times> pipe list" where
  "wire t = (t_sent t, t_pipes t)"

lemma final_metrics_None: "final_metrics fuel su t = Some (t', None) \<Longrightarrow> wire t' = wire t"
  by (auto simp: final_metrics_def Let_def wire_def dest!: wait_for_metrics_None split: if_splits)

lemma setup_workers_None:
  assumes "setup_workers su conns t = Some (t', None)"
  obtains ms1 ps ms2 where "t_sent t' = map (\<lambda>s. s @ [SetupComplete]) (t_sent t)"
    "took ''connected'' (t_pipes t) ms1 ps" "took ''ready'' ps ms2 (t_pipes t')"
proof -
  obtain t1 t2 q where q: "receive_all su ''connected'' (py_max (Fin 20) q) (\<lambda>ms t. Inr (t\<lparr>t_worker_setup := affinities ms\<rparr>)) t = Inr t1"
    and s: "send_all_workers su SetupComplete t1 = Some (t2, None)"
    and r: "receive_all su ''ready'' (Fin 10) (\<lambda>ms t. Inr t) t2 = Inr t'"
    using assms by (auto simp: setup_workers_def after_None stage_of_None exn_simps)
  from q obtain ms1 ps tick where c: "took ''connected'' (t_pipes t) ms1 ps"
    "t1 = t\<lparr>t_tick := tick, t_pipes := ps, t_worker_setup := affinities ms1\<rparr>" by (auto elim!: receive_all_took)
  from r obtain ms2 ps2 tick2 where "took ''ready'' (t_pipes t2) ms2 ps2" "t' = t2\<lparr>t_tick := tick2, t_pipes := ps2\<rparr>"
    by (auto elim!: receive_all_took)
  then show thesis using that[of ms1 ps ms2] c send_all_workers_None[OF s] by simp
qed

lemma warm_up_None:
  assumes "warm_up su a workload conns active run t = Some (t', None)"
  obtains (skipped) "wire t' = wire t"
  | (warm) ph ms where "t_sent t' = map (\<lambda>s. s @ [RunPhase ph]) (t_sent t)" "took ''result'' (t_pipes t) ms (t_pipes t')"
proof (cases "arg_warmup a = Fin 0")
  case True
  then show ?thesis using assms skipped by (simp add: warm_up_def)
next
  case False
  obtain ph t1 t2 timeout where s: "send_all_workers su (RunPhase ph) t1 = Some (t2, None)" "wire t1 = wire t"
    and r: "receive_all su ''result'' timeout (\<lambda>ms. check_warmup su (states_of ms)) t2 = Inr t'"
    using assms False
    by (auto simp: warm_up_def with_phase_def run_worker_phase_def after_None stage_of_None wire_def split: sum.splits)
  from r obtain ms ps tick where "took ''result'' (t_pipes t2) ms ps" "t' = t2\<lparr>t_tick := tick, t_pipes := ps\<rparr>"
    by (auto elim!: receive_all_took dest!: check_warmup_Inr)
  then show ?thesis using warm[of ph ms] send_all_workers_None[OF s(1)] s(2) by (simp add: wire_def)
qed

lemma measure_phase_None:
  assumes "measure_phase fuel su a ph t = Some (t', None)"
  obtains ms where "t_sent t' = map (\<lambda>s. s @ [RunPhase ph]) (t_sent t)" "took ''result'' (t_pipes t) ms (t_pipes t')"
    "t_state t' = merge_states (sum_floats su) (states_of ms)"
proof -
  obtain t1 t2 t3 t4 t5 t6 where s: "send_all_workers su (RunPhase ph) t = Some (t1, None)"
    and w: "loop_stage fuel (await_start su (ph_start_ns ph)) (\<lambda>_ t. t) t1 = Some (t2, None)"
    and c: "read_server_cpu su (\<lambda>c t. t\<lparr>t_cpu_start := c\<rparr>) t2 = Some (t3, None)"
    and d: "loop_stage fuel (watch_server su (ph_deadline_ns ph)) (\<lambda>crashed t. t\<lparr>t_server_crashed := crashed\<rparr>) t3 = Some (t4, None)"
    and e: "read_server_cpu su (\<lambda>c t. t\<lparr>t_cpu_end := c\<rparr>) t4 = Some (t5, None)"
    and f: "final_metrics fuel su t5 = Some (t6, None)"
    and r: "receive_all su ''result'' (fadd (arg_drain a) (Fin 10))
      (\<lambda>ms t. Inr (t\<lparr>t_state := merge_states (sum_floats su) (states_of ms)\<rparr>)) t6 = Inr t'"
    using assms by (auto simp: measure_phase_def after_None stage_of_None)
  have "wire t2 = wire t1" using loop_stage_None[OF w] by (auto simp: wire_def)
  moreover have "wire t3 = wire t2" using c by (auto simp: wire_def read_server_cpu_def assign_def)
  moreover have "wire t4 = wire t3" using loop_stage_None[OF d] by (auto simp: wire_def)
  moreover have "wire t5 = wire t4" using e by (auto simp: wire_def read_server_cpu_def assign_def)
  ultimately have "wire t6 = wire t1" using final_metrics_None[OF f] by simp
  moreover from r obtain ms ps tick where "took ''result'' (t_pipes t6) ms ps"
    "t' = t6\<lparr>t_tick := tick, t_pipes := ps, t_state := merge_states (sum_floats su) (states_of ms)\<rparr>"
    by (auto elim!: receive_all_took)
  ultimately show thesis using that[of ms] send_all_workers_None[OF s] by (simp add: wire_def)
qed

section \<open>The account of the whole trial\<close>

lemma merged_sum:
  assumes "key \<in> set summed_ints" "key \<noteq> ''offered''" "key \<noteq> ''completed''"
  shows "counter (merge_states fsum (map dict_of sts)) key = (\<Sum>st\<leftarrow>sts. the (d_ints (dict_of st) key))"
  using merged_counter[OF assms, of fsum "map dict_of sts"]
  by (simp add: counter_def order_states_dicts sum_key_def comp_def)

lemma merged_sums:
  "counter (merge_states fsum (map dict_of sts)) ''offered_operations'' = (\<Sum>st\<leftarrow>sts. offered_operations st)"
  "counter (merge_states fsum (map dict_of sts)) ''sent_operations'' = (\<Sum>st\<leftarrow>sts. sent_operations st)"
  "counter (merge_states fsum (map dict_of sts)) ''missed_offers'' = (\<Sum>st\<leftarrow>sts. missed_offers st)"
  "counter (merge_states fsum (map dict_of sts)) ''completed_by_deadline'' = (\<Sum>st\<leftarrow>sts. completed_by_deadline st)"
  "counter (merge_states fsum (map dict_of sts)) ''eventual_completions'' = (\<Sum>st\<leftarrow>sts. eventual_completions st)"
  by (simp_all add: merged_sum summed_ints_def) (simp_all add: dict_of_def)

text \<open>The sums of consistent answers are consistent.\<close>

lemma answers_total:
  assumes "list_all2 (\<lambda>(wid, clients) st. answered clients ph st) workers sts"
    "to_py_int (fmul (ph_rate ph) (ph_duration ph)) = Inr target"
  shows "(\<Sum>st\<leftarrow>sts. offered_operations st) = (\<Sum>st\<leftarrow>sts. sent_operations st) + (\<Sum>st\<leftarrow>sts. missed_offers st) \<and>
    0 \<le> (\<Sum>st\<leftarrow>sts. sent_operations st) \<and> 0 \<le> (\<Sum>st\<leftarrow>sts. missed_offers st) \<and>
    0 \<le> (\<Sum>st\<leftarrow>sts. completed_by_deadline st) \<and>
    (\<Sum>st\<leftarrow>sts. completed_by_deadline st) \<le> (\<Sum>st\<leftarrow>sts. eventual_completions st) \<and>
    (ph_workload ph = ''direct'' \<longrightarrow> (\<Sum>st\<leftarrow>sts. eventual_completions st) \<le> (\<Sum>st\<leftarrow>sts. sent_operations st)) \<and>
    (\<exists>late. (\<forall>x\<in>set late. ph_deadline_ns ph \<le> scheduled_ns x) \<and>
       (\<Sum>st\<leftarrow>sts. offered_operations st) + (\<Sum>x\<leftarrow>late. offers_from ph target (sequence x)) =
         (\<Sum>c\<leftarrow>map snd workers. offers_due ph target c))"
  using assms(1)
proof (induction workers sts rule: list_all2_induct)
  case Nil
  show ?case by (auto intro: exI[of _ "[]"])
next
  case (Cons w workers st sts)
  have a: "answered (snd w) ph st" using Cons.hyps(1) by (simp split: prod.splits)
  then obtain late1 where l1: "\<forall>x\<in>set late1. ph_deadline_ns ph \<le> scheduled_ns x"
    "offered_operations st + (\<Sum>x\<leftarrow>late1. offers_from ph target (sequence x)) = offers_due ph target (snd w)"
    using assms(2) by (auto simp: answered_def)
  obtain late where l: "\<forall>x\<in>set late. ph_deadline_ns ph \<le> scheduled_ns x"
    "(\<Sum>st\<leftarrow>sts. offered_operations st) + (\<Sum>x\<leftarrow>late. offers_from ph target (sequence x)) =
         (\<Sum>c\<leftarrow>map snd workers. offers_due ph target c)" using Cons.IH by blast
  have "\<exists>late. (\<forall>x\<in>set late. ph_deadline_ns ph \<le> scheduled_ns x) \<and>
       (\<Sum>st\<leftarrow>st # sts. offered_operations st) + (\<Sum>x\<leftarrow>late. offers_from ph target (sequence x)) =
         (\<Sum>c\<leftarrow>map snd (w # workers). offers_due ph target c)"
    using l1 l by (intro exI[of _ "late1 @ late"]) auto
  then show ?case using Cons.IH a by (auto simp: answered_def tally_ok_def)
qed

lemma upto_upt: "[0..int n - 1] = map int [0..<n]"
  by (rule nth_equalityI) (simp_all add: nth_upto)

lemma partitions_due:
  assumes "phase_of_trial workload conns active ph" "1 \<le> arg_workers a" "1 \<le> active" "active \<le> conns"
  shows "(\<Sum>c\<leftarrow>trial_partitions a conns. offers_due ph target c) = max 0 target" "trial_partitions a conns \<noteq> []"
proof -
  have w: "0 < worker_count a conns" using assms(2-4) by (simp add: worker_count_def)
  have "offers_due ph target (concat (trial_partitions a conns)) = offers_due ph target [0..conns - 1]"
    unfolding trial_partitions_def by (rule offers_due_mset[OF mset_partition_clients[OF w]])
  also have "\<dots> = offers_due ph target (map int [0..<nat conns])" using upto_upt[of "nat conns"] assms(3,4) by simp
  also have "\<dots> = max 0 target"
    using assms by (intro offers_due_total[where n = "nat active"]) (simp_all add: phase_of_trial_def)
  finally show "(\<Sum>c\<leftarrow>trial_partitions a conns. offers_due ph target c) = max 0 target" by (simp add: offers_due_concat)
  show "trial_partitions a conns \<noteq> []" using w by (simp add: trial_partitions_def partition_clients_def)
qed

lemma trial_body_None:
  assumes "trial_body fuel su a workload conns active run (start_trial pipes) = Some (t, None)"
    "\<forall>s\<in>set (t_sent t). s = SetupComplete # map RunPhase phases" "workers \<noteq> []" "talking repr phases Connecting workers pipes"
  obtains ph sts where "phases \<noteq> []" "last phases = ph" "phase_of_trial workload conns active ph"
    "ph_rate ph = arg_rate a" "ph_duration ph = arg_duration a"
    "list_all2 (\<lambda>(wid, clients) st. answered clients ph st) workers sts"
    "t_state t = merge_states (sum_floats su) (map dict_of sts)"
proof -
  obtain t1 t2 t3 t4 where s: "setup_workers su conns (start_trial pipes) = Some (t1, None)"
    and w: "warm_up su a workload conns active run t1 = Some (t2, None)"
    and p: "launch_profiler su a t2 = Inr t3"
    and m: "wait_for_metrics fuel su 1 (\<lambda>_ t. t) t3 = Some (t4, None)"
    and d: "with_phase su a workload conns active (arg_duration a) (phase_token conns active run)
      (measure_phase fuel su a) t4 = Some (t, None)"
    using assms(1) by (auto simp: trial_body_def after_None stage_of_None)
  obtain ph now where ph: "phase_config a workload conns active (arg_duration a) (phase_token conns active run) now = Inr ph"
    and d': "measure_phase fuel su a ph (t4\<lparr>t_tick := Suc (t_tick t4)\<rparr>) = Some (t, None)"
    using d by (auto simp: with_phase_def split: sum.splits)
  have same: "t_sent t4 = t_sent t2" "t_pipes t4 = t_pipes t2"
    using launch_profiler_Inr[OF p] wait_for_metrics_None[OF m] by auto
  obtain ms where e: "t_sent t = map (\<lambda>s. s @ [RunPhase ph]) (t_sent t2)" "took ''result'' (t_pipes t2) ms (t_pipes t)"
    "t_state t = merge_states (sum_floats su) (states_of ms)"
    using measure_phase_None[OF d'] same by auto
  have talk1: "talking repr phases (Serving phases) workers (t_pipes t1)" and sent1: "t_sent t1 = map (\<lambda>p. [SetupComplete]) pipes"
    using setup_workers_None[OF s] assms(4) talking_connected talking_ready
    by (metis start_trial_def trial.select_convs(2), simp add: start_trial_def comp_def)
  have "pipes \<noteq> []" using assms(3,4) by (auto simp: talking_def)
  have phs: "phases \<noteq> [] \<and> last phases = ph \<and> talking repr phases (Serving [ph]) workers (t_pipes t2)"
    using w
  proof (cases rule: warm_up_None)
    case skipped
    then have "map RunPhase phases = [RunPhase ph]"
      using e(1) assms(2) sent1 \<open>pipes \<noteq> []\<close> by (cases pipes) (auto simp: wire_def)
    then have "phases = [ph]" by (auto simp: map_eq_Cons_conv)
    then show ?thesis using talk1 skipped by (simp add: wire_def)
  next
    case (warm ph0 ms0)
    then have "map RunPhase phases = [RunPhase ph0, RunPhase ph]"
      using e(1) assms(2) sent1 \<open>pipes \<noteq> []\<close> by (cases pipes) auto
    then have phases: "phases = [ph0, ph]" by (auto simp: map_eq_Cons_conv)
    then show ?thesis using talking_result[OF warm(2)] talk1 by simp
  qed
  obtain sts where sts: "ms = map Result sts" "list_all2 (\<lambda>(wid, clients) st. answered clients ph st) workers sts"
    using talking_result[OF e(2)] phs by blast
  have "states_of ms = map dict_of sts" unfolding sts(1) states_of_def by (induction sts) (simp_all add: List.map_filter_def)
  moreover have "ph_rate ph = arg_rate a" "ph_duration ph = arg_duration a"
    using ph by (auto simp: phase_config_def exn_simps)
  ultimately show thesis
    using that[of ph sts] phs sts(2) e(3) phase_config_of_trial[OF ph] by simp
qed


lemma one_done_answered: "answered [i] two_phase (one_done w)" if "i = 0 \<or> i = 1"
proof -
  have "to_py_int (fmul (ph_rate two_phase) (ph_duration two_phase)) = Inr 2" by (simp add: two_phase_def float_simps)
  moreover have "offers_due two_phase 2 [i] = 1"
    using that by (auto simp: offers_due_def first_offers_Cons active_position_def offers_from_def two_phase_def upto.simps)
  ultimately show ?thesis
    by (auto simp: answered_def one_done_def empty_state_def tally_ok_def intro: exI[of _ "[]"])
qed

lemma two_talking: "talking repr [two_phase] Connecting (enumerate 0 (trial_partitions two_args 2)) two_pipes"
proof -
  have p: "trial_partitions two_args 2 = [[0], [1]]"
    by (simp add: trial_partitions_def worker_count_def two_args_def default_args_def partition_clients_def stride_def upt_rec upto.simps)
  have "worker_trace repr [i] w [two_phase] Connecting [Connected w False None, Ready w, Result (one_done w)] (Serving [])"
    if "i = 0 \<or> i = 1" for i w
    using one_done_answered[OF that]
    by (auto intro!: worker_trace.intros worker_step.intros)
  from this[of 0 0] this[of 1 1] show ?thesis
    unfolding p by (auto simp: talking_def two_pipes_def)
qed


end
