(* ===== verification/Sweep_Run.thy ===== *)
theory Sweep_Run
  imports Command_Line Shell_Words
begin

text \<open>
  The sweep of \<^verbatim>\<open>bench/compare.py\<close>: for every trial, group and rate each implementation is run once,
  in an order that alternates between trials, until it fails at a rate; the higher rates of the
  group are then skipped for it. What a started benchmark does is an argument (\<open>se_runner\<close>, which is
  given the number of the command and its words).
\<close>

section \<open>Rows of a result file\<close>

text \<open>A row as \<^verbatim>\<open>csv.DictReader\<close> yields it.\<close>

type_synonym csv_row = "(string \<times> string) list"

definition row_valid :: "csv_row \<Rightarrow> bool" where
  "row_valid row =
     (map lower_char (case map_of row ''valid'' of None \<Rightarrow> [] | Some v \<Rightarrow> v) \<in> {''1'', ''true'', ''yes''})"

section \<open>The loop over trials, groups, rates and implementations\<close>

record bench_outcome =
  bo_returncode :: int
  bo_rows :: "csv_row list option"

record sweep_env =
  se_exe :: string
  se_home :: string
  se_directory :: string
  se_args :: sweep_args
  se_runner :: "nat \<Rightarrow> string list \<Rightarrow> bench_outcome"

record run_record =
  rr_trial :: int
  rr_implementation :: string
  rr_server :: string
  rr_experiment :: string
  rr_workload :: string
  rr_total_connections :: int
  rr_active_connections :: int
  rr_global_rate :: pyfloat
  rr_command :: string
  rr_returncode :: int

record skip_record =
  sk_trial :: int
  sk_implementation :: string
  sk_group :: group
  sk_rate :: pyfloat
  sk_reason :: string

record sweep_state =
  sw_active :: "string set"
  sw_commands :: "run_record list"
  sw_skipped :: "skip_record list"
  sw_paths :: "string list"

definition rate_tag :: "pyfloat \<Rightarrow> string" where
  "rate_tag rate = map (\<lambda>c. if c = CHR ''.'' then CHR ''p'' else c) (show_float rate)"

definition output_name :: "int \<Rightarrow> group \<Rightarrow> pyfloat \<Rightarrow> string \<Rightarrow> string" where
  "output_name trial g rate label =
     ''trial-'' @ pad_zeros 2 (show_int trial) @ ''-'' @ g_experiment g @ ''-t'' @ show_int (g_total g) @
     ''-a'' @ show_int (g_active g) @ ''-r'' @ rate_tag rate @ ''-'' @ label @ ''.csv''"

definition output_path :: "sweep_env \<Rightarrow> int \<Rightarrow> group \<Rightarrow> pyfloat \<Rightarrow> string \<Rightarrow> string" where
  "output_path env trial g rate label = se_directory env @ ''/'' @ output_name trial g rate label"

definition command_of :: "sweep_env \<Rightarrow> int \<Rightarrow> group \<Rightarrow> pyfloat \<Rightarrow> string \<Rightarrow> string list" where
  "command_of env trial g rate label =
     benchmark_command (se_exe env) (se_home env) (se_args env) g rate label (output_path env trial g rate label) trial"

definition skip_entry :: "int \<Rightarrow> group \<Rightarrow> string \<Rightarrow> pyfloat \<Rightarrow> skip_record" where
  "skip_entry trial g label rate =
     \<lparr> sk_trial = trial, sk_implementation = label, sk_group = g, sk_rate = rate,
       sk_reason = ''lower offered rate was invalid'' \<rparr>"

definition run_one :: "sweep_env \<Rightarrow> int \<Rightarrow> group \<Rightarrow> pyfloat \<Rightarrow> string \<Rightarrow> sweep_state \<Rightarrow> py_exn + sweep_state" where
  "run_one env trial g rate label st =
     (if label \<notin> sw_active st
      then Inr (st\<lparr>sw_skipped := sw_skipped st @ [skip_entry trial g label rate]\<rparr>)
      else
        let outcome = se_runner env (length (sw_commands st)) (command_of env trial g rate label);
            st' = st\<lparr>sw_commands := sw_commands st @
              [\<lparr> rr_trial = trial, rr_implementation = label, rr_server = server_binary (se_home env) label,
                 rr_experiment = g_experiment g, rr_workload = g_workload g, rr_total_connections = g_total g,
                 rr_active_connections = g_active g, rr_global_rate = rate,
                 rr_command = shlex_join (command_of env trial g rate label),
                 rr_returncode = bo_returncode outcome \<rparr>]\<rparr>
        in if bo_returncode outcome \<noteq> 0 \<or> bo_rows outcome = None
           then Inr (st'\<lparr>sw_active := sw_active st - {label}\<rparr>)
           else (case the (bo_rows outcome) of
               [] \<Rightarrow> Inl StopIteration
             | row # _ \<Rightarrow> Inr (st'\<lparr>sw_paths := sw_paths st @ [output_path env trial g rate label],
                 sw_active := (if row_valid row then sw_active st else sw_active st - {label})\<rparr>)))"

definition run_rate :: "sweep_env \<Rightarrow> string list \<Rightarrow> int \<Rightarrow> group \<Rightarrow> pyfloat \<Rightarrow> sweep_state \<Rightarrow> py_exn + sweep_state" where
  "run_rate env implementations trial g rate =
     for_each (execution_order implementations trial) (run_one env trial g rate)"

definition run_group :: "sweep_env \<Rightarrow> string list \<Rightarrow> int \<Rightarrow> group \<Rightarrow> sweep_state \<Rightarrow> py_exn + sweep_state" where
  "run_group env implementations trial g st =
     for_each (g_rates g) (run_rate env implementations trial g) (st\<lparr>sw_active := set implementations\<rparr>)"

definition run_sweep :: "sweep_env \<Rightarrow> string list \<Rightarrow> group list \<Rightarrow> py_exn + sweep_state" where
  "run_sweep env implementations groups =
     for_each [1..sa_runs (se_args env)] (\<lambda>trial. for_each groups (run_group env implementations trial))
       \<lparr> sw_active = {}, sw_commands = [], sw_skipped = [], sw_paths = [] \<rparr>"

section \<open>Every pair is run or skipped once\<close>

definition events :: "sweep_state \<Rightarrow> nat" where
  "events st = length (sw_commands st) + length (sw_skipped st)"

lemma run_one_events:
  "run_one env trial g rate label st = Inr st' \<Longrightarrow> events st' = events st + 1 \<and>
    length (sw_paths st') + length (sw_commands st) \<le> length (sw_paths st) + length (sw_commands st')"
  by (auto simp: run_one_def events_def Let_def split: if_splits list.splits)

text \<open>A measure that every round of a loop moves by a known amount.\<close>

lemma for_each_count:
  fixes m :: "'s \<Rightarrow> nat"
  assumes "for_each xs body s = Inr s'" "\<And>x s s'. x \<in> set xs \<Longrightarrow> body x s = Inr s' \<Longrightarrow> m s' = m s + k x"
  shows "m s' = m s + sum_list (map k xs)"
  using assms
proof (induction xs arbitrary: s)
  case (Cons x xs)
  then obtain t where "body x s = Inr t" "for_each xs body t = Inr s'" by (auto simp: exn_simps)
  then show ?case using Cons.IH[of t] Cons.prems(2) by (fastforce simp: add.assoc)
qed simp

lemma execution_order_simps [simp]:
  "length (execution_order xs t) = length xs" "set (execution_order xs t) = set xs"
  "distinct (execution_order xs t) = distinct xs" "mset (execution_order xs t) = mset xs"
  by (simp_all add: execution_order_def)

lemma run_rate_events: "run_rate env impls trial g rate st = Inr st' \<Longrightarrow> events st' = events st + length impls"
  using for_each_count[of "execution_order impls trial" "run_one env trial g rate" st st' events "\<lambda>_. 1"] run_one_events
  by (simp add: run_rate_def sum_list_triv)

lemma run_group_events: "run_group env impls trial g st = Inr st' \<Longrightarrow> events st' = events st + length (g_rates g) * length impls"
  using for_each_count[of "g_rates g" "run_rate env impls trial g" "st\<lparr>sw_active := set impls\<rparr>" st' events "\<lambda>_. length impls"]
    run_rate_events[of env impls trial g]
  by (simp add: run_group_def sum_list_triv events_def)

lemma paths_bounded:
  "length (sw_paths st) \<le> length (sw_commands st) \<Longrightarrow> run_group env impls trial g st = Inr st' \<Longrightarrow>
    length (sw_paths st') \<le> length (sw_commands st')"
  unfolding run_group_def
  by (erule for_each_invariant, simp, unfold run_rate_def, erule for_each_invariant, assumption)
    (use run_one_events in fastforce)


section \<open>The early stop\<close>

text \<open>A run after which the implementation goes on to the next rate.\<close>

definition good_outcome :: "bench_outcome \<Rightarrow> bool" where
  "good_outcome o1 \<longleftrightarrow> bo_returncode o1 = 0 \<and> (\<exists>row rows. bo_rows o1 = Some (row # rows) \<and> row_valid row)"

text \<open>The numbered commands of a sweep so far that ran an implementation, and its skipped rates.\<close>

definition runs_of :: "string \<Rightarrow> sweep_state \<Rightarrow> (nat \<times> run_record) list" where
  "runs_of label st = filter (\<lambda>p. rr_implementation (snd p) = label) (enumerate 0 (sw_commands st))"

definition skips_of :: "string \<Rightarrow> sweep_state \<Rightarrow> skip_record list" where
  "skips_of label st = filter (\<lambda>k. sk_implementation k = label) (sw_skipped st)"

definition went_well :: "sweep_env \<Rightarrow> int \<Rightarrow> group \<Rightarrow> string \<Rightarrow> nat \<times> run_record \<Rightarrow> bool" where
  "went_well env trial g label p \<longleftrightarrow>
     good_outcome (se_runner env (fst p) (command_of env trial g (rr_global_rate (snd p)) label))"

lemma enumerate_snoc: "enumerate n (xs @ [x]) = enumerate n xs @ [(n + length xs, x)]"
  by (simp add: enumerate_append_eq)

lemma runs_of_simps [simp]:
  "runs_of label (st\<lparr>sw_active := A\<rparr>) = runs_of label st" "runs_of label (st\<lparr>sw_skipped := S\<rparr>) = runs_of label st"
  "runs_of label (st\<lparr>sw_paths := P\<rparr>) = runs_of label st"
  "runs_of label (st\<lparr>sw_commands := sw_commands st @ [r]\<rparr>) =
     runs_of label st @ (if rr_implementation r = label then [(length (sw_commands st), r)] else [])"
  "skips_of label (st\<lparr>sw_active := A\<rparr>) = skips_of label st" "skips_of label (st\<lparr>sw_commands := C\<rparr>) = skips_of label st"
  "skips_of label (st\<lparr>sw_paths := P\<rparr>) = skips_of label st"
  "skips_of label (st\<lparr>sw_skipped := sw_skipped st @ [k]\<rparr>) = skips_of label st @ (if sk_implementation k = label then [k] else [])"
  by (simp_all add: runs_of_def skips_of_def enumerate_snoc)

text \<open>What another implementation does leaves this one alone.\<close>

lemma run_one_other:
  assumes "run_one env trial g rate l st = Inr st'" "l \<noteq> label"
  shows "runs_of label st' = runs_of label st \<and> skips_of label st' = skips_of label st \<and>
    (label \<in> sw_active st' \<longleftrightarrow> label \<in> sw_active st)"
  using assms by (auto simp: run_one_def Let_def skip_entry_def split: if_splits list.splits)

text \<open>One round of the implementation itself.\<close>

lemma run_one_self:
  assumes "run_one env trial g rate label st = Inr st'"
  shows "if label \<in> sw_active st
    then \<exists>p. runs_of label st' = runs_of label st @ [p] \<and> rr_global_rate (snd p) = rate \<and> skips_of label st' = skips_of label st \<and>
      (label \<in> sw_active st' \<longleftrightarrow> went_well env trial g label p)
    else runs_of label st' = runs_of label st \<and> skips_of label st' = skips_of label st @ [skip_entry trial g label rate] \<and>
      label \<notin> sw_active st'"
  using assms
  by (auto simp: run_one_def Let_def skip_entry_def went_well_def good_outcome_def split: if_splits list.splits)

lemma run_rate_self:
  assumes "run_rate env impls trial g rate st = Inr st'" "distinct impls" "label \<in> set impls"
  shows "if label \<in> sw_active st
    then \<exists>p. runs_of label st' = runs_of label st @ [p] \<and> rr_global_rate (snd p) = rate \<and> skips_of label st' = skips_of label st \<and>
      (label \<in> sw_active st' \<longleftrightarrow> went_well env trial g label p)
    else runs_of label st' = runs_of label st \<and> skips_of label st' = skips_of label st @ [skip_entry trial g label rate] \<and>
      label \<notin> sw_active st'"
proof -
  have "label \<in> set (execution_order impls trial)" using assms(3) by simp
  then obtain xs ys where split: "execution_order impls trial = xs @ label # ys" by (meson split_list)
  have "distinct (execution_order impls trial)" using assms(2) by simp
  then have other: "label \<notin> set xs" "label \<notin> set ys" unfolding split by auto
  let ?b = "run_one env trial g rate"
  obtain s1 s2 where s: "for_each xs ?b st = Inr s1" "?b label s1 = Inr s2" "for_each ys ?b s2 = Inr st'"
    using assms(1) unfolding run_rate_def split for_each_append by (auto simp: exn_simps)
  have same: "runs_of label t = runs_of label s \<and> skips_of label t = skips_of label s \<and>
      (label \<in> sw_active t \<longleftrightarrow> label \<in> sw_active s)" if "for_each zs ?b s = Inr t" "label \<notin> set zs" for zs s t
    by (rule for_each_invariant[OF that(1)], simp) (metis run_one_other that(2))
  show ?thesis
    using same[OF s(1) other(1)] run_one_self[OF s(2)] same[OF s(3) other(2)] by (simp split: if_splits)
qed

lemma run_rates_prefix:
  assumes "for_each rates (run_rate env impls trial g) st = Inr st'" "distinct impls" "label \<in> set impls"
  shows "\<exists>new. runs_of label st' = runs_of label st @ new \<and>
    map (\<lambda>p. rr_global_rate (snd p)) new = take (length new) rates \<and> length new \<le> length rates \<and>
    skips_of label st' = skips_of label st @ map (skip_entry trial g label) (drop (length new) rates) \<and>
    (\<forall>p\<in>set (butlast new). went_well env trial g label p) \<and>
    (label \<in> sw_active st \<and> length new < length rates \<longrightarrow> new \<noteq> [] \<and> \<not> went_well env trial g label (last new)) \<and>
    (label \<notin> sw_active st \<longrightarrow> new = [])"
  using assms(1)
proof (induction rates arbitrary: st)
  case Nil
  then show ?case by simp
next
  case (Cons r rs)
  then obtain s1 where s1: "run_rate env impls trial g r st = Inr s1" "for_each rs (run_rate env impls trial g) s1 = Inr st'"
    by (auto simp: exn_simps)
  from Cons.IH[OF s1(2)] obtain new where new: "runs_of label st' = runs_of label s1 @ new"
    "map (\<lambda>p. rr_global_rate (snd p)) new = take (length new) rs" "length new \<le> length rs"
    "skips_of label st' = skips_of label s1 @ map (skip_entry trial g label) (drop (length new) rs)"
    "\<forall>p\<in>set (butlast new). went_well env trial g label p"
    "label \<in> sw_active s1 \<and> length new < length rs \<longrightarrow> new \<noteq> [] \<and> \<not> went_well env trial g label (last new)"
    "label \<notin> sw_active s1 \<longrightarrow> new = []" by blast
  show ?case
  proof (cases "label \<in> sw_active st")
    case True
    then obtain p where p: "runs_of label s1 = runs_of label st @ [p]" "rr_global_rate (snd p) = r"
      "skips_of label s1 = skips_of label st" "label \<in> sw_active s1 \<longleftrightarrow> went_well env trial g label p"
      using run_rate_self[OF s1(1) assms(2,3)] by auto
    show ?thesis using new p True by (intro exI[of _ "p # new"]) auto
  next
    case False
    then have p: "runs_of label s1 = runs_of label st" "skips_of label s1 = skips_of label st @ [skip_entry trial g label r]"
      "label \<notin> sw_active s1"
      using run_rate_self[OF s1(1) assms(2,3)] by auto
    show ?thesis using new p False by (intro exI[of _ "[]"]) auto
  qed
qed

text \<open>C34: within a group of a trial every implementation is run at the first rates of the group, in
  order, up to and including the first at which it fails (a nonzero exit, no result file, or a row
  that is not valid), and is skipped at all the others, whatever the other implementations do.\<close>

theorem run_group_early_stop:
  assumes "run_group env implementations trial g st = Inr st'" "distinct implementations" "label \<in> set implementations"
  shows "\<exists>new. runs_of label st' = runs_of label st @ new \<and>
    map (\<lambda>p. rr_global_rate (snd p)) new = take (length new) (g_rates g) \<and>
    skips_of label st' = skips_of label st @ map (skip_entry trial g label) (drop (length new) (g_rates g)) \<and>
    (\<forall>p\<in>set (butlast new). went_well env trial g label p) \<and>
    (length new < length (g_rates g) \<longrightarrow> new \<noteq> [] \<and> \<not> went_well env trial g label (last new))"
  using run_rates_prefix[OF assms(1)[unfolded run_group_def] assms(2,3)] assms(3) by auto

text \<open>A sweep whose second command fails.\<close>

definition failing_env :: sweep_env where
  "failing_env =
     \<lparr> se_exe = ''python'', se_home = ''/r'', se_directory = ''/d'', se_args = small_sweep,
       se_runner = (\<lambda>n words. if n = 1 then \<lparr> bo_returncode = 1, bo_rows = None \<rparr>
         else \<lparr> bo_returncode = 0, bo_rows = Some [[(''valid'', ''True'')]] \<rparr>) \<rparr>"

lemma failing_simps:
  "se_runner failing_env 0 ws = \<lparr> bo_returncode = 0, bo_rows = Some [[(''valid'', ''True'')]] \<rparr>"
  "se_runner failing_env (Suc 0) ws = \<lparr> bo_returncode = 1, bo_rows = None \<rparr>"
  "se_runner failing_env (Suc (Suc n)) ws = \<lparr> bo_returncode = 0, bo_rows = Some [[(''valid'', ''True'')]] \<rparr>"
  by (simp_all add: failing_env_def)

lemma true_is_valid: "row_valid [(''valid'', ''True'')]"
  by (simp add: row_valid_def lower_char_def char_of_def bit_0)

definition idle_state :: sweep_state where
  "idle_state = \<lparr> sw_active = {}, sw_commands = [], sw_skipped = [], sw_paths = [] \<rparr>"

lemma failing_group:
  "\<exists>st. run_group failing_env [''poll'', ''epoll''] 1 (small_groups ! 1) idle_state = Inr st \<and> length (sw_commands st) = 3 \<and>
    runs_of ''epoll'' st \<noteq> [] \<and> length (runs_of ''epoll'' st) = 1 \<and> length (sw_skipped st) = 1"
  by (simp add: run_group_def run_rate_def run_one_def idle_state_def small_groups_def execution_order_def failing_simps
      true_is_valid Let_def runs_of_def skip_entry_def numeral_eq_Suc)

theorem run_group_early_stop_witness:
  "\<exists>st new. run_group failing_env [''poll'', ''epoll''] 1 (small_groups ! 1) idle_state = Inr st \<and>
    runs_of ''epoll'' st = new \<and> map (\<lambda>p. rr_global_rate (snd p)) new = [Fin 5] \<and>
    \<not> went_well failing_env 1 (small_groups ! 1) ''epoll'' (last new) \<and>
    skips_of ''epoll'' st = [skip_entry 1 (small_groups ! 1) ''epoll'' (Fin 7)]"
proof -
  obtain st where st: "run_group failing_env [''poll'', ''epoll''] 1 (small_groups ! 1) idle_state = Inr st"
    "length (runs_of ''epoll'' st) = 1" using failing_group by blast
  have "distinct [''poll'', ''epoll'']" "''epoll'' \<in> set [''poll'', ''epoll'']" by simp_all
  from run_group_early_stop[OF st(1) this] obtain new where new: "runs_of ''epoll'' st = runs_of ''epoll'' idle_state @ new"
    "map (\<lambda>p. rr_global_rate (snd p)) new = take (length new) (g_rates (small_groups ! 1))"
    "skips_of ''epoll'' st = skips_of ''epoll'' idle_state @
      map (skip_entry 1 (small_groups ! 1) ''epoll'') (drop (length new) (g_rates (small_groups ! 1)))"
    "length new < length (g_rates (small_groups ! 1)) \<longrightarrow>
      new \<noteq> [] \<and> \<not> went_well failing_env 1 (small_groups ! 1) ''epoll'' (last new)" by blast
  have none: "runs_of ''epoll'' idle_state = []" "skips_of ''epoll'' idle_state = []"
    by (simp_all add: idle_state_def runs_of_def skips_of_def)
  have rates: "g_rates (small_groups ! 1) = [Fin 5, Fin 7]" by (simp add: small_groups_def)
  have "length new = 1" using st(2) new(1) none by simp
  then show ?thesis using st(1) new none rates by (intro exI[of _ st] exI[of _ new]) simp
qed

lemma failing_sweep: "\<exists>st. run_sweep failing_env [''poll'', ''epoll''] small_groups = Inr st \<and> sw_commands st \<noteq> []"
  by (simp add: run_sweep_def run_group_def run_rate_def run_one_def small_groups_def execution_order_def failing_simps
      true_is_valid Let_def failing_env_def[THEN arg_cong[where f = se_args]] small_sweep_def default_sweep_def upto.simps)


section \<open>Result files do not collide\<close>

lemma show_int_nonneg: "0 \<le> n \<Longrightarrow> show_int n = show_nat (nat n)"
  by (simp add: show_int_def)

lemma no_minus_digits: "CHR ''-'' \<notin> set (show_nat n)"
  using show_nat_digits[of "CHR ''-''" n] by (auto simp: is_digit_char_def)

lemma pad_zeros_inject: "pad_zeros k (show_nat m) = pad_zeros k (show_nat n) \<Longrightarrow> m = n"
  by (drule arg_cong[where f = read_digits]) (simp add: pad_zeros_def read_digits_append)

lemma no_minus_pad: "CHR ''-'' \<notin> set (pad_zeros k (show_nat n))"
  using no_minus_digits by (auto simp: pad_zeros_def)

lemma rate_tag_inject:
  assumes "is_float r" "is_float r'" "rate_tag r = rate_tag r'"
  shows "r = r'"
proof -
  have undo: "map (\<lambda>c. if c = CHR ''p'' then CHR ''.'' else c) (rate_tag x) = show_float x" if "is_float x" for x
  proof -
    have "c \<noteq> CHR ''p''" if "c \<in> set (show_float x)" for c
    proof -
      have "number_char c \<or> c \<in> set ''infa''" using show_float_chars[OF \<open>is_float x\<close>] that unfolding list_all_iff by (rule bspec)
      then show ?thesis by (auto simp: number_char_def is_digit_char_def)
    qed
    then have "map ((\<lambda>c. if c = CHR ''p'' then CHR ''.'' else c) \<circ> (\<lambda>c. if c = CHR ''.'' then CHR ''p'' else c)) (show_float x) = show_float x"
      by (intro map_idI) simp
    then show ?thesis by (simp only: rate_tag_def list.map_comp)
  qed
  have "show_float r = show_float r'"
    unfolding undo[OF assms(1), symmetric] undo[OF assms(2), symmetric] by (simp only: assms(3))
  then show ?thesis using float_text_roundtrip[OF assms(1)] float_text_roundtrip[OF assms(2)] by (metis option.inject)
qed



end
