(* ===== verification/Sweep_Summary.thy ===== *)
theory Sweep_Summary
  imports Sweep_Run Statistics "HOL-Library.Product_Lexorder" "HOL-Library.List_Lexorder" "HOL-Library.Char_ord"
begin

text \<open>
  What a sweep reports (\<^verbatim>\<open>combine_csvs\<close> and \<^verbatim>\<open>write_summaries\<close> of \<^verbatim>\<open>bench/compare.py\<close>): one table of
  all rows, the medians of the valid trials of every configuration, and the highest rate that an
  implementation sustained.
\<close>

section \<open>One table of all files\<close>

definition add_field :: "string list \<Rightarrow> string \<Rightarrow> string list" where
  "add_field cols f = (if f \<in> set cols then cols else cols @ [f])"

definition fields_of :: "csv_row list \<Rightarrow> string list" where
  "fields_of rows = foldl (\<lambda>cols row. foldl add_field cols (map fst row)) [] rows"

text \<open>
  A table as it is written: its header and the cells of each row, empty where the row lacks a field.
  No file is written when there are no rows.
\<close>

definition table_cells :: "string list \<Rightarrow> csv_row \<Rightarrow> string list" where
  "table_cells cols row = map (\<lambda>f. case map_of row f of None \<Rightarrow> [] | Some v \<Rightarrow> v) cols"

definition combine_csvs :: "(string \<Rightarrow> csv_row list) \<Rightarrow> string list \<Rightarrow> csv_row list \<times> (string list \<times> string list list) option" where
  "combine_csvs content paths =
     (let rows = concat (map content paths); cols = fields_of rows
      in (rows, if rows = [] then None else Some (cols, map (table_cells cols) rows)))"

lemma add_fields: "distinct cols \<Longrightarrow> distinct (foldl add_field cols fs) \<and> set (foldl add_field cols fs) = set cols \<union> set fs"
  by (induction fs arbitrary: cols) (auto simp: add_field_def)

lemma fields_of_snoc: "fields_of (rows @ [row]) = foldl add_field (fields_of rows) (map fst row)"
  by (simp add: fields_of_def)

lemma fields_of_correct: "distinct (fields_of rows) \<and> set (fields_of rows) = (\<Union>row\<in>set rows. fst ` set row)"
proof (induction rows rule: rev_induct)
  case (snoc row rows)
  then show ?case using add_fields[of "fields_of rows" "map fst row"] by (auto simp: fields_of_snoc)
qed (simp add: fields_of_def)

lemma map_of_zip_map: "k \<in> set ks \<Longrightarrow> map_of (zip ks (map f ks)) k = Some (f k)"
  by (induction ks) auto

text \<open>C36: the combined table keeps every cell of every result file: its columns are the fields of all
  files, each once, and reading a written row back under them gives the value of every field the row
  had, even when the files differ in their columns.\<close>

theorem combine_csvs_lossless:
  assumes "combine_csvs content paths = (rows, Some (cols, cells))"
  shows "rows = concat (map content paths) \<and> distinct cols \<and> length cells = length rows \<and>
    (\<forall>i<length rows. \<forall>f v. map_of (rows ! i) f = Some v \<longrightarrow> map_of (zip cols (cells ! i)) f = Some v)"
proof -
  have r: "rows = concat (map content paths)" "cols = fields_of rows" "cells = map (table_cells cols) rows"
    using assms by (auto simp: combine_csvs_def Let_def split: if_splits)
  have "map_of (zip cols (cells ! i)) f = Some v" if i: "i < length rows" and f: "map_of (rows ! i) f = Some v" for i f v
  proof -
    have "f \<in> fst ` set (rows ! i)" using f by (metis domI dom_map_of_conv_image_fst)
    then have "f \<in> set cols" using fields_of_correct[of rows] i r(2) by (metis UN_I nth_mem)
    then show ?thesis using f i by (simp add: r(3) table_cells_def map_of_zip_map)
  qed
  then show ?thesis using r fields_of_correct[of rows] by simp
qed

definition two_files :: "string \<Rightarrow> csv_row list" where
  "two_files path = (if path = ''a'' then [[(''x'', ''1'')]] else [[(''y'', ''2'')]])"

theorem combine_csvs_lossless_witness:
  "\<exists>rows cols cells. combine_csvs two_files [''a'', ''b''] = (rows, Some (cols, cells)) \<and>
    cols = [''x'', ''y''] \<and> map_of (zip cols (cells ! 1)) ''y'' = Some ''2''"
proof -
  have c: "combine_csvs two_files [''a'', ''b''] = ([[(''x'', ''1'')], [(''y'', ''2'')]], Some ([''x'', ''y''], [[''1'', []], [[], ''2'']]))"
    by (simp add: combine_csvs_def two_files_def fields_of_def add_field_def table_cells_def)
  have "map_of (zip [''x'', ''y''] ([[''1'', []], [[], ''2'']] ! 1)) ''y'' = Some ''2''"
    using combine_csvs_lossless[OF c] by (metis (no_types, lifting) One_nat_def length_Cons lessI list.size(3) map_of_Cons_code(2) nth_Cons_0 nth_Cons_Suc)
  then show ?thesis using c by blast
qed

section \<open>Values of a row\<close>

definition number :: "csv_row \<Rightarrow> string \<Rightarrow> pyfloat option" where
  "number row f =
     (case map_of row f of None \<Rightarrow> None | Some v \<Rightarrow> if v = [] \<or> v = ''None'' then None else py_float_text v)"

definition text_field :: "csv_row \<Rightarrow> string \<Rightarrow> py_exn + string" where
  "text_field row f = (case map_of row f of None \<Rightarrow> Inl KeyError | Some v \<Rightarrow> Inr v)"

definition cast_field :: "(string \<Rightarrow> 'a option) \<Rightarrow> csv_row \<Rightarrow> string \<Rightarrow> py_exn + 'a" where
  "cast_field cast row f =
     seq (text_field row f) (\<lambda>v. case cast v of None \<Rightarrow> Inl ValueError | Some x \<Rightarrow> Inr x)"

type_synonym config_key = "string \<times> string \<times> int"

text \<open>Experiment, label and total connections of a row.\<close>

definition config_of :: "csv_row \<Rightarrow> py_exn + config_key" where
  "config_of row =
     seq (text_field row ''experiment'') (\<lambda>e. seq (text_field row ''label'') (\<lambda>l.
     seq (cast_field py_int row ''total_connections'') (\<lambda>t. Inr (e, l, t))))"

definition rate_of :: "csv_row \<Rightarrow> py_exn + pyfloat" where
  "rate_of row = cast_field py_float_text row ''global_offered_rate_s''"

section \<open>Headline medians\<close>

definition MEDIAN_FIELDS :: "string list" where
  "MEDIAN_FIELDS =
     [''offered_msg_s'', ''completed_by_deadline_msg_s'', ''inbound_messages_s'',
      ''outbound_deliveries_s'', ''per_socket_receive_rate_s'', ''delivery_ratio'',
      ''deadline_completion_ratio'', ''p50_ms'', ''p95_ms'', ''p99_ms'',
      ''server_cpu_percent'', ''generator_cpu_percent'', ''cpu_per_completed_request_us'',
      ''scheduling_lag_p95_ms'', ''scheduling_lag_p99_ms'', ''max_read_service_gap_ms'',
      ''wait_calls'', ''total_events'', ''events_per_wait_p50'', ''events_per_wait_p95'',
      ''events_per_wait_max'', ''full_event_batches'', ''epoll_ctl_add'', ''epoll_ctl_mod'',
      ''epoll_ctl_del'', ''immediate_write_successes'', ''partial_writes'', ''send_calls'',
      ''recv_calls'', ''send_eagain'', ''recv_eagain'', ''bytes_read'', ''bytes_written'',
      ''queue_high_water_bytes'', ''queue_high_water_messages'']"

type_synonym headline_key = "string \<times> string \<times> int \<times> int \<times> pyfloat"

record headline =
  hl_key :: headline_key
  hl_valid_trials :: nat
  hl_required_trials :: int
  hl_medians :: "(string \<times> pyfloat option) list"

definition headline_key_of :: "csv_row \<Rightarrow> py_exn + headline_key" where
  "headline_key_of row =
     seq (config_of row) (\<lambda>(e, l, t). seq (cast_field py_int row ''active_connections'') (\<lambda>n.
     seq (rate_of row) (\<lambda>r. Inr (e, l, t, n, r))))"

text \<open>\<^verbatim>\<open>statistics.median\<close> of floats that need not be finite.\<close>

definition median_floats :: "pyfloat list \<Rightarrow> py_exn + pyfloat" where
  "median_floats data =
     (let xs = sort data; n = length xs
      in if n = 0 then Inl ValueError
         else if odd n then Inr (xs ! (n div 2))
         else fdiv (fadd (xs ! (n div 2 - 1)) (xs ! (n div 2))) (Fin 2))"

definition median_of :: "csv_row list \<Rightarrow> string \<Rightarrow> py_exn + pyfloat option" where
  "median_of rows f =
     (let values = List.map_filter (\<lambda>row. number row f) rows
      in if values = [] then Inr None else seq (median_floats values) (\<lambda>m. Inr (Some m)))"

fun medians_of :: "csv_row list \<Rightarrow> string list \<Rightarrow> py_exn + (string \<times> pyfloat option) list" where
  "medians_of rows [] = Inr []"
| "medians_of rows (f # fs) =
     seq (median_of rows f) (\<lambda>m. seq (medians_of rows fs) (\<lambda>ms. Inr ((''median_'' @ f, m) # ms)))"

text \<open>The valid rows under their keys, and the others.\<close>

definition split_row :: "csv_row \<Rightarrow> (headline_key \<times> csv_row list) list \<times> csv_row list \<Rightarrow>
    py_exn + (headline_key \<times> csv_row list) list \<times> csv_row list" where
  "split_row row s =
     (if \<not> row_valid row then Inr (fst s, snd s @ [row])
      else seq (headline_key_of row) (\<lambda>k. Inr (add_to_group k row (fst s), snd s)))"

definition headline_of :: "int \<Rightarrow> headline_key \<times> csv_row list \<Rightarrow> py_exn + headline" where
  "headline_of runs g =
     seq (medians_of (snd g) MEDIAN_FIELDS) (\<lambda>ms.
       Inr \<lparr> hl_key = fst g, hl_valid_trials = length (snd g), hl_required_trials = runs, hl_medians = ms \<rparr>)"

section \<open>Highest sustainable rate\<close>

text \<open>Python's \<^verbatim>\<open>max\<close> of a list that is not empty.\<close>

definition max_of :: "pyfloat list \<Rightarrow> pyfloat option" where
  "max_of xs = (case xs of [] \<Rightarrow> None | x # ys \<Rightarrow> Some (foldl py_max x ys))"

definition rates_at :: "csv_row list \<Rightarrow> config_key \<Rightarrow> py_exn + pyfloat list" where
  "rates_at rows k =
     collect rows (\<lambda>row. seq (config_of row) (\<lambda>k'. if k' = k then seq (rate_of row) (\<lambda>r. Inr [r]) else Inr []))"

definition rows_at :: "csv_row list \<Rightarrow> config_key \<Rightarrow> pyfloat \<Rightarrow> py_exn + csv_row list" where
  "rows_at rows k rate =
     collect rows (\<lambda>row. seq (config_of row) (\<lambda>k'. seq (rate_of row) (\<lambda>r. Inr (if (k', r) = (k, rate) then [row] else []))))"

definition candidates :: "csv_row list \<Rightarrow> int \<Rightarrow> config_key \<Rightarrow> py_exn + pyfloat list" where
  "candidates rows runs k =
     seq (rates_at rows k) (\<lambda>rates.
       collect (remdups rates) (\<lambda>rate.
         seq (rows_at rows k rate) (\<lambda>rs.
           Inr (if int (length rs) = runs \<and> list_all row_valid rs then [rate] else []))))"

definition highest_of :: "csv_row list \<Rightarrow> int \<Rightarrow> config_key \<Rightarrow> py_exn + (config_key \<times> pyfloat option) list" where
  "highest_of rows runs k =
     (if fst k \<notin> {''dense'', ''broadcast''} then Inr []
      else seq (candidates rows runs k) (\<lambda>cs. Inr [(k, max_of cs)]))"

record summary =
  su_headlines :: "headline list"
  su_invalid_rows :: "csv_row list"
  su_valid_trials :: nat
  su_invalid_trials :: nat
  su_highest_sustainable :: "(config_key \<times> pyfloat option) list"

definition write_summaries :: "csv_row list \<Rightarrow> int \<Rightarrow> py_exn + summary" where
  "write_summaries rows runs =
     seq (for_each rows split_row ([], [])) (\<lambda>(grouped, invalid).
     seq (collect (sort_key fst grouped) (\<lambda>g. seq (headline_of runs g) (\<lambda>h. Inr [h]))) (\<lambda>headlines.
     seq (collect rows (\<lambda>row. seq (config_of row) (\<lambda>k. Inr [k]))) (\<lambda>keys.
     seq (collect (sort (remdups keys)) (highest_of rows runs)) (\<lambda>highest.
       Inr \<lparr> su_headlines = headlines, su_invalid_rows = invalid,
         su_valid_trials = length (filter row_valid rows), su_invalid_trials = length invalid,
         su_highest_sustainable = highest \<rparr>))))"

section \<open>What the summary says\<close>

text \<open>A rate of a configuration at which every trial was run and valid.\<close>

definition rows_with :: "csv_row list \<Rightarrow> config_key \<Rightarrow> pyfloat \<Rightarrow> csv_row list" where
  "rows_with rows k r = filter (\<lambda>row. config_of row = Inr k \<and> rate_of row = Inr r) rows"

definition sustained :: "csv_row list \<Rightarrow> int \<Rightarrow> config_key \<Rightarrow> pyfloat \<Rightarrow> bool" where
  "sustained rows runs k r \<longleftrightarrow>
     rows_with rows k r \<noteq> [] \<and> int (length (rows_with rows k r)) = runs \<and> list_all row_valid (rows_with rows k r)"

lemma collect_Cons_Inr: "collect (x # xs) f = Inr ys \<longleftrightarrow> (\<exists>as bs. f x = Inr as \<and> collect xs f = Inr bs \<and> ys = as @ bs)"
  by (auto simp: exn_simps)

lemma rows_at_eq: "rows_at rows k r = Inr rs \<Longrightarrow> rs = rows_with rows k r"
proof (induction rows arbitrary: rs)
  case Nil
  then show ?case by (simp add: rows_at_def rows_with_def)
next
  case (Cons row rows)
  then obtain as bs where ab: "seq (config_of row) (\<lambda>k'. seq (rate_of row) (\<lambda>r'. Inr (if (k', r') = (k, r) then [row] else []))) = Inr as"
    "rows_at rows k r = Inr bs" "rs = as @ bs"
    unfolding rows_at_def collect_Cons_Inr by blast
  then show ?case using Cons.IH by (auto simp: rows_with_def exn_simps split: if_splits)
qed

lemma rates_at_set: "rates_at rows k = Inr rates \<Longrightarrow> r \<in> set rates \<longleftrightarrow> rows_with rows k r \<noteq> []"
proof (induction rows arbitrary: rates)
  case Nil
  then show ?case by (simp add: rates_at_def rows_with_def)
next
  case (Cons row rows)
  then obtain as bs where ab: "seq (config_of row) (\<lambda>k'. if k' = k then seq (rate_of row) (\<lambda>r. Inr [r]) else Inr []) = Inr as"
    "rates_at rows k = Inr bs" "rates = as @ bs"
    unfolding rates_at_def collect_Cons_Inr by blast
  then show ?case using Cons.IH by (auto simp: rows_with_def exn_simps split: if_splits)
qed

lemma collect_set: "collect xs f = Inr ys \<Longrightarrow> y \<in> set ys \<longleftrightarrow> (\<exists>x\<in>set xs. \<exists>zs. f x = Inr zs \<and> y \<in> set zs)"
proof (induction xs arbitrary: ys)
  case (Cons x xs)
  then show ?case unfolding collect_Cons_Inr by auto
qed simp

lemma collect_total: "collect xs f = Inr ys \<Longrightarrow> x \<in> set xs \<Longrightarrow> \<exists>zs. f x = Inr zs"
proof (induction xs arbitrary: ys)
  case (Cons x' xs)
  then show ?case unfolding collect_Cons_Inr by auto
qed simp

lemma candidates_set:
  assumes "candidates rows runs k = Inr cs"
  shows "r \<in> set cs \<longleftrightarrow> sustained rows runs k r"
proof -
  let ?f = "\<lambda>rate. seq (rows_at rows k rate) (\<lambda>rs.
    Inr (if int (length rs) = runs \<and> list_all row_valid rs then [rate] else []))"
  obtain rates where rates: "rates_at rows k = Inr rates" "collect (remdups rates) ?f = Inr cs"
    using assms by (auto simp: candidates_def exn_simps)
  have "(\<exists>zs. ?f rate = Inr zs \<and> r \<in> set zs) \<longleftrightarrow> r = rate \<and> int (length (rows_with rows k rate)) = runs \<and>
      list_all row_valid (rows_with rows k rate)" if "rate \<in> set rates" for rate
  proof -
    obtain zs where "?f rate = Inr zs" using collect_total[OF rates(2)] \<open>rate \<in> set rates\<close> by auto
    then obtain rs where "rows_at rows k rate = Inr rs" by (auto simp: exn_simps)
    then show ?thesis using rows_at_eq by auto
  qed
  then have "r \<in> set cs \<longleftrightarrow> r \<in> set rates \<and> int (length (rows_with rows k r)) = runs \<and> list_all row_valid (rows_with rows k r)"
    unfolding collect_set[OF rates(2)] by auto
  then show ?thesis using rates_at_set[OF rates(1)] by (simp add: sustained_def)
qed

lemma py_max_fold:
  assumes "x \<noteq> NaN" "NaN \<notin> set ys"
  shows "foldl py_max x ys \<in> insert x (set ys) \<and> (\<forall>y\<in>insert x (set ys). y \<le> foldl py_max x ys)"
  using assms
proof (induction ys arbitrary: x)
  case (Cons y ys)
  have m: "py_max x y \<in> {x, y}" "x \<le> py_max x y" "y \<le> py_max x y"
    using Cons.prems by (auto simp: py_max_def flt_less)
  then have "py_max x y \<noteq> NaN" using Cons.prems by auto
  from Cons.IH[OF this] Cons.prems(2) m show ?case by (auto intro: order_trans)
qed simp

lemma max_of_correct:
  assumes "NaN \<notin> set xs"
  shows "case max_of xs of None \<Rightarrow> xs = [] | Some m \<Rightarrow> m \<in> set xs \<and> (\<forall>y\<in>set xs. y \<le> m)"
proof (cases xs)
  case (Cons x ys)
  then have "x \<noteq> NaN" "NaN \<notin> set ys" using assms by auto
  from py_max_fold[OF this] show ?thesis by (simp add: max_of_def Cons)
qed (simp add: max_of_def)

lemma highest_keys:
  "collect ks (highest_of rows runs) = Inr highest \<Longrightarrow> map fst highest = filter (\<lambda>k. fst k \<in> {''dense'', ''broadcast''}) ks"
proof (induction ks arbitrary: highest)
  case (Cons k ks)
  then obtain as bs where ab: "highest_of rows runs k = Inr as" "collect ks (highest_of rows runs) = Inr bs" "highest = as @ bs"
    unfolding collect_Cons_Inr by blast
  have "map fst as = (if fst k \<in> {''dense'', ''broadcast''} then [k] else [])"
    using ab(1) by (auto simp: highest_of_def exn_simps split: if_splits)
  then show ?case using Cons.IH[OF ab(2)] ab(3) by simp
qed simp

text \<open>The summary names, for every dense and broadcast configuration that occurs in the rows, once
  and in order, the highest rate that was sustained: all its trials were run and are valid, and no
  higher rate has that; no rate is named only where none was sustained. Rates that are no number are
  excluded.\<close>

lemma highest_sustainable:
  assumes "write_summaries rows runs = Inr s" "\<forall>row\<in>set rows. rate_of row \<noteq> Inr NaN"
  shows "sorted (map fst (su_highest_sustainable s)) \<and> distinct (map fst (su_highest_sustainable s)) \<and>
    fst ` set (su_highest_sustainable s) =
      {k. fst k \<in> {''dense'', ''broadcast''} \<and> (\<exists>row\<in>set rows. config_of row = Inr k)} \<and>
    (\<forall>(k, best)\<in>set (su_highest_sustainable s). case best of
        None \<Rightarrow> \<forall>r. \<not> sustained rows runs k r
      | Some r \<Rightarrow> sustained rows runs k r \<and> (\<forall>r'. sustained rows runs k r' \<longrightarrow> r' \<le> r))"
proof -
  obtain keys where keys: "collect rows (\<lambda>row. seq (config_of row) (\<lambda>k. Inr [k])) = Inr keys"
    and h: "collect (sort (remdups keys)) (highest_of rows runs) = Inr (su_highest_sustainable s)"
    using assms(1) by (auto simp: write_summaries_def exn_simps)
  let ?H = "su_highest_sustainable s"
  have m: "map fst ?H = filter (\<lambda>k. fst k \<in> {''dense'', ''broadcast''}) (sort (remdups keys))" by (rule highest_keys[OF h])
  have "k \<in> set keys \<longleftrightarrow> (\<exists>row\<in>set rows. config_of row = Inr k)" for k
    unfolding collect_set[OF keys] by (cases k) (auto simp: exn_simps, force)
  then have "set (map fst ?H) = {k. fst k \<in> {''dense'', ''broadcast''} \<and> (\<exists>row\<in>set rows. config_of row = Inr k)}"
    unfolding m by auto
  moreover have "sorted (map fst ?H)" "distinct (map fst ?H)" unfolding m by (simp_all add: sorted_filter[of "\<lambda>x. x", simplified])
  moreover have "case best of None \<Rightarrow> \<forall>r. \<not> sustained rows runs k r
      | Some r \<Rightarrow> sustained rows runs k r \<and> (\<forall>r'. sustained rows runs k r' \<longrightarrow> r' \<le> r)" if kb: "(k, best) \<in> set ?H" for k best
  proof -
    obtain k' zs where "highest_of rows runs k' = Inr zs" "(k, best) \<in> set zs" using kb unfolding collect_set[OF h] by blast
    then obtain cs where cs: "candidates rows runs k = Inr cs" "best = max_of cs"
      by (auto simp: highest_of_def exn_simps split: if_splits)
    have "\<not> sustained rows runs k NaN"
    proof
      assume "sustained rows runs k NaN"
      then have "rows_with rows k NaN \<noteq> []" by (simp add: sustained_def)
      then obtain row where "row \<in> set (rows_with rows k NaN)" using hd_in_set by blast
      then show False using assms(2) by (auto simp: rows_with_def)
    qed
    then have "NaN \<notin> set cs" using candidates_set[OF cs(1)] by simp
    from max_of_correct[OF this] show ?thesis
      using candidates_set[OF cs(1)] by (auto simp: cs(2) split: option.splits)
  qed
  ultimately show ?thesis by auto
qed

section \<open>Headlines\<close>

lemma split_rows:
  assumes "for_each rows split_row (g0, i0) = Inr (grouped, invalid)"
  shows "invalid = i0 @ filter (\<lambda>row. \<not> row_valid row) rows \<and>
    (\<forall>row\<in>set (filter row_valid rows). \<exists>k. headline_key_of row = Inr k) \<and>
    grouped = fold (\<lambda>row. add_to_group (projr (headline_key_of row)) row) (filter row_valid rows) g0"
  using assms
proof (induction rows arbitrary: g0 i0)
  case (Cons row rows)
  then obtain g1 i1 where s: "split_row row (g0, i0) = Inr (g1, i1)" "for_each rows split_row (g1, i1) = Inr (grouped, invalid)"
    by (auto simp: exn_simps)
  then show ?case using Cons.IH[OF s(2)] by (auto simp: split_row_def exn_simps split: if_splits)
qed simp

lemma collect_single: "collect xs (\<lambda>x. seq (f x) (\<lambda>y. Inr [y])) = Inr ys \<Longrightarrow> list_all2 (\<lambda>x y. f x = Inr y) xs ys"
proof (induction xs arbitrary: ys)
  case (Cons x xs)
  then show ?case unfolding collect_Cons_Inr by (auto simp: exn_simps)
qed simp

lemma list_all2_map_eq: "list_all2 P xs ys \<Longrightarrow> (\<And>x y. P x y \<Longrightarrow> g y = f x) \<Longrightarrow> map g ys = map f xs"
  by (induction rule: list_all2_induct) auto

lemma headline_of_Inr: "headline_of runs g = Inr h \<Longrightarrow> hl_key h = fst g \<and> hl_valid_trials h = length (snd g) \<and>
    hl_required_trials h = runs \<and> medians_of (snd g) MEDIAN_FIELDS = Inr (hl_medians h)"
  by (auto simp: headline_of_def exn_simps)

lemma group_sizes: "(\<Sum>g\<leftarrow>group_rows key rows. length (snd g)) = length rows"
proof (induction rows rule: rev_induct)
  case (snoc row rows)
  have "(\<Sum>g\<leftarrow>add_to_group k row gs. length (snd g)) = (\<Sum>g\<leftarrow>gs. length (snd g)) + 1" for k and gs :: "('a \<times> 'b list) list"
  proof (induction gs)
    case (Cons g gs)
    then show ?case by (cases g) auto
  qed simp
  then show ?case using snoc by (simp add: group_rows_snoc)
qed (simp add: group_rows_def)

lemma summary_valid:
  assumes "write_summaries rows runs = Inr s"
  shows "su_invalid_rows s = filter (\<lambda>row. \<not> row_valid row) rows" "su_valid_trials s = length (filter row_valid rows)"
proof -
  obtain grouped invalid where g: "for_each rows split_row ([], []) = Inr (grouped, invalid)"
    and c: "su_invalid_rows s = invalid" "su_valid_trials s = length (filter row_valid rows)"
    using assms by (auto simp: write_summaries_def exn_simps)
  then show "su_invalid_rows s = filter (\<lambda>row. \<not> row_valid row) rows" "su_valid_trials s = length (filter row_valid rows)"
    using split_rows[OF g] by simp_all
qed

text \<open>C37: the summary accounts for every row: it is listed as invalid, or counted in exactly one headline,
  the one of its experiment, label, connection counts and rate; the headlines come in the order of
  these keys, each key once.\<close>

theorem write_summaries_partition:
  assumes "write_summaries rows runs = Inr s"
  shows "su_invalid_rows s = filter (\<lambda>row. \<not> row_valid row) rows \<and>
    su_valid_trials s + su_invalid_trials s = length rows \<and>
    (\<Sum>h\<leftarrow>su_headlines s. hl_valid_trials h) = su_valid_trials s \<and>
    sorted (map hl_key (su_headlines s)) \<and> distinct (map hl_key (su_headlines s)) \<and>
    (\<forall>h\<in>set (su_headlines s).
       hl_valid_trials h = length (filter (\<lambda>row. row_valid row \<and> headline_key_of row = Inr (hl_key h)) rows))"
proof -
  obtain grouped invalid where g: "for_each rows split_row ([], []) = Inr (grouped, invalid)"
    and h: "collect (sort_key fst grouped) (\<lambda>g. seq (headline_of runs g) (\<lambda>h. Inr [h])) = Inr (su_headlines s)"
    and c: "su_invalid_rows s = invalid" "su_valid_trials s = length (filter row_valid rows)" "su_invalid_trials s = length invalid"
    using assms by (auto simp: write_summaries_def exn_simps)
  let ?key = "\<lambda>row. projr (headline_key_of row)" and ?v = "filter row_valid rows"
  have inv: "invalid = filter (\<lambda>row. \<not> row_valid row) rows" and keyed: "\<forall>row\<in>set ?v. \<exists>k. headline_key_of row = Inr k"
    and grp: "grouped = group_rows ?key ?v"
    using split_rows[OF g] by (auto simp: group_rows_def)
  note l2 = collect_single[OF h]
  have keys: "map hl_key (su_headlines s) = map fst (sort_key fst grouped)"
    by (rule list_all2_map_eq[OF l2]) (use headline_of_Inr in blast)
  have counts: "map hl_valid_trials (su_headlines s) = map (\<lambda>g. length (snd g)) (sort_key fst grouped)"
    by (rule list_all2_map_eq[OF l2]) (use headline_of_Inr in blast)
  have "(\<Sum>h\<leftarrow>su_headlines s. hl_valid_trials h) = (\<Sum>g\<leftarrow>grouped. length (snd g))" by (simp add: counts)
  then have sum: "(\<Sum>h\<leftarrow>su_headlines s. hl_valid_trials h) = su_valid_trials s" by (simp add: grp group_sizes c)
  have "distinct (map fst (sort_key fst grouped))"
    using group_rows_distinct[of ?key ?v] by (simp add: grp distinct_map)
  then have ord: "sorted (map hl_key (su_headlines s))" "distinct (map hl_key (su_headlines s))"
    unfolding keys by (simp_all add: sorted_sort_key)
  have each: "hl_valid_trials h = length (filter (\<lambda>row. row_valid row \<and> headline_key_of row = Inr (hl_key h)) rows)"
    if hin: "h \<in> set (su_headlines s)" for h
  proof -
    obtain k rs where kr: "(k, rs) \<in> set grouped" "headline_of runs (k, rs) = Inr h"
      using hin list_all2_nthD2[OF l2] by (metis in_set_conv_nth prod.collapse set_sort list_all2_lengthD[OF l2])
    then have "rs = filter (\<lambda>row. ?key row = k) ?v" by (simp add: grp group_rows_mem)
    also have "\<dots> = filter (\<lambda>row. headline_key_of row = Inr k) ?v"
      by (rule filter_cong) (use keyed in force)+
    finally show ?thesis using headline_of_Inr[OF kr(2)] by (simp add: conj_commute)
  qed
  have "length ?v + length (filter (\<lambda>row. \<not> row_valid row) rows) = length rows" by (rule sum_length_filter_compl)
  then show ?thesis using inv c sum ord each by simp
qed

lemma sort_map_Fin: "sort (map Fin xs) = map Fin (sort xs)"
proof -
  have "insort (Fin x) (map Fin ys) = map Fin (insort x ys)" for x ys
    by (induction ys) (auto simp: less_eq_pyfloat_def)
  then show ?thesis by (induction xs) simp_all
qed

lemma median_floats_Fin: "median_floats (map Fin xs) = median xs"
proof (cases "xs = []")
  case False
  then have "length xs div 2 < length (sort xs)" "length xs div 2 - 1 < length (sort xs)" by (cases xs; simp)+
  then show ?thesis by (simp add: median_floats_def median_def sort_map_Fin Let_def)
qed (simp add: median_floats_def median_def)

lemma medians_of_lookup:
  "medians_of rows fs = Inr ms \<Longrightarrow> f \<in> set fs \<Longrightarrow> \<exists>m. median_of rows f = Inr m \<and> map_of ms (''median_'' @ f) = Some m"
  by (induction fs arbitrary: ms) (auto simp: exn_simps)

text \<open>The median of a headline, rounding included, lies between the two middle values of the valid
  rows of its configuration (the middle one if their number is odd), and is missing only if none of
  them has a value.\<close>

theorem headline_median_between:
  assumes "headline_of runs (k, rows) = Inr h" "f \<in> set MEDIAN_FIELDS"
    and "List.map_filter (\<lambda>row. number row f) rows = map Fin xs" "\<forall>x\<in>set xs. sample_ok x"
  shows "if xs = [] then map_of (hl_medians h) (''median_'' @ f) = Some None
    else \<exists>m. map_of (hl_medians h) (''median_'' @ f) = Some (Some (Fin m)) \<and>
      sort xs ! ((length xs - 1) div 2) \<le> m \<and> m \<le> sort xs ! (length xs div 2)"
proof -
  have "medians_of rows MEDIAN_FIELDS = Inr (hl_medians h)" using headline_of_Inr[OF assms(1)] by simp
  from medians_of_lookup[OF this assms(2)] obtain m where m: "median_of rows f = Inr m"
    "map_of (hl_medians h) (''median_'' @ f) = Some m" by blast
  show ?thesis
  proof (cases "xs = []")
    case True
    then show ?thesis using m assms(3) by (simp add: median_of_def)
  next
    case False
    then show ?thesis
      using m median_between[OF False assms(4)] assms(3) by (auto simp: median_of_def median_floats_Fin exn_simps)
  qed
qed

text \<open>Two rows of a dense configuration: one rate sustained, the next not.\<close>

definition dense_row :: "string \<Rightarrow> string \<Rightarrow> csv_row" where
  "dense_row rate valid =
     [(''experiment'', ''dense''), (''label'', ''epoll''), (''total_connections'', ''8''), (''active_connections'', ''8''),
      (''global_offered_rate_s'', rate), (''p50_ms'', ''2''), (''valid'', valid)]"

definition dense_rows :: "csv_row list" where
  "dense_rows = [dense_row ''5'' ''True'', dense_row ''7'' ''False'']"

lemma dense_fields:
  "config_of (dense_row r v) = Inr (''dense'', ''epoll'', 8)" "rate_of (dense_row ''5'' v) = Inr (Fin 5)"
  "rate_of (dense_row ''7'' v) = Inr (Fin 7)" "row_valid (dense_row r ''True'')" "\<not> row_valid (dense_row r ''False'')"
  "headline_key_of (dense_row ''5'' v) = Inr (''dense'', ''epoll'', 8, 8, Fin 5)"
  "number (dense_row r v) ''p50_ms'' = Some (Fin 2)"
  "f \<in> set MEDIAN_FIELDS \<Longrightarrow> number (dense_row r v) f = (if f = ''p50_ms'' then Some (Fin 2) else None)"
proof -
  have i: "py_int ''8'' = Some 8"
    by (simp add: py_int_def strip_def is_space_def is_digit_char_def read_digits_def digit_val_def)
  have f: "py_float_text ''5'' = Some (Fin 5)" "py_float_text ''7'' = Some (Fin 7)" "py_float_text ''2'' = Some (Fin 2)"
    by (simp_all add: digit_float is_digit_char_def digit_val_def float_simps)
  show "config_of (dense_row r v) = Inr (''dense'', ''epoll'', 8)" "rate_of (dense_row ''5'' v) = Inr (Fin 5)"
    "rate_of (dense_row ''7'' v) = Inr (Fin 7)" "headline_key_of (dense_row ''5'' v) = Inr (''dense'', ''epoll'', 8, 8, Fin 5)"
    "number (dense_row r v) ''p50_ms'' = Some (Fin 2)"
    by (simp_all add: config_of_def rate_of_def headline_key_of_def text_field_def cast_field_def number_def dense_row_def i f)
  show "row_valid (dense_row r ''True'')" "\<not> row_valid (dense_row r ''False'')"
    by (simp_all add: row_valid_def dense_row_def lower_char_def char_of_def bit_0)
  show "number (dense_row r v) f = (if f = ''p50_ms'' then Some (Fin 2) else None)" if "f \<in> set MEDIAN_FIELDS"
  proof -
    have "list_all (\<lambda>k. k \<notin> set MEDIAN_FIELDS) [''experiment'', ''label'', ''total_connections'', ''active_connections'',
        ''global_offered_rate_s'', ''valid'']"
      by (simp add: MEDIAN_FIELDS_def)
    then have "f \<notin> {''experiment'', ''label'', ''total_connections'', ''active_connections'', ''global_offered_rate_s'', ''valid''}"
      using that by auto
    then show ?thesis by (simp add: number_def dense_row_def f)
  qed
qed

lemma medians_total:
  assumes "\<And>f. f \<in> set fs \<Longrightarrow> \<exists>m. median_of rows f = Inr m"
  shows "\<exists>ms. medians_of rows fs = Inr ms"
  using assms
proof (induction fs)
  case (Cons f fs)
  then obtain m ms where "median_of rows f = Inr m" "medians_of rows fs = Inr ms" by fastforce
  then show ?case by simp
qed simp

lemma dense_headline: "\<exists>h. headline_of 1 (k, [dense_row ''5'' ''True'']) = Inr h"
proof -
  have "\<exists>m. median_of [dense_row ''5'' ''True''] f = Inr m" if "f \<in> set MEDIAN_FIELDS" for f
    using dense_fields(8)[OF that] by (simp add: median_of_def map_filter_simps median_floats_def)
  from medians_total[of MEDIAN_FIELDS, OF this] show ?thesis by (auto simp: headline_of_def)
qed

lemma dense_summary: "\<exists>s. write_summaries dense_rows 1 = Inr s \<and> su_highest_sustainable s = [((''dense'', ''epoll'', 8), Some (Fin 5))]"
proof -
  have split: "for_each dense_rows split_row ([], []) =
      Inr ([((''dense'', ''epoll'', 8, 8, Fin 5), [dense_row ''5'' ''True''])], [dense_row ''7'' ''False''])"
    by (simp add: dense_rows_def split_row_def dense_fields)
  obtain h where h: "headline_of 1 ((''dense'', ''epoll'', 8, 8, Fin 5), [dense_row ''5'' ''True'']) = Inr h"
    using dense_headline by blast
  have best: "highest_of dense_rows 1 (''dense'', ''epoll'', 8) = Inr [((''dense'', ''epoll'', 8), Some (Fin 5))]"
    by (simp add: highest_of_def candidates_def rates_at_def rows_at_def dense_rows_def dense_fields max_of_def)
  have keys: "collect dense_rows (\<lambda>row. seq (config_of row) (\<lambda>k. Inr [k])) =
      Inr [(''dense'', ''epoll'', 8), (''dense'', ''epoll'', 8)]"
    by (simp add: dense_rows_def dense_fields)
  show ?thesis
    unfolding write_summaries_def split keys by (simp add: h best)
qed

lemma highest_sustainable_example:
  "\<exists>s. write_summaries dense_rows 1 = Inr s \<and> su_highest_sustainable s = [((''dense'', ''epoll'', 8), Some (Fin 5))] \<and>
    sustained dense_rows 1 (''dense'', ''epoll'', 8) (Fin 5)"
proof -
  obtain s where s: "write_summaries dense_rows 1 = Inr s"
    "su_highest_sustainable s = [((''dense'', ''epoll'', 8), Some (Fin 5))]" using dense_summary by blast
  have "\<forall>row\<in>set dense_rows. rate_of row \<noteq> Inr NaN" by (simp add: dense_rows_def dense_fields)
  from highest_sustainable[OF s(1) this] show ?thesis using s by auto
qed

theorem write_summaries_partition_witness:
  "\<exists>s. write_summaries dense_rows 1 = Inr s \<and> su_valid_trials s + su_invalid_trials s = 2 \<and>
    su_invalid_rows s = [dense_row ''7'' ''False'']"
proof -
  obtain s where s: "write_summaries dense_rows 1 = Inr s" using dense_summary by blast
  have "length dense_rows = 2" "filter (\<lambda>row. \<not> row_valid row) dense_rows = [dense_row ''7'' ''False'']"
    by (simp_all add: dense_rows_def dense_fields)
  then show ?thesis using write_summaries_partition[OF s] s by simp
qed

theorem headline_median_between_witness:
  "\<exists>h m. headline_of 1 ((''dense'', ''epoll'', 8, 8, Fin 5), [dense_row ''5'' ''True'']) = Inr h \<and>
    map_of (hl_medians h) (''median_'' @ ''p50_ms'') = Some (Some (Fin m)) \<and> m = 2"
proof -
  obtain h where h: "headline_of 1 ((''dense'', ''epoll'', 8, 8, Fin 5), [dense_row ''5'' ''True'']) = Inr h" using dense_headline by blast
  have "''p50_ms'' \<in> set MEDIAN_FIELDS" by (simp add: MEDIAN_FIELDS_def)
  moreover have "List.map_filter (\<lambda>row. number row ''p50_ms'') [dense_row ''5'' ''True''] = map Fin [2]"
    by (simp add: map_filter_simps dense_fields(7))
  moreover have "\<forall>x\<in>set [2]. sample_ok x" by (simp add: sample_ok_def representable_numeral)
  ultimately show ?thesis using headline_median_between[OF h] h by fastforce
qed

end
