(* ===== verification/Csv_Text.thy ===== *)
theory Csv_Text
  imports Py_Format
begin

text \<open>
  The text of a CSV file: what the standard library's \<^verbatim>\<open>csv\<close> writes for a table with the dialect
  \<^verbatim>\<open>excel\<close>, and its reader, as the programs of \<^verbatim>\<open>bench\<close> use them: fields are quoted when they have to be,
  lines end in a carriage return and a line feed, the reader goes through the lines of the file.
\<close>

section \<open>Writing\<close>

definition comma :: char where "comma = CHR '',''"
definition quote_mark :: char where "quote_mark = CHR 0x22"
definition line_feed :: char where "line_feed = CHR 0x0A"
definition carriage_return :: char where "carriage_return = CHR 0x0D"

definition is_special :: "char \<Rightarrow> bool" where
  "is_special c \<longleftrightarrow> c = comma \<or> c = quote_mark \<or> c = line_feed \<or> c = carriage_return"

fun doubled :: "string \<Rightarrow> string" where
  "doubled [] = []"
| "doubled (c # s) = (if c = quote_mark then quote_mark # quote_mark # doubled s else c # doubled s)"

definition csv_field :: "string \<Rightarrow> string" where
  "csv_field f = (if \<exists>c\<in>set f. is_special c then quote_mark # doubled f @ [quote_mark] else f)"

text \<open>A row whose only field is empty would look like an empty line, so the field is quoted.\<close>

definition csv_record :: "string list \<Rightarrow> string" where
  "csv_record fields =
     (if fields = [[]] then [quote_mark, quote_mark] else join [comma] (map csv_field fields)) @ [carriage_return, line_feed]"

definition csv_text :: "string list list \<Rightarrow> string" where
  "csv_text rows = concat (map csv_record rows)"

section \<open>Reading\<close>

text \<open>
  The characters of a file, with \<open>None\<close> after each of its lines. A line ends after a line feed or after
  a carriage return that no line feed follows; the last line may have no end (\<open>started\<close>: the line has
  characters).
\<close>

fun line_events :: "bool \<Rightarrow> string \<Rightarrow> char option list" where
  "line_events started [] = (if started then [None] else [])"
| "line_events started (c # s) =
     Some c # (if c = line_feed \<or> c = carriage_return \<and> take 1 s \<noteq> [line_feed]
               then None # line_events False s else line_events True s)"

datatype csv_mode = StartRecord | StartField | InField | InQuotedField | QuoteInQuotedField | EatEnd

record csv_reader =
  cr_mode :: csv_mode
  cr_field :: string
  cr_fields :: "string list"

definition new_record :: csv_reader where
  "new_record = \<lparr> cr_mode = StartRecord, cr_field = [], cr_fields = [] \<rparr>"

definition save_field :: "csv_mode \<Rightarrow> csv_reader \<Rightarrow> csv_reader" where
  "save_field mode r = r\<lparr>cr_mode := mode, cr_field := [], cr_fields := cr_fields r @ [cr_field r]\<rparr>"

text \<open>\<open>limit\<close>: the greatest length of a field (131072 in CPython, which nothing here changes).\<close>

definition add_char :: "nat \<Rightarrow> csv_mode \<Rightarrow> char \<Rightarrow> csv_reader \<Rightarrow> py_exn + csv_reader" where
  "add_char limit mode c r =
     (if limit \<le> length (cr_field r) then Inl CsvError else Inr (r\<lparr>cr_mode := mode, cr_field := cr_field r @ [c]\<rparr>))"

definition is_end :: "char option \<Rightarrow> bool" where
  "is_end x \<longleftrightarrow> x = None \<or> x = Some line_feed \<or> x = Some carriage_return"

definition after_end :: "char option \<Rightarrow> csv_mode" where
  "after_end x = (if x = None then StartRecord else EatEnd)"

text \<open>One character; the end of a line is \<open>None\<close>.\<close>

definition at_field_start :: "nat \<Rightarrow> char option \<Rightarrow> csv_reader \<Rightarrow> py_exn + csv_reader" where
  "at_field_start limit x r =
     (if is_end x then Inr (save_field (after_end x) r)
      else if x = Some quote_mark then Inr (r\<lparr>cr_mode := InQuotedField\<rparr>)
      else if x = Some comma then Inr (save_field StartField r)
      else add_char limit InField (the x) r)"

definition read_char :: "nat \<Rightarrow> bool \<Rightarrow> char option \<Rightarrow> csv_reader \<Rightarrow> py_exn + csv_reader" where
  "read_char limit strict x r =
     (case cr_mode r of
        StartRecord \<Rightarrow>
          if x = None then Inr r
          else if is_end x then Inr (r\<lparr>cr_mode := EatEnd\<rparr>)
          else at_field_start limit x r
      | StartField \<Rightarrow> at_field_start limit x r
      | InField \<Rightarrow>
          if is_end x then Inr (save_field (after_end x) r)
          else if x = Some comma then Inr (save_field StartField r)
          else add_char limit InField (the x) r
      | InQuotedField \<Rightarrow>
          if x = None then Inr r
          else if x = Some quote_mark then Inr (r\<lparr>cr_mode := QuoteInQuotedField\<rparr>)
          else add_char limit InQuotedField (the x) r
      | QuoteInQuotedField \<Rightarrow>
          if x = Some quote_mark then add_char limit InQuotedField quote_mark r
          else if x = Some comma then Inr (save_field StartField r)
          else if is_end x then Inr (save_field (after_end x) r)
          else if \<not> strict then add_char limit InField (the x) r
          else Inl CsvError
      | EatEnd \<Rightarrow>
          if x = None then Inr (r\<lparr>cr_mode := StartRecord\<rparr>)
          else if is_end x then Inr r
          else Inl CsvError)"

text \<open>
  The rows of a file. A row is complete at the end of a line, unless the line ended within quotes. A
  file that ends within quotes is an error if \<open>strict\<close>; otherwise its last row is what there is.
\<close>

fun read_rows :: "nat \<Rightarrow> bool \<Rightarrow> csv_reader \<Rightarrow> char option list \<Rightarrow> py_exn + string list list" where
  "read_rows limit strict r [] =
     (if cr_field r \<noteq> [] \<or> cr_mode r = InQuotedField
      then (if strict then Inl CsvError else Inr [cr_fields r @ [cr_field r]])
      else Inr [])"
| "read_rows limit strict r (x # xs) =
     seq (read_char limit strict x r) (\<lambda>r'.
       if x = None \<and> cr_mode r' = StartRecord
       then seq (read_rows limit strict new_record xs) (\<lambda>rows. Inr (cr_fields r' # rows))
       else read_rows limit strict r' xs)"

definition csv_reader :: "nat \<Rightarrow> bool \<Rightarrow> string \<Rightarrow> py_exn + string list list" where
  "csv_reader limit strict text = read_rows limit strict new_record (line_events False text)"

section \<open>A written table is read back\<close>

lemma marks: "comma \<noteq> quote_mark" "comma \<noteq> line_feed" "comma \<noteq> carriage_return" "quote_mark \<noteq> comma" "quote_mark \<noteq> line_feed"
  "quote_mark \<noteq> carriage_return" "line_feed \<noteq> comma" "line_feed \<noteq> quote_mark" "line_feed \<noteq> carriage_return"
  "carriage_return \<noteq> comma" "carriage_return \<noteq> quote_mark" "carriage_return \<noteq> line_feed"
  by (simp_all add: comma_def quote_mark_def line_feed_def carriage_return_def)

lemmas reading = marks read_char_def at_field_start_def save_field_def add_char_def is_end_def after_end_def

lemma read_quoted:
  assumes "length field + length f \<le> limit"
  shows "read_rows limit strict \<lparr> cr_mode = InQuotedField, cr_field = field, cr_fields = fs \<rparr>
      (line_events b (doubled f @ quote_mark # s)) =
    read_rows limit strict \<lparr> cr_mode = QuoteInQuotedField, cr_field = field @ f, cr_fields = fs \<rparr> (line_events True s)"
  using assms
proof (induction f arbitrary: field b)
  case (Cons c f)
  have "length (field @ [c]) + length f \<le> limit" using Cons.prems by simp
  note IH = Cons.IH[OF this, simplified]
  have "length field < limit" using Cons.prems by simp
  then show ?case using IH by (cases "c = quote_mark") (simp_all add: reading)
qed (simp add: reading)

lemma read_bare:
  assumes "length field + length f \<le> limit" "\<forall>c\<in>set f. \<not> is_special c"
  shows "read_rows limit strict \<lparr> cr_mode = InField, cr_field = field, cr_fields = fs \<rparr> (line_events b (f @ c # s)) =
    read_rows limit strict \<lparr> cr_mode = InField, cr_field = field @ f, cr_fields = fs \<rparr> (line_events True (c # s))"
  using assms
proof (induction f arbitrary: field b)
  case (Cons d f)
  have "length (field @ [d]) + length f \<le> limit" using Cons.prems by simp
  note IH = Cons.IH[OF this, simplified]
  have "length field < limit" "d \<noteq> comma" "d \<noteq> quote_mark" "d \<noteq> line_feed" "d \<noteq> carriage_return"
    using Cons.prems by (auto simp: is_special_def)
  then show ?case using IH Cons.prems by (simp add: reading)
qed simp

text \<open>A field before a comma, and the last field of a line.\<close>

lemma read_field:
  assumes "length f \<le> limit" "mode \<in> {StartRecord, StartField}"
  shows "read_rows limit strict \<lparr> cr_mode = mode, cr_field = [], cr_fields = fs \<rparr> (line_events b (csv_field f @ comma # s)) =
      read_rows limit strict \<lparr> cr_mode = StartField, cr_field = [], cr_fields = fs @ [f] \<rparr> (line_events True s)"
    "mode = StartRecord \<longrightarrow> f \<noteq> [] \<Longrightarrow>
      read_rows limit strict \<lparr> cr_mode = mode, cr_field = [], cr_fields = fs \<rparr>
        (line_events b (csv_field f @ carriage_return # line_feed # s)) =
      read_rows limit strict \<lparr> cr_mode = EatEnd, cr_field = [], cr_fields = fs @ [f] \<rparr> (line_events True (line_feed # s))"
proof -
  have quoted: "read_rows limit strict \<lparr> cr_mode = mode, cr_field = [], cr_fields = fs \<rparr>
      (line_events b (quote_mark # doubled f @ quote_mark # t)) =
    read_rows limit strict \<lparr> cr_mode = QuoteInQuotedField, cr_field = f, cr_fields = fs \<rparr> (line_events True t)" for t
    using assms(2) read_quoted[of "[]" f limit strict fs True t] assms(1) by (auto simp: reading)
  have bare: "read_rows limit strict \<lparr> cr_mode = mode, cr_field = [], cr_fields = fs \<rparr> (line_events b (f @ c # t)) =
    read_rows limit strict \<lparr> cr_mode = InField, cr_field = f, cr_fields = fs \<rparr> (line_events True (c # t))"
    if f: "f \<noteq> []" "\<not> (\<exists>c\<in>set f. is_special c)" for c t
  proof -
    obtain d g where d: "f = d # g" using f(1) by (cases f) auto
    have "0 < limit" "d \<noteq> comma" "d \<noteq> quote_mark" "d \<noteq> line_feed" "d \<noteq> carriage_return"
      using f(2) assms(1) by (auto simp: d is_special_def)
    then show ?thesis
      using read_bare[of "[d]" g limit strict fs True c t] f(2) assms by (auto simp: d reading)
  qed
  show "read_rows limit strict \<lparr> cr_mode = mode, cr_field = [], cr_fields = fs \<rparr> (line_events b (csv_field f @ comma # s)) =
      read_rows limit strict \<lparr> cr_mode = StartField, cr_field = [], cr_fields = fs @ [f] \<rparr> (line_events True s)"
  proof (cases "\<exists>c\<in>set f. is_special c")
    case True
    then show ?thesis using quoted[of "comma # s"] by (simp add: csv_field_def reading)
  next
    case False
    then show ?thesis using bare[of comma s] assms(2) by (cases "f = []") (auto simp: csv_field_def reading)
  qed
  assume start: "mode = StartRecord \<longrightarrow> f \<noteq> []"
  show "read_rows limit strict \<lparr> cr_mode = mode, cr_field = [], cr_fields = fs \<rparr>
        (line_events b (csv_field f @ carriage_return # line_feed # s)) =
      read_rows limit strict \<lparr> cr_mode = EatEnd, cr_field = [], cr_fields = fs @ [f] \<rparr> (line_events True (line_feed # s))"
  proof (cases "\<exists>c\<in>set f. is_special c")
    case True
    then show ?thesis using quoted[of "carriage_return # line_feed # s"] by (simp add: csv_field_def reading)
  next
    case False
    then show ?thesis using bare[of carriage_return "line_feed # s"] assms(2) start
      by (cases "f = []") (auto simp: csv_field_def reading)
  qed
qed

lemma read_end:
  "read_rows limit strict \<lparr> cr_mode = EatEnd, cr_field = field, cr_fields = fs \<rparr> (line_events b (line_feed # s)) =
     seq (read_rows limit strict new_record (line_events False s)) (\<lambda>rows. Inr (fs # rows))"
  by (simp add: reading)

lemma read_fields:
  assumes "list_all (\<lambda>f. length f \<le> limit) cells" "cells \<noteq> []" "mode \<in> {StartRecord, StartField}"
    and "mode = StartRecord \<longrightarrow> cells \<noteq> [[]]"
  shows "read_rows limit strict \<lparr> cr_mode = mode, cr_field = [], cr_fields = fs \<rparr>
      (line_events b (join [comma] (map csv_field cells) @ carriage_return # line_feed # s)) =
    seq (read_rows limit strict new_record (line_events False s)) (\<lambda>rows. Inr ((fs @ cells) # rows))"
  using assms
proof (induction cells arbitrary: mode fs b)
  case (Cons f cells)
  show ?case
  proof (cases cells)
    case Nil
    then show ?thesis using Cons.prems read_field(2)[of f limit mode strict fs b s] read_end by auto
  next
    case (Cons g gs)
    have "join [comma] (map csv_field (f # cells)) = csv_field f @ comma # join [comma] (map csv_field cells)"
      by (simp add: Cons)
    then show ?thesis
      using Cons.prems read_field(1)[of f limit mode strict fs b] Cons.IH[of StartField "fs @ [f]" True] Cons by simp
  qed
qed simp

lemma read_record:
  assumes "list_all (\<lambda>f. length f \<le> limit) cells"
  shows "read_rows limit strict new_record (line_events b (csv_record cells @ s)) =
    seq (read_rows limit strict new_record (line_events False s)) (\<lambda>rows. Inr (cells # rows))"
proof -
  consider "cells = []" | "cells = [[]]" | "cells \<noteq> []" "cells \<noteq> [[]]" by blast
  then show ?thesis
  proof cases
    case 3
    then show ?thesis using read_fields[OF assms, of StartRecord strict "[]" b s] by (simp add: csv_record_def new_record_def)
  qed (simp_all add: csv_record_def new_record_def reading)
qed

theorem csv_text_roundtrip:
  assumes "list_all (list_all (\<lambda>f. length f \<le> limit)) rows"
  shows "csv_reader limit strict (csv_text rows) = Inr rows"
proof -
  have "read_rows limit strict new_record (line_events False (csv_text rows)) = Inr rows"
    using assms
  proof (induction rows)
    case Nil
    then show ?case by (simp add: csv_text_def new_record_def)
  next
    case (Cons row rows)
    have "csv_text (row # rows) = csv_record row @ csv_text rows" by (simp add: csv_text_def)
    then show ?case using read_record[of limit row strict False "csv_text rows"] Cons by simp
  qed
  then show ?thesis by (simp add: csv_reader_def)
qed

interpretation csv_file: codec csv_text "\<lambda>text. case csv_reader limit strict text of Inl e \<Rightarrow> [] | Inr rows \<Rightarrow> rows"
  "list_all (list_all (\<lambda>f. length f \<le> limit))" for limit strict
  by unfold_locales (simp add: csv_text_roundtrip)

end
