(* ===== verification/Result_File.thy ===== *)
theory Result_File
  imports Sweep_Summary Trial_Result Csv_Text
begin

text \<open>
  The result file of a benchmark, as \<^verbatim>\<open>main\<close> of \<^verbatim>\<open>bench/benchmark.py\<close> writes it with
  \<^verbatim>\<open>csv.DictWriter\<close> and \<^verbatim>\<open>bench/compare.py\<close> reads it with \<^verbatim>\<open>csv.DictReader\<close>: the cells of a row, the
  table, its text (the format is that of \<open>Csv_Text\<close>), and what the sweep makes of it.
\<close>

section \<open>Rows as dictionaries\<close>

datatype cell = Text string | Number pyfloat | Whole int | Flag bool | Missing

definition maybe :: "pyfloat option \<Rightarrow> cell" where
  "maybe x = (case x of None \<Rightarrow> Missing | Some v \<Rightarrow> Number v)"

text \<open>The text that the writer makes of a value.\<close>

fun cell_text :: "cell \<Rightarrow> string" where
  "cell_text (Text s) = s"
| "cell_text (Number x) = show_float x"
| "cell_text (Whole n) = show_int n"
| "cell_text (Flag b) = (if b then ''True'' else ''False'')"
| "cell_text Missing = []"

text \<open>
  The dictionary that \<^verbatim>\<open>run_trial\<close> builds, in the order of its keys. The server reports the fields of
  \<open>SERVER_METRIC_FIELDS\<close> and no other ones.
\<close>

definition metric_items :: "trial_row \<Rightarrow> (string \<times> cell) list" where
  "metric_items r =
     map (\<lambda>f. (f, case tr_metrics r f of None \<Rightarrow> Missing | Some n \<Rightarrow> Whole n)) SERVER_METRIC_FIELDS"

definition parameter_items :: "trial_row \<Rightarrow> (string \<times> cell) list" where
  "parameter_items r =
     [(''timestamp_utc'', Text (tr_timestamp_utc r)), (''label'', Text (tr_label r)),
      (''experiment'', Text (tr_experiment r)), (''server'', Text (tr_server r)),
      (''workload'', Text (tr_workload r)), (''total_connections'', Whole (tr_total_connections r)),
      (''active_connections'', Whole (tr_active_connections r)), (''clients'', Whole (tr_clients r)),
      (''load_workers'', Whole (tr_load_workers r)), (''server_affinity'', Text (tr_server_affinity r)),
      (''server_affinity_applied'', Flag (tr_server_affinity_applied r)),
      (''worker_affinity'', Text (tr_worker_affinity r)),
      (''worker_affinity_applied'', Flag (tr_worker_affinity_applied r)), (''run'', Whole (tr_run r)),
      (''duration_s'', Number (tr_duration_s r)), (''global_offered_rate_s'', Number (tr_global_offered_rate_s r)),
      (''payload_bytes'', Whole (tr_payload_bytes r))]"

definition load_items :: "trial_row \<Rightarrow> (string \<times> cell) list" where
  "load_items r =
     [(''offered_operations'', Whole (tr_offered_operations r)), (''sent_operations'', Whole (tr_sent_operations r)),
      (''missed_offers'', Whole (tr_missed_offers r)), (''offered_msg_s'', Number (tr_offered_msg_s r)),
      (''completed_by_deadline'', Whole (tr_completed_by_deadline r)),
      (''eventual_completions'', Whole (tr_eventual_completions r)),
      (''completed_by_deadline_msg_s'', Number (tr_completed_by_deadline_msg_s r)),
      (''delivered'', Whole (tr_delivered r)),
      (''delivered_by_deadline_msg_s'', Number (tr_delivered_by_deadline_msg_s r)),
      (''inbound_messages_s'', Number (tr_inbound_messages_s r)),
      (''outbound_deliveries_s'', Number (tr_outbound_deliveries_s r)),
      (''per_socket_receive_rate_s'', Number (tr_per_socket_receive_rate_s r)),
      (''fan_out'', Whole (tr_fan_out r)), (''delivery_ratio'', Number (tr_delivery_ratio r)),
      (''latency_samples'', Whole (int (tr_latency_samples r))), (''p50_ms'', maybe (tr_p50_ms r)),
      (''p95_ms'', maybe (tr_p95_ms r)), (''p99_ms'', maybe (tr_p99_ms r)),
      (''generator_cpu_percent'', Number (tr_generator_cpu_percent r)),
      (''server_cpu_percent'', maybe (tr_server_cpu_percent r)),
      (''scheduling_lag_p50_ms'', maybe (tr_scheduling_lag_p50_ms r)),
      (''scheduling_lag_p95_ms'', maybe (tr_scheduling_lag_p95_ms r)),
      (''scheduling_lag_p99_ms'', maybe (tr_scheduling_lag_p99_ms r)),
      (''max_read_service_gap_ms'', Number (tr_max_read_service_gap_ms r)),
      (''worker_start_skew_ms'', Number (tr_worker_start_skew_ms r))]"

definition incident_items :: "trial_row \<Rightarrow> (string \<times> cell) list" where
  "incident_items r =
     [(''client_disconnects'', Whole (tr_client_disconnects r)), (''send_errors'', Whole (tr_send_errors r)),
      (''client_partial_sends'', Whole (tr_client_partial_sends r)),
      (''client_send_eagain'', Whole (tr_client_send_eagain r)), (''server_crashed'', Flag (tr_server_crashed r)),
      (''diagnostic_mode'', Text (tr_diagnostic_mode r)), (''profile_started'', Flag (tr_profile_started r)),
      (''profile_command'', Text (tr_profile_command r)), (''profile_events'', Text (tr_profile_events r)),
      (''profile_error'', Text (tr_profile_error r)), (''harness_error'', Text (tr_harness_error r)),
      (''server_disconnects'', Whole (tr_server_disconnects r)),
      (''disconnect_reasons'', Text (tr_disconnect_reasons r))]"

definition row_items :: "trial_row \<Rightarrow> (string \<times> cell) list" where
  "row_items r =
     parameter_items r @ load_items r @ incident_items r @ metric_items r @
     [(''missed_offer_ratio'', Number (tr_missed_offer_ratio r)),
      (''deadline_completion_ratio'', Number (tr_deadline_completion_ratio r)),
      (''cpu_per_completed_request_us'', maybe (tr_cpu_per_completed_request_us r)),
      (''valid'', Flag (tr_valid r)), (''invalid_reasons'', Text (tr_invalid_reasons r))]"

section \<open>Writing and reading the file\<close>

text \<open>A row under the header: a field that the header lacks is a \<^verbatim>\<open>ValueError\<close>.\<close>

definition dict_cells :: "string list \<Rightarrow> (string \<times> cell) list \<Rightarrow> py_exn + string list" where
  "dict_cells names items =
     (if list_all (\<lambda>(f, c). f \<in> set names) items
      then Inr (map (\<lambda>f. case map_of items f of None \<Rightarrow> [] | Some c \<Rightarrow> cell_text c) names)
      else Inl ValueError)"

type_synonym csv_table = "string list \<times> string list list"

definition result_table :: "trial_row list \<Rightarrow> py_exn + csv_table" where
  "result_table rows =
     (case rows of [] \<Rightarrow> Inl IndexError
      | row # _ \<Rightarrow>
          let names = map fst (row_items row)
          in seq (collect rows (\<lambda>r. seq (dict_cells names (row_items r)) (\<lambda>cs. Inr [cs]))) (\<lambda>cells.
               Inr (names, cells)))"

definition read_table :: "csv_table \<Rightarrow> csv_row list" where
  "read_table t = (case t of (names, cells) \<Rightarrow> map (zip names) cells)"

text \<open>What the reader makes of a row.\<close>

definition csv_line :: "trial_row \<Rightarrow> csv_row" where
  "csv_line r = map (\<lambda>(f, c). (f, cell_text c)) (row_items r)"

lemma row_names: "map fst (row_items r) = map fst (row_items r')"
  by (simp add: row_items_def parameter_items_def load_items_def incident_items_def metric_items_def)

lemma row_names_distinct: "distinct (map fst (row_items r))"
  by (simp add: row_items_def parameter_items_def load_items_def incident_items_def metric_items_def SERVER_METRIC_FIELDS_def)

lemma dict_cells_own:
  assumes "distinct (map fst items)"
  shows "dict_cells (map fst items) items = Inr (map (\<lambda>(f, c). cell_text c) items)"
proof -
  have "list_all (\<lambda>(f, c). f \<in> set (map fst items)) items" by (force simp: list_all_iff)
  moreover have "(case map_of items f of None \<Rightarrow> [] | Some c \<Rightarrow> cell_text c) = cell_text c" if "(f, c) \<in> set items" for f c
    using map_of_is_SomeI[OF assms that] by simp
  ultimately show ?thesis by (auto simp: dict_cells_def comp_def)
qed

lemma collect_singles: "(\<And>x. x \<in> set xs \<Longrightarrow> f x = Inr (g x)) \<Longrightarrow> collect xs (\<lambda>x. seq (f x) (\<lambda>y. Inr [y])) = Inr (map g xs)"
  by (induction xs) simp_all

lemma result_table_rows:
  assumes "rows \<noteq> []"
  shows "\<exists>names cells. result_table rows = Inr (names, cells) \<and> read_table (names, cells) = map csv_line rows \<and>
    names = map fst (row_items (hd rows)) \<and> cells = map (\<lambda>r. map (\<lambda>(f, c). cell_text c) (row_items r)) rows"
proof -
  obtain r rs where rows: "rows = r # rs" using assms by (cases rows) auto
  have "dict_cells (map fst (row_items r)) (row_items r') = Inr (map (\<lambda>(f, c). cell_text c) (row_items r'))" for r'
    using dict_cells_own[OF row_names_distinct, of r'] by (simp add: row_names[of r r'])
  then have "collect rows (\<lambda>x. seq (dict_cells (map fst (row_items r)) (row_items x)) (\<lambda>y. Inr [y])) =
      Inr (map (\<lambda>r'. map (\<lambda>(f, c). cell_text c) (row_items r')) rows)"
    by (intro collect_singles) simp
  moreover have "zip (map fst (row_items r)) (map (\<lambda>(f, c). cell_text c) (row_items r')) = csv_line r'" for r'
    unfolding row_names[of r r'] csv_line_def zip_map_map by (simp add: zip_same_conv_map case_prod_unfold)
  ultimately show ?thesis
    by (intro exI[of _ "map fst (row_items r)"] exI[of _ "map (\<lambda>r'. map (\<lambda>(f, c). cell_text c) (row_items r')) rows"])
      (simp add: result_table_def rows read_table_def)
qed

section \<open>The text of the file\<close>

text \<open>
  \<^verbatim>\<open>csv.DictReader\<close>: the first row names the columns, empty lines are skipped. (The rows that the harness
  reads have as many cells as there are columns.)
\<close>

definition dict_reader :: "nat \<Rightarrow> bool \<Rightarrow> string \<Rightarrow> py_exn + csv_row list" where
  "dict_reader limit strict text =
     seq (csv_reader limit strict text) (\<lambda>rows.
       case rows of [] \<Rightarrow> Inr []
       | names # cells \<Rightarrow> Inr (read_table (names, filter (\<lambda>cs. cs \<noteq> []) cells)))"

definition fits :: "nat \<Rightarrow> trial_row \<Rightarrow> bool" where
  "fits limit r \<longleftrightarrow> list_all (\<lambda>(f, c). length f \<le> limit \<and> length (cell_text c) \<le> limit) (row_items r)"

text \<open>C11: no text in a row can break the result file: whatever characters its fields contain (commas, quotes,
  line ends of an exception's message or of the server's log), the text that is written is read by the
  sweep as exactly the rows of the benchmark, and by the conversion to a workbook, which is strict, as
  exactly the table, as long as no field is longer than the reader allows.\<close>

theorem result_file_survives_text:
  assumes "result_table rows = Inr (names, cells)" "\<forall>r\<in>set rows. fits limit r"
  shows "dict_reader limit strict (csv_text (names # cells)) = Inr (map csv_line rows) \<and>
    csv_reader limit strict (csv_text (names # cells)) = Inr (names # cells)"
proof -
  have "rows \<noteq> []" using assms(1) by (auto simp: result_table_def)
  from result_table_rows[OF this] assms(1) have t: "read_table (names, cells) = map csv_line rows"
    "names = map fst (row_items (hd rows))" "cells = map (\<lambda>r. map (\<lambda>(f, c). cell_text c) (row_items r)) rows"
    by auto
  have "fits limit (hd rows)" using assms(2) \<open>rows \<noteq> []\<close> by simp
  then have "list_all (list_all (\<lambda>f. length f \<le> limit)) (names # cells)"
    using assms(2) unfolding t fits_def by (auto simp: list_all_iff)
  then have r: "csv_reader limit strict (csv_text (names # cells)) = Inr (names # cells)" by (rule csv_text_roundtrip)
  moreover have "filter (\<lambda>cs. cs \<noteq> []) cells = cells"
    by (simp add: t(3) filter_id_conv row_items_def parameter_items_def)
  ultimately show ?thesis using t(1) by (simp add: dict_reader_def)
qed

section \<open>What is read back\<close>

lemma csv_line_lookup: "map_of (csv_line r) f = map_option cell_text (map_of (row_items r) f)"
  by (simp add: csv_line_def map_of_map)

lemma item_lookups:
  "map_of (row_items r) ''valid'' = Some (Flag (tr_valid r))"
  "map_of (row_items r) ''experiment'' = Some (Text (tr_experiment r))"
  "map_of (row_items r) ''label'' = Some (Text (tr_label r))"
  "map_of (row_items r) ''total_connections'' = Some (Whole (tr_total_connections r))"
  "map_of (row_items r) ''active_connections'' = Some (Whole (tr_active_connections r))"
  "map_of (row_items r) ''global_offered_rate_s'' = Some (Number (tr_global_offered_rate_s r))"
  by (simp_all add: row_items_def parameter_items_def load_items_def incident_items_def metric_items_def SERVER_METRIC_FIELDS_def)

lemma row_valid_csv_line: "row_valid (csv_line r) = tr_valid r"
  by (simp add: row_valid_def csv_line_lookup item_lookups lower_char_def char_of_def bit_0)

text \<open>The integers of a row that are read as integers, and its floats.\<close>

definition row_readable :: "trial_row \<Rightarrow> bool" where
  "row_readable r \<longleftrightarrow>
     short_int (tr_total_connections r) \<and> short_int (tr_active_connections r) \<and>
     (\<forall>f x. (f, Number x) \<in> set (row_items r) \<longrightarrow> is_float x)"

definition row_key :: "trial_row \<Rightarrow> headline_key" where
  "row_key r = (tr_experiment r, tr_label r, tr_total_connections r, tr_active_connections r, tr_global_offered_rate_s r)"

definition row_config :: "trial_row \<Rightarrow> config_key" where
  "row_config r = (tr_experiment r, tr_label r, tr_total_connections r)"

lemma row_reads:
  assumes "row_readable r"
  shows "config_of (csv_line r) = Inr (row_config r)" "rate_of (csv_line r) = Inr (tr_global_offered_rate_s r)"
    "headline_key_of (csv_line r) = Inr (row_key r)"
proof -
  have "is_float (tr_global_offered_rate_s r)"
    using assms map_of_SomeD[OF item_lookups(6)[of r]] unfolding row_readable_def by blast
  then show rate: "rate_of (csv_line r) = Inr (tr_global_offered_rate_s r)"
    by (simp add: rate_of_def cast_field_def text_field_def csv_line_lookup item_lookups float_text_roundtrip)
  show config: "config_of (csv_line r) = Inr (row_config r)"
    using assms by (simp add: config_of_def cast_field_def text_field_def csv_line_lookup item_lookups row_config_def
        row_readable_def short_int_def py_int_show_int)
  show "headline_key_of (csv_line r) = Inr (row_key r)"
    using assms rate by (simp add: headline_key_of_def config row_config_def row_key_def cast_field_def text_field_def csv_line_lookup
        item_lookups row_readable_def short_int_def py_int_show_int)
qed

text \<open>An integer read as a float.\<close>

lemma float_of_nat_text:
  "py_float_text (show_nat n) = Some (to_float (of_nat n))" "py_float_text (CHR ''-'' # show_nat n) = Some (to_float (- of_nat n))"
proof -
  obtain d t where t: "show_nat n = d # t" by (cases "show_nat n") auto
  have digits: "digits (show_nat n)" using show_nat_digits by (auto simp: digits_def list_all_iff)
  have "decimal_number (show_nat n) = Some (of_nat n)"
    using decimal_point(2)[of "show_nat n" "[]" "[]" 0] digits t read_digits_show_nat[of n] by (simp add: digits_def)
  moreover have "is_digit_char d" using digits t by (simp add: digits_def)
  moreover have "\<not> is_space c" if "c \<in> set (show_nat n)" for c using digits_plain[OF digits that] by simp
  ultimately show "py_float_text (show_nat n) = Some (to_float (of_nat n))"
      "py_float_text (CHR ''-'' # show_nat n) = Some (to_float (- of_nat n))"
    using float_text_number[OF _ t] by auto
qed

lemma float_of_int_text: "py_float_text (show_int n) = Some (to_float (of_int n))"
  using float_of_nat_text[of "nat n"] float_of_nat_text[of "nat (- n)"] by (simp add: show_int_def)

text \<open>The value of a cell for the medians.\<close>

fun cell_value :: "cell \<Rightarrow> pyfloat option" where
  "cell_value (Number x) = Some x"
| "cell_value (Whole n) = Some (to_float (of_int n))"
| "cell_value c = None"

definition value_of :: "trial_row \<Rightarrow> string \<Rightarrow> pyfloat option" where
  "value_of r f = (case map_of (row_items r) f of None \<Rightarrow> None | Some c \<Rightarrow> cell_value c)"

fun is_numeric :: "cell \<Rightarrow> bool" where
  "is_numeric (Text s) = False"
| "is_numeric (Flag b) = False"
| "is_numeric c = True"

lemma is_numeric_cells [simp]: "is_numeric (maybe x)" "is_numeric (case m of None \<Rightarrow> Missing | Some n \<Rightarrow> Whole n)"
  by (simp_all add: maybe_def split: option.split)

lemma median_names: "set MEDIAN_FIELDS \<subseteq> set (map fst (filter (\<lambda>p. is_numeric (snd p)) (row_items r)))"
  by (simp add: row_items_def parameter_items_def load_items_def incident_items_def metric_items_def SERVER_METRIC_FIELDS_def
      MEDIAN_FIELDS_def)

lemma median_cells:
  assumes "f \<in> set MEDIAN_FIELDS"
  shows "\<exists>c. map_of (row_items r) f = Some c \<and> is_numeric c"
proof -
  have "f \<in> fst ` {p \<in> set (row_items r). is_numeric (snd p)}" using assms median_names[of r] by auto
  then obtain c where "(f, c) \<in> set (row_items r)" "is_numeric c" by auto
  then show ?thesis using map_of_is_SomeI[OF row_names_distinct] by blast
qed

lemma number_csv_line:
  assumes "row_readable r" "f \<in> set MEDIAN_FIELDS"
  shows "number (csv_line r) f = value_of r f"
proof -
  obtain c where c: "map_of (row_items r) f = Some c" "is_numeric c" using median_cells[OF assms(2)] by blast
  have floats: "is_float x" if "c = Number x" for x
    using assms(1) map_of_SomeD[OF c(1)] that unfolding row_readable_def by blast
  have some: "number (csv_line r) f = Some x" if "py_float_text (cell_text c) = Some x" for x
  proof -
    have "cell_text c \<noteq> []" "cell_text c \<noteq> ''None''"
      using that by (auto simp: py_float_text_def take_sign_def strip_def is_space_def lower_char_def decimal_number_def
          opt_digits_def exponent_part_def is_digit_char_def char_of_def bit_0)
    then show ?thesis using that c(1) by (simp add: number_def csv_line_lookup)
  qed
  show ?thesis
  proof (cases c)
    case (Number x)
    then show ?thesis using some float_text_roundtrip[OF floats] c(1) by (simp add: value_of_def)
  next
    case (Whole n)
    then show ?thesis using some float_of_int_text c(1) by (simp add: value_of_def)
  next
    case Missing
    then show ?thesis using c(1) by (simp add: value_of_def number_def csv_line_lookup)
  qed (use c(2) in simp_all)
qed

section \<open>The floats of a row\<close>

lemma is_float_simps [simp]: "is_float (Fin 0)" "is_float (Fin 1)" "is_float PInf" "is_float NInf" "is_float NaN"
  by (simp_all add: is_float_def)

lemma is_float_to_float [simp]: "is_float (to_float q)"
  by (auto simp: is_float_def to_float_def Let_def representable_rnd64 abs_less_iff not_le)

lemma is_float_fadd [simp]: "is_float (fadd x y)"
  by (cases x; cases y) simp_all

lemma is_float_fmul [simp]: "is_float (fmul x y)"
  by (cases x; cases y) simp_all

lemma is_float_fdiv: "fdiv x y = Inr z \<Longrightarrow> is_float z"
  by (cases x; cases y) (auto split: if_splits)

lemma is_float_int_div: "int_div a b = Inr z \<Longrightarrow> is_float z"
  using is_float_to_float[of "of_int a / of_int b"]
  by (auto simp: int_div_def simp del: is_float_to_float split: if_splits pyfloat.splits)

lemma is_float_int_over: "int_over n x = Inr z \<Longrightarrow> is_float z"
  by (auto simp: int_over_def exn_simps dest: is_float_fdiv)

lemma is_float_ratio_or: "ratio_or d a b = Inr z \<Longrightarrow> is_float d \<Longrightarrow> is_float z"
  by (auto simp: ratio_or_def dest: is_float_int_div split: if_splits)

lemma is_float_percentile: "percentile xs f = Inr (Some z) \<Longrightarrow> is_float z"
  by (auto simp: percentile_def Let_def exn_simps split: if_splits)

lemma is_float_cpu: "server_cpu_percent a oc = Inr (Some z) \<Longrightarrow> is_float z"
  by (auto simp: server_cpu_percent_def exn_simps split: option.splits)

lemma is_float_cpu_per_request: "cpu_per_request a cpu n = Inr (Some z) \<Longrightarrow> is_float z"
  by (auto simp: cpu_per_request_def exn_simps dest: is_float_fdiv split: option.splits if_splits)

lemmas computed_floats = is_float_fdiv is_float_int_over is_float_ratio_or is_float_percentile is_float_cpu is_float_cpu_per_request

lemma Number_maybe [simp]: "Number x = maybe y \<longleftrightarrow> y = Some x"
  by (auto simp: maybe_def split: option.splits)

lemma Number_metric: "(f, Number x) \<notin> set (metric_items r)"
  by (auto simp: metric_items_def split: option.splits)

text \<open>The floats that a row takes over from the command line and from the workers.\<close>

definition outcome_floats :: "bench_args \<Rightarrow> trial_outcome \<Rightarrow> bool" where
  "outcome_floats a oc \<longleftrightarrow> is_float (arg_duration a) \<and> is_float (arg_rate a) \<and>
     is_float (the (d_floats (oc_state oc) ''max_read_service_gap_ms'')) \<and>
     is_float (the (d_floats (oc_state oc) ''start_skew_ms''))"

lemma measured_floats:
  assumes "measured_row a workload conns active run oc = Inr row" "outcome_floats a oc"
  shows "(f, Number x) \<in> set (row_items row) \<Longrightarrow> is_float x"
proof -
  have "\<forall>f x. (f, Number x) \<in> set (row_items row) \<longrightarrow> is_float x"
    using assms unfolding measured_row_def Let_def seq_Inr_iff
    by (elim exE conjE) (drule Inr_inject, hypsubst,
      auto simp: row_items_def parameter_items_def load_items_def incident_items_def Number_metric outcome_floats_def
        dest: computed_floats)
  then show "(f, Number x) \<in> set (row_items row) \<Longrightarrow> is_float x" by blast
qed

lemma measured_parameters:
  assumes "measured_row a workload conns active run oc = Inr row"
  shows "tr_label row = arg_label a \<and> tr_experiment row = arg_experiment a \<and> tr_workload row = workload \<and>
    tr_total_connections row = conns \<and> tr_active_connections row = active \<and>
    tr_global_offered_rate_s row = arg_rate a \<and> tr_run row = arg_trial_id a + run - 1"
  using assms unfolding measured_row_def Let_def seq_Inr_iff by (elim exE conjE) (drule Inr_inject, hypsubst, simp)

lemma result_row_parameters:
  assumes "result_row a workload conns active run oc = Inr r"
  shows "row_key r = (arg_experiment a, arg_label a, conns, active, arg_rate a)" "tr_workload r = workload"
    "tr_run r = arg_trial_id a + run - 1"
  using assms by (elim result_rowE; use measured_parameters in \<open>fastforce simp: row_key_def\<close>)+

lemma result_row_readable:
  assumes "result_row a workload conns active run oc = Inr r" "outcome_floats a oc" "short_int conns" "short_int active"
  shows "row_readable r"
proof -
  obtain row valid why where m: "measured_row a workload conns active run oc = Inr row"
    and r: "r = row\<lparr>tr_valid := valid, tr_invalid_reasons := why\<rparr>"
    using assms(1) by (rule result_rowE)
  have "is_float x" if "(f, Number x) \<in> set (row_items r)" for f x
  proof -
    have "(f, Number x) \<in> set (row_items row)"
      using that by (auto simp: r row_items_def parameter_items_def load_items_def incident_items_def metric_items_def)
    then show ?thesis by (rule measured_floats[OF m assms(2)])
  qed
  then show ?thesis using assms(3,4) measured_parameters[OF m] by (simp add: row_readable_def r)
qed

section \<open>From the verdicts to the summary\<close>

text \<open>The trials of a configuration at a rate.\<close>

definition trials_at :: "trial_row list \<Rightarrow> config_key \<Rightarrow> pyfloat \<Rightarrow> trial_row list" where
  "trials_at rs k rate = filter (\<lambda>r. row_config r = k \<and> tr_global_offered_rate_s r = rate) rs"

definition all_valid_at :: "trial_row list \<Rightarrow> int \<Rightarrow> config_key \<Rightarrow> pyfloat \<Rightarrow> bool" where
  "all_valid_at rs runs k rate \<longleftrightarrow>
     trials_at rs k rate \<noteq> [] \<and> int (length (trials_at rs k rate)) = runs \<and> list_all tr_valid (trials_at rs k rate)"

lemma rows_with_csv:
  "\<forall>r\<in>set rs. row_readable r \<Longrightarrow> rows_with (map csv_line rs) k rate = map csv_line (trials_at rs k rate)"
  by (induction rs) (simp_all add: rows_with_def trials_at_def row_reads)

lemma sustained_csv:
  "\<forall>r\<in>set rs. row_readable r \<Longrightarrow> sustained (map csv_line rs) runs k rate = all_valid_at rs runs k rate"
  by (simp add: sustained_def all_valid_at_def rows_with_csv list_all_iff row_valid_csv_line)

text \<open>C10: what a benchmark writes, the sweep reads: the row of every trial, written to the result file and
  read back, has the verdict of the benchmark, the experiment, label, connection counts and rate of its
  command line, and for every field of the headline medians exactly the value measured (an integer as the
  nearest float, nothing where there is no value).\<close>

theorem result_row_read_back:
  assumes "result_row a workload conns active run oc = Inr r" "outcome_floats a oc" "short_int conns" "short_int active"
  shows "\<exists>names cells line. result_table [r] = Inr (names, cells) \<and> read_table (names, cells) = [line] \<and>
    row_valid line = tr_valid r \<and>
    headline_key_of line = Inr (arg_experiment a, arg_label a, conns, active, arg_rate a) \<and>
    (\<forall>f\<in>set MEDIAN_FIELDS. number line f = value_of r f)"
proof -
  have r: "row_readable r" by (rule result_row_readable[OF assms])
  obtain names cells where t: "result_table [r] = Inr (names, cells)" "read_table (names, cells) = [csv_line r]"
    using result_table_rows[of "[r]"] by auto
  then show ?thesis
    using row_valid_csv_line row_reads(3)[OF r] number_csv_line[OF r] result_row_parameters(1)[OF assms(1)]
    by (intro exI[of _ names] exI[of _ cells] exI[of _ "csv_line r"]) simp
qed

text \<open>The summary of a sweep reports the benchmark's verdicts: it counts the trials that the benchmark
  classified as valid, and for every dense and broadcast configuration names, once, the highest rate at
  which all its trials were run and classified as valid; no higher rate has that, and no rate is named
  only where there is none.\<close>

theorem verdicts_reported:
  assumes "write_summaries (map csv_line rs) runs = Inr s" "\<forall>r\<in>set rs. row_readable r"
    and "\<forall>r\<in>set rs. tr_global_offered_rate_s r \<noteq> NaN"
  shows "su_valid_trials s = length (filter tr_valid rs) \<and>
    su_invalid_rows s = map csv_line (filter (\<lambda>r. \<not> tr_valid r) rs) \<and>
    distinct (map fst (su_highest_sustainable s)) \<and>
    fst ` set (su_highest_sustainable s) = {k \<in> row_config ` set rs. fst k \<in> {''dense'', ''broadcast''}} \<and>
    (\<forall>(k, best)\<in>set (su_highest_sustainable s). case best of
        None \<Rightarrow> \<forall>rate. \<not> all_valid_at rs runs k rate
      | Some rate \<Rightarrow> all_valid_at rs runs k rate \<and> (\<forall>rate'. all_valid_at rs runs k rate' \<longrightarrow> rate' \<le> rate))"
proof -
  have "\<forall>row\<in>set (map csv_line rs). rate_of row \<noteq> Inr NaN" using assms(2,3) row_reads(2) by auto
  note h = highest_sustainable[OF assms(1) this]
  have "(\<exists>row\<in>set (map csv_line rs). config_of row = Inr k) \<longleftrightarrow> k \<in> row_config ` set rs" for k
    using assms(2) row_reads(1) by (force simp: image_iff)
  then have "{k. fst k \<in> {''dense'', ''broadcast''} \<and> (\<exists>row\<in>set (map csv_line rs). config_of row = Inr k)} =
      {k \<in> row_config ` set rs. fst k \<in> {''dense'', ''broadcast''}}"
    by blast
  moreover have "su_valid_trials s = length (filter row_valid (map csv_line rs))"
    "su_invalid_rows s = filter (\<lambda>row. \<not> row_valid row) (map csv_line rs)"
    using summary_valid[OF assms(1)] by simp_all
  moreover have "filter row_valid (map csv_line rs) = map csv_line (filter tr_valid rs)"
    "filter (\<lambda>row. \<not> row_valid row) (map csv_line rs) = map csv_line (filter (\<lambda>r. \<not> tr_valid r) rs)"
    by (simp_all add: filter_map comp_def row_valid_csv_line)
  ultimately show ?thesis using h[unfolded sustained_csv[OF assms(2)]] by simp
qed

section \<open>The summary of benchmark rows never fails\<close>

lemma collect_ok: "(\<And>x. x \<in> set xs \<Longrightarrow> \<exists>ys. f x = Inr ys) \<Longrightarrow> \<exists>zs. collect xs f = Inr zs"
proof (induction xs)
  case (Cons x xs)
  then obtain ys zs where "f x = Inr ys" "collect xs f = Inr zs" by fastforce
  then show ?case by simp
qed simp

lemma median_of_ok: "\<exists>m. median_of rows f = Inr m"
proof -
  have "\<exists>m. fdiv x (Fin 2) = Inr m" for x by (cases x) auto
  moreover from this have "\<exists>m. median_floats xs = Inr m" if "xs \<noteq> []" for xs
    using that by (simp add: median_floats_def Let_def)
  ultimately show ?thesis by (cases "List.map_filter (\<lambda>row. number row f) rows = []") (force simp: median_of_def Let_def)+
qed

lemma headline_of_ok: "\<exists>h. headline_of runs g = Inr h"
  using medians_total[of MEDIAN_FIELDS "snd g", OF median_of_ok] by (auto simp: headline_of_def)

lemma split_rows_ok:
  assumes "\<forall>r\<in>set rs. row_readable r"
  shows "\<exists>g. for_each (map csv_line rs) split_row s = Inr g"
proof -
  have "\<exists>s'. split_row row s = Inr s' \<and> True" if "row \<in> set (map csv_line rs)" for row s
    using that assms row_reads(3) by (auto simp: split_row_def)
  from for_each_total[of "\<lambda>_. True" s "map csv_line rs" split_row, OF TrueI this] show ?thesis by blast
qed

lemma highest_of_ok:
  assumes "\<forall>r\<in>set rs. row_readable r"
  shows "\<exists>h. highest_of (map csv_line rs) runs k = Inr h"
proof -
  have rates: "\<exists>rates. rates_at (map csv_line rs) k = Inr rates"
    unfolding rates_at_def using assms row_reads by (intro collect_ok) auto
  have at: "\<exists>rows. rows_at (map csv_line rs) k rate = Inr rows" for rate
    unfolding rows_at_def using assms row_reads by (intro collect_ok) auto
  obtain rs' where rs': "rates_at (map csv_line rs) k = Inr rs'" using rates ..
  have "\<exists>cs. collect (remdups rs') (\<lambda>rate. seq (rows_at (map csv_line rs) k rate) (\<lambda>rows.
      Inr (if int (length rows) = runs \<and> list_all row_valid rows then [rate] else []))) = Inr cs"
    using at by (intro collect_ok) (metis seq.simps(2))
  then have "\<exists>cs. candidates (map csv_line rs) runs k = Inr cs" by (simp add: candidates_def rs')
  then show ?thesis by (auto simp: highest_of_def)
qed

lemma rows_summary:
  assumes "\<forall>r\<in>set rs. row_readable r"
  shows "\<exists>s. write_summaries (map csv_line rs) runs = Inr s"
proof -
  obtain grouped invalid where g: "for_each (map csv_line rs) split_row ([], []) = Inr (grouped, invalid)"
    using split_rows_ok[OF assms] by (metis surj_pair)
  obtain hs where hs: "collect (sort_key fst grouped) (\<lambda>g. seq (headline_of runs g) (\<lambda>h. Inr [h])) = Inr hs"
    using collect_ok[of "sort_key fst grouped" "\<lambda>g. seq (headline_of runs g) (\<lambda>h. Inr [h])"] headline_of_ok
    by (metis seq.simps(2))
  have "\<exists>ks. collect (map csv_line rs) (\<lambda>row. seq (config_of row) (\<lambda>k. Inr [k])) = Inr ks"
    using assms row_reads(1) by (intro collect_ok) auto
  then obtain ks where ks: "collect (map csv_line rs) (\<lambda>row. seq (config_of row) (\<lambda>k. Inr [k])) = Inr ks" ..
  have "\<exists>highest. collect (sort (remdups ks)) (highest_of (map csv_line rs) runs) = Inr highest"
    by (intro collect_ok highest_of_ok[OF assms])
  then obtain highest where "collect (sort (remdups ks)) (highest_of (map csv_line rs) runs) = Inr highest" ..
  then show ?thesis by (simp add: write_summaries_def g hs ks)
qed


section \<open>A result file\<close>

lemma sample_floats: "outcome_floats default_args sample_outcome"
proof -
  have "is_float (Fin (numeral k))" if "numeral k \<le> (2 ^ 53 :: int)" for k
    using is_float_to_float[of "numeral k"] to_float_numeral[OF that] by simp
  then show ?thesis unfolding outcome_floats_def sample_state by (simp add: default_args_def)
qed

lemma short_sample: "short_int 2"
  by (simp add: short_small)

theorem result_row_read_back_witness:
  "\<exists>r line. result_row default_args ''direct'' 2 2 1 sample_outcome = Inr r \<and> row_valid line \<and>
     headline_key_of line = Inr (''smoke'', ''epoll'', 2, 2, Fin 1000) \<and> number line ''p50_ms'' = value_of r ''p50_ms''"
proof -
  obtain r where r: "result_row default_args ''direct'' 2 2 1 sample_outcome = Inr r" "tr_valid r" using sample_row by blast
  have "''p50_ms'' \<in> set MEDIAN_FIELDS" by (simp add: MEDIAN_FIELDS_def)
  with result_row_read_back[OF r(1) sample_floats short_sample short_sample] r show ?thesis
    by (auto simp: default_args_def)
qed

lemma single_summary: "row_readable r \<Longrightarrow> \<exists>s. write_summaries [csv_line r] 1 = Inr s"
  using rows_summary[of "[r]"] by simp

theorem verdicts_reported_example:
  "\<exists>r s. write_summaries (map csv_line [r]) 1 = Inr s \<and> tr_valid r \<and> su_valid_trials s = 1 \<and>
     fst ` set (su_highest_sustainable s) = {(''dense'', ''epoll'', 2)}"
proof -
  obtain r0 where r0: "result_row default_args ''direct'' 2 2 1 sample_outcome = Inr r0" "tr_valid r0" using sample_row by blast
  define r where "r = r0\<lparr>tr_experiment := ''dense''\<rparr>"
  have "row_readable r0" by (rule result_row_readable[OF r0(1) sample_floats short_sample short_sample])
  then have r: "row_readable r" "tr_valid r"
    using r0(2) by (auto simp: r_def row_readable_def row_items_def parameter_items_def load_items_def incident_items_def metric_items_def)
  have key: "row_config r = (''dense'', ''epoll'', 2)" "tr_global_offered_rate_s r = Fin 1000"
    using result_row_parameters(1)[OF r0(1)] by (simp_all add: r_def row_config_def row_key_def default_args_def)
  obtain s where s: "write_summaries (map csv_line [r]) 1 = Inr s" using single_summary[OF r(1)] by auto
  have "\<forall>r\<in>set [r]. row_readable r" "\<forall>r\<in>set [r]. tr_global_offered_rate_s r \<noteq> NaN" using r key by simp_all
  from verdicts_reported[OF s this] have "su_valid_trials s = 1"
    "fst ` set (su_highest_sustainable s) = {k \<in> {(''dense'', ''epoll'', 2)}. fst k \<in> {''dense'', ''broadcast''}}"
    using r(2) key by simp_all
  then show ?thesis using s r(2) by (intro exI[of _ r] exI[of _ s]) auto
qed

text \<open>A harness error with a quote, a comma and a line end in it.\<close>

theorem result_file_survives_text_witness:
  "\<exists>limit r names cells. result_table [r] = Inr (names, cells) \<and> tr_harness_error r = ''a, b'' @ [CHR 0x22, CHR 0x0D, CHR 0x0A] \<and>
     dict_reader limit False (csv_text (names # cells)) = Inr [csv_line r]"
proof -
  obtain r0 where "result_row default_args ''direct'' 2 2 1 sample_outcome = Inr r0" using sample_row by blast
  define r where "r = r0\<lparr>tr_harness_error := ''a, b'' @ [CHR 0x22, CHR 0x0D, CHR 0x0A]\<rparr>"
  obtain names cells where t: "result_table [r] = Inr (names, cells)" using result_table_rows[of "[r]"] by auto
  define limit where "limit = sum_list (map (\<lambda>(f, c). length f + length (cell_text c)) (row_items r))"
  have "length f + length (cell_text c) \<le> limit" if "(f, c) \<in> set (row_items r)" for f c
    using that member_le_sum_list[of "length f + length (cell_text c)" "map (\<lambda>(f, c). length f + length (cell_text c)) (row_items r)"]
    by (force simp: limit_def)
  then have "\<forall>r\<in>set [r]. fits limit r" by (fastforce simp: fits_def list_all_iff)
  from result_file_survives_text[OF t this, of False] t show ?thesis
    by (intro exI[of _ limit] exI[of _ r] exI[of _ names] exI[of _ cells]) (simp add: r_def)
qed


end
