(* ===== verification/Bench_Main.thy ===== *)
theory Bench_Main
  imports Trial_Run Result_File "HOL-Library.Sublist"
begin

text \<open>
  The whole benchmark (\<^verbatim>\<open>main\<close> of \<^verbatim>\<open>bench/benchmark.py\<close>) after its command line is parsed: the checks,
  the planned trials one after the other, their report and the result file. The surroundings of
  every trial are an argument, indexed by the number of trials before it. The line with the versions of
  the system and of Python that is printed first is left out.
\<close>

section \<open>The trials of a benchmark\<close>

record trial_world =
  tw_surroundings :: surroundings
  tw_timestamp :: string
  tw_affinity :: bool
  tw_log :: "string list"
  tw_pipes :: "pipe list"

definition perform ::
  "nat \<Rightarrow> bench_args \<Rightarrow> trial_world \<Rightarrow> string \<times> int \<times> int \<times> int \<Rightarrow> (py_exn + trial_row) option" where
  "perform fuel a world plan =
     (case plan of (workload, total_connections, active_connections, run) \<Rightarrow>
        map_option snd (run_trial fuel (tw_surroundings world) a workload total_connections active_connections run
          (tw_timestamp world) (tw_affinity world) (tw_log world) (tw_pipes world)))"

text \<open>The rows, what was printed, and the exception that ended the loop early.\<close>

fun run_planned ::
  "nat \<Rightarrow> bench_args \<Rightarrow> (nat \<Rightarrow> trial_world) \<Rightarrow> nat \<Rightarrow> (string \<times> int \<times> int \<times> int) list \<Rightarrow>
   (trial_row list \<times> string list \<times> py_exn option) option" where
  "run_planned fuel a worlds k [] = Some ([], [], None)"
| "run_planned fuel a worlds k (plan # plans) =
     (case perform fuel a (worlds k) plan of
        None \<Rightarrow> None
      | Some (Inl e) \<Rightarrow> Some ([], [], Some e)
      | Some (Inr row) \<Rightarrow>
          map_option (\<lambda>(rows, printed, err). (row # rows, print_result row @ printed, err))
            (run_planned fuel a worlds (Suc k) plans))"

record bench_run =
  br_rows :: "trial_row list"
  br_printed :: "string list"
  br_file :: "csv_table option"
  br_error :: "py_exn option"

text \<open>The summary and the result file, once all trials have run.\<close>

definition finish_benchmark :: "bench_args \<Rightarrow> trial_row list \<Rightarrow> string list \<Rightarrow> bench_run" where
  "finish_benchmark a rows printed =
     (case print_summary rows of
        Inl e \<Rightarrow> \<lparr> br_rows = rows, br_printed = printed, br_file = None, br_error = Some e \<rparr>
      | Inr lines \<Rightarrow>
          (case arg_output a of
             None \<Rightarrow> \<lparr> br_rows = rows, br_printed = printed @ lines, br_file = None, br_error = None \<rparr>
           | Some path \<Rightarrow>
               (case result_table rows of
                  Inl e \<Rightarrow> \<lparr> br_rows = rows, br_printed = printed @ lines, br_file = None, br_error = Some e \<rparr>
                | Inr table \<Rightarrow>
                    \<lparr> br_rows = rows, br_printed = printed @ lines @ [[], ''wrote '' @ path], br_file = Some table,
                      br_error = None \<rparr>)))"

text \<open>The trials before a planned trial that is refused have run; then the parser reports the error.\<close>

definition end_benchmark :: "bench_args \<Rightarrow> py_exn option \<Rightarrow> trial_row list \<times> string list \<times> py_exn option \<Rightarrow> bench_run" where
  "end_benchmark a stop res =
     (case res of (rows, printed, err) \<Rightarrow>
        (case (err, stop) of
           (Some e, _) \<Rightarrow> \<lparr> br_rows = rows, br_printed = printed, br_file = None, br_error = Some e \<rparr>
         | (None, Some e) \<Rightarrow> \<lparr> br_rows = rows, br_printed = printed, br_file = None, br_error = Some e \<rparr>
         | (None, None) \<Rightarrow> finish_benchmark a rows printed))"

definition benchmark_main :: "nat \<Rightarrow> bool \<Rightarrow> bench_args \<Rightarrow> (nat \<Rightarrow> trial_world) \<Rightarrow> bench_run option" where
  "benchmark_main fuel executable a worlds =
     (case check_args executable a of
        Inl e \<Rightarrow> Some \<lparr> br_rows = [], br_printed = [], br_file = None, br_error = Some e \<rparr>
      | Inr u \<Rightarrow>
          (case planned_trials a of (plans, stop) \<Rightarrow>
             map_option (end_benchmark a stop) (run_planned fuel a worlds 0 plans)))"

section \<open>The rows are those of the plan\<close>

definition row_of_plan :: "bench_args \<Rightarrow> string \<times> int \<times> int \<times> int \<Rightarrow> trial_row \<Rightarrow> bool" where
  "row_of_plan a plan r =
     (case plan of (workload, total_connections, active_connections, run) \<Rightarrow>
        tr_workload r = workload \<and>
        row_key r = (arg_experiment a, arg_label a, total_connections, active_connections, arg_rate a) \<and>
        tr_run r = arg_trial_id a + run - 1)"

definition is_result :: "bench_args \<Rightarrow> trial_row \<Rightarrow> bool" where
  "is_result a r \<longleftrightarrow> (\<exists>workload conns active run oc. result_row a workload conns active run oc = Inr r)"

lemma perform_row:
  assumes "perform fuel a world plan = Some (Inr r)"
  shows "row_of_plan a plan r" "is_result a r"
proof -
  obtain w c n run where plan: "plan = (w, c, n, run)" by (cases plan)
  obtain oc where oc: "result_row a w c n run oc = Inr r"
    using assms by (auto simp: perform_def run_trial_def plan)
  from result_row_parameters[OF oc] show "row_of_plan a plan r" by (simp add: row_of_plan_def plan)
  show "is_result a r" unfolding is_result_def using oc by blast
qed

lemma run_planned_rows:
  "run_planned fuel a worlds k plans = Some (rows, printed, err) \<Longrightarrow>
     list_all2 (row_of_plan a) (take (length rows) plans) rows \<and> list_all (is_result a) rows \<and>
     (err = None \<longrightarrow> length rows = length plans)"
proof (induction plans arbitrary: k rows printed err)
  case (Cons plan plans)
  then show ?case
    by (fastforce split: option.splits sum.splits dest: perform_row)
qed simp

lemma run_planned_performed:
  "run_planned fuel a worlds k plans = Some (rows, printed, err) \<Longrightarrow> r \<in> set rows \<Longrightarrow>
     \<exists>j. \<exists>plan\<in>set plans. perform fuel a (worlds j) plan = Some (Inr r)"
proof (induction plans arbitrary: k rows printed err)
  case (Cons plan plans)
  then obtain row rest printed' where c: "perform fuel a (worlds k) plan = Some (Inr row)"
    "run_planned fuel a worlds (Suc k) plans = Some (rest, printed', err)" "rows = row # rest"
    by (auto split: option.splits sum.splits)
  then show ?case using Cons.IH[OF c(2)] Cons.prems(2) by auto
qed simp

lemma run_trial_settles:
  "time_passes su \<Longrightarrow> settles (\<lambda>fuel. run_trial fuel su a w c n run ts aff ls pipes)"
  unfolding run_trial_def by (rule settles_map) (use trial_body_ends in \<open>auto simp: stage_ends_def\<close>)

lemma run_planned_settles:
  assumes "\<forall>j. time_passes (tw_surroundings (worlds j))"
  shows "settles (\<lambda>fuel. run_planned fuel a worlds k plans)"
proof (induction plans arbitrary: k)
  case (Cons plan plans)
  obtain w c n run where plan: "plan = (w, c, n, run)" by (cases plan)
  obtain N x where N: "perform fuel a (worlds k) plan = Some x" if "N \<le> fuel" for fuel
    using run_trial_settles[OF spec[OF assms, of k], of a w c n run] unfolding settles_def perform_def plan by force
  obtain M y where M: "run_planned fuel a worlds (Suc k) plans = Some y" if "M \<le> fuel" for fuel
    using Cons.IH[of "Suc k"] unfolding settles_def by blast
  have "run_planned fuel a worlds k (plan # plans) = Some (case x of Inl e \<Rightarrow> ([], [], Some e)
      | Inr row \<Rightarrow> case y of (rows, printed, err) \<Rightarrow> (row # rows, print_result row @ printed, err))" if "max N M \<le> fuel" for fuel
    using N[of fuel] M[of fuel] that by (simp split: sum.split prod.split)
  then show ?case unfolding settles_def by blast
qed (simp add: settles_const)

lemma benchmark_main_settles:
  assumes "\<forall>j. time_passes (tw_surroundings (worlds j))"
  shows "settles (\<lambda>fuel. benchmark_main fuel executable a worlds)"
proof -
  obtain plans stop where p: "planned_trials a = (plans, stop)" by (cases "planned_trials a")
  have "settles (\<lambda>fuel. map_option (end_benchmark a stop) (run_planned fuel a worlds 0 plans))"
    by (rule settles_map[OF run_planned_settles[OF assms]])
  then show ?thesis by (cases "check_args executable a") (simp_all add: benchmark_main_def p settles_const)
qed

text \<open>What a benchmark leaves when it ends without an exception.\<close>

lemma finish_benchmark_ok:
  assumes "br_error (finish_benchmark a rows printed) = None"
  shows "br_rows (finish_benchmark a rows printed) = rows"
    "map_option read_table (br_file (finish_benchmark a rows printed)) =
       (if arg_output a = None then None else Some (map csv_line rows))"
    "\<exists>lines. print_summary rows = Inr lines \<and> prefix (printed @ lines) (br_printed (finish_benchmark a rows printed))"
proof -
  obtain lines where l: "print_summary rows = Inr lines" using assms by (cases "print_summary rows") (auto simp: finish_benchmark_def)
  have ne: "rows \<noteq> []" if "arg_output a = Some path" for path
    using assms that by (auto simp: finish_benchmark_def l result_table_def)
  show "br_rows (finish_benchmark a rows printed) = rows"
    by (auto simp: finish_benchmark_def l split: option.split sum.split)
  show "map_option read_table (br_file (finish_benchmark a rows printed)) =
       (if arg_output a = None then None else Some (map csv_line rows))"
  proof (cases "arg_output a")
    case None
    then show ?thesis by (simp add: finish_benchmark_def l)
  next
    case (Some path)
    then show ?thesis using result_table_rows[OF ne[OF Some]] by (auto simp: finish_benchmark_def l)
  qed
  show "\<exists>lines. print_summary rows = Inr lines \<and> prefix (printed @ lines) (br_printed (finish_benchmark a rows printed))"
    using l by (auto simp: finish_benchmark_def split: option.split sum.split)
qed

lemma finish_benchmark_error: "br_error (finish_benchmark a rows printed) = Some e \<Longrightarrow> br_file (finish_benchmark a rows printed) = None"
  by (auto simp: finish_benchmark_def split: option.splits sum.splits)

lemma end_benchmark_error: "br_error (end_benchmark a stop res) = Some e \<Longrightarrow> br_file (end_benchmark a stop res) = None"
  by (auto simp: end_benchmark_def finish_benchmark_error split: prod.splits option.splits)

lemma benchmark_main_ok:
  assumes "benchmark_main fuel executable a worlds = Some r" "br_error r = None"
  shows "check_args executable a = Inr ()" "snd (planned_trials a) = None"
    "list_all2 (row_of_plan a) (fst (planned_trials a)) (br_rows r)" "list_all (is_result a) (br_rows r)"
    "map_option read_table (br_file r) = (if arg_output a = None then None else Some (map csv_line (br_rows r)))"
proof -
  obtain plans stop rows printed err where c: "check_args executable a = Inr ()" "planned_trials a = (plans, stop)"
    "run_planned fuel a worlds 0 plans = Some (rows, printed, err)" "r = end_benchmark a stop (rows, printed, err)"
    using assms by (auto simp: benchmark_main_def split: sum.splits prod.splits)
  have e: "err = None" "stop = None" "r = finish_benchmark a rows printed"
    using assms(2) by (auto simp: c(4) end_benchmark_def split: option.splits)
  note ok = finish_benchmark_ok[of a rows printed, folded e(3), OF assms(2)]
  show "check_args executable a = Inr ()" "snd (planned_trials a) = None" using c(1,2) e(2) by simp_all
  show "list_all2 (row_of_plan a) (fst (planned_trials a)) (br_rows r)" "list_all (is_result a) (br_rows r)"
    using run_planned_rows[OF c(3)] e(1) c(2) ok(1) by (metis fst_conv order_refl take_all, simp)
  show "map_option read_table (br_file r) = (if arg_output a = None then None else Some (map csv_line (br_rows r)))"
    using ok(1,2) by simp
qed

lemma benchmark_main_performed:
  assumes "benchmark_main fuel executable a worlds = Some r" "br_error r = None" "row \<in> set (br_rows r)"
  shows "\<exists>j. \<exists>plan\<in>set (fst (planned_trials a)). perform fuel a (worlds j) plan = Some (Inr row)"
proof -
  obtain plans stop rows printed err where c: "planned_trials a = (plans, stop)"
    "run_planned fuel a worlds 0 plans = Some (rows, printed, err)" "r = end_benchmark a stop (rows, printed, err)"
    using assms(1,2) by (auto simp: benchmark_main_def split: sum.splits prod.splits)
  have e: "r = finish_benchmark a rows printed" using assms(2) by (auto simp: c(3) end_benchmark_def split: option.splits)
  have "row \<in> set rows" using assms(2,3) finish_benchmark_ok(1)[of a rows printed] by (simp add: e)
  then show ?thesis using run_planned_performed[OF c(2)] by (simp add: c(1))
qed



end
