(* ===== verification/Host_Readings.thy ===== *)
theory Host_Readings
  imports Py_Float Py_Format Comma_Lists
begin

text \<open>
  Values that the harness takes from the operating system: the CPU time of the server from
  \<^verbatim>\<open>/proc/<pid>/stat\<close> (\<^verbatim>\<open>server_cpu_seconds\<close> of \<^verbatim>\<open>bench/benchmark.py\<close>), the command that pins the server
  to a processor (\<^verbatim>\<open>run_trial\<close>), and the processor's name (\<^verbatim>\<open>cpu_model\<close> of \<^verbatim>\<open>bench/compare.py\<close>). The
  texts of the files are arguments, \<open>None\<close> standing for an \<^verbatim>\<open>OSError\<close>.
\<close>

section \<open>Words and positions\<close>

text \<open>\<^verbatim>\<open>text.split()\<close>: the words between runs of white space.\<close>

function str_split :: "string \<Rightarrow> string list" where
  "str_split s =
     (let t = dropWhile is_str_space s
      in if t = [] then []
         else takeWhile (\<lambda>c. \<not> is_str_space c) t # str_split (dropWhile (\<lambda>c. \<not> is_str_space c) t))"
  by pat_completeness auto
termination
proof (relation "measure length")
  fix s t :: string assume t: "t = dropWhile is_str_space s" "t \<noteq> []"
  then obtain c r where c: "t = c # r" "\<not> is_str_space c" by (metis hd_dropWhile list.collapse)
  have "length (dropWhile (\<lambda>c. \<not> is_str_space c) r) \<le> length r" by (rule length_dropWhile_le)
  moreover have "length t \<le> length s" unfolding t(1) by (rule length_dropWhile_le)
  ultimately show "(dropWhile (\<lambda>c. \<not> is_str_space c) t, s) \<in> measure length" using c by simp
qed simp

declare str_split.simps [simp del]

definition is_word :: "string \<Rightarrow> bool" where
  "is_word w \<longleftrightarrow> w \<noteq> [] \<and> list_all (\<lambda>c. \<not> is_str_space c) w"

lemma str_split_space: "is_str_space c \<Longrightarrow> str_split (c # s) = str_split s"
  by (subst (1 2) str_split.simps) simp

lemma str_split_Nil [simp]: "str_split [] = []"
  by (subst str_split.simps) simp

lemma str_split_word:
  assumes "is_word w" "s = [] \<or> is_str_space (hd s)"
  shows "str_split (w @ s) = w # str_split s"
proof -
  obtain c r where w: "w = c # r" using assms(1) by (cases w) (auto simp: is_word_def)
  have w_chars: "\<not> is_str_space x" if "x \<in> set w" for x using assms(1) that by (auto simp: is_word_def list_all_iff)
  have "dropWhile is_str_space (w @ s) = w @ s" using w_chars[of c] by (simp add: w)
  moreover have "takeWhile (\<lambda>c. \<not> is_str_space c) (w @ s) = w" "dropWhile (\<lambda>c. \<not> is_str_space c) (w @ s) = s"
    using assms(2) w_chars by (cases s; force simp: takeWhile_append2 dropWhile_append2)+
  ultimately show ?thesis by (subst str_split.simps) (simp add: w)
qed

lemma str_split_join: "list_all is_word ws \<Longrightarrow> is_str_space c \<Longrightarrow> str_split (join [c] ws) = ws"
proof (induction "[c]" ws rule: join.induct)
  case (2 w)
  then show ?case using str_split_word[of w "[]"] by simp
next
  case (3 w v ws)
  then show ?case using str_split_word[of w "c # join [c] (v # ws)"] by (simp add: str_split_space)
qed simp

lemma str_split_append_space:
  assumes "list_all is_word ws" "is_str_space c" "list_all is_str_space t"
  shows "str_split (join [c] ws @ t) = ws"
proof -
  have blank: "str_split t = []" using assms(3) by (induction t) (simp_all add: str_split_space)
  show ?thesis
    using assms(1,2)
  proof (induction "[c]" ws rule: join.induct)
    case (2 w)
    then show ?case using str_split_word[of w t] assms(3) blank by (cases t) simp_all
  next
    case (3 w v ws)
    then show ?case using str_split_word[of w "c # join [c] (v # ws) @ t"] by (simp add: str_split_space)
  qed (simp add: blank)
qed

section \<open>The CPU time of the server\<close>

text \<open>The text after the last closing parenthesis and one more character; \<^verbatim>\<open>rfind\<close> gives \<open>-1\<close> if there is none.\<close>

definition after_command :: "string \<Rightarrow> string" where
  "after_command stat =
     (let tail = takeWhile (\<lambda>c. c \<noteq> CHR '')'') (rev stat)
      in if length tail = length stat then drop 1 stat else drop 1 (rev tail))"

text \<open>
  The time is in ticks, \<open>ticks_per_second\<close> of them to a second (\<^verbatim>\<open>SC_CLK_TCK\<close>). A field that is
  missing and a field that is no number are no reading.
\<close>

definition server_cpu_seconds :: "string option \<Rightarrow> int \<Rightarrow> py_exn + pyfloat option" where
  "server_cpu_seconds stat ticks_per_second =
     (case stat of None \<Rightarrow> Inr None
      | Some text \<Rightarrow>
          let columns = str_split (after_command text)
          in if length columns \<le> 12 then Inr None
             else case (py_int (columns ! 11), py_int (columns ! 12)) of
                 (Some user, Some system) \<Rightarrow>
                   seq (int_div (user + system) ticks_per_second) (\<lambda>x. Inr (Some x))
               | _ \<Rightarrow> Inr None)"

lemma after_command_append:
  "CHR '')'' \<notin> set s \<Longrightarrow> after_command (p @ CHR '')'' # c # s) = s" if "c \<noteq> CHR '')''"
proof -
  assume "CHR '')'' \<notin> set s"
  then have "takeWhile (\<lambda>c. c \<noteq> CHR '')'') (rev (p @ CHR '')'' # c # s)) = rev s @ [c]"
    using that takeWhile_append2[of "rev s @ [c]" "\<lambda>c. c \<noteq> CHR '')''" "CHR '')'' # rev p"] by fastforce
  then show ?thesis by (simp add: after_command_def Let_def)
qed

text \<open>C29: the CPU time is read from the right columns whatever the command of the server is called: the name,
  which stands in parentheses in the second column, may itself contain spaces and parentheses. If the
  columns after it are numbers, the reading is the sum of the user and the system time, in seconds.\<close>

theorem server_cpu_seconds_any_name:
  assumes "list_all (\<lambda>w. is_word w \<and> CHR '')'' \<notin> set w) columns" "length columns \<ge> 13"
    and "columns ! 11 = show_int user" "columns ! 12 = show_int system" "0 \<le> user" "0 \<le> system"
    and "user < 10 ^ 18" "system < 10 ^ 18" "0 < ticks_per_second"
  shows "\<exists>x. server_cpu_seconds (Some (pid @ '' ('' @ name @ '') '' @ join '' '' columns @ [CHR 0x0A])) ticks_per_second =
      Inr (Some x) \<and> int_div (user + system) ticks_per_second = Inr x"
proof -
  have plain: "CHR '')'' \<notin> set (join '' '' columns @ [CHR 0x0A])"
    using assms(1) by (induction "'' ''" columns rule: join.induct) auto
  have spaces: "is_str_space (CHR '' '')" "is_str_space (CHR 0x0A)" by (simp_all add: is_str_space_def is_space_def)
  have "str_split (after_command (pid @ '' ('' @ name @ '') '' @ join '' '' columns @ [CHR 0x0A])) = columns"
    using after_command_append[OF _ plain, of "CHR '' ''" "pid @ '' ('' @ name"]
      str_split_append_space[of columns "CHR '' ''" "[CHR 0x0A]"] assms(1) spaces
    by (simp add: list_all_iff)
  moreover have "py_int (show_int n) = Some n" if "0 \<le> n" "n < 10 ^ 18" for n
  proof -
    have "nat n < 10 ^ 18" using that by (simp add: nat_less_iff)
    then have "length (show_nat (nat \<bar>n\<bar>)) \<le> 18" using length_show_nat[of "nat n" 18] that by simp
    then show ?thesis by (intro py_int_show_int) simp
  qed
  moreover have "\<exists>x. int_div (user + system) ticks_per_second = Inr x"
  proof -
    have "(of_int (user + system) :: rat) / of_int ticks_per_second \<le> of_int (user + system)"
      using assms(5,6,9) by (simp add: divide_le_eq mult_le_cancel_left1)
    also have "\<dots> \<le> of_int (2 * 10 ^ 18)" using assms(7,8) by (simp only: of_int_le_iff)
    also have "\<dots> \<le> (2 ^ 1023 :: rat)" by simp
    finally have "\<bar>of_int (user + system) / of_int ticks_per_second :: rat\<bar> \<le> 2 ^ 1023"
      using assms(5,6,9) by (simp add: abs_of_nonneg)
    then show ?thesis using assms(9) to_float_bounded by (simp add: int_div_def)
  qed
  ultimately show ?thesis using assms(2-8) by (auto simp: server_cpu_seconds_def)
qed

text \<open>A line of a server whose command has a space and a parenthesis in its name, and how it ends for others.\<close>

definition stat_columns :: "string list" where
  "stat_columns = ''S'' # replicate 10 ''0'' @ [''250'', ''50''] @ replicate 30 ''0''"

theorem server_cpu_seconds_any_name_witness:
  "server_cpu_seconds (Some (''17'' @ '' ('' @ ''a) server (2'' @ '') '' @ join '' '' stat_columns @ [CHR 0x0A])) 100 = Inr (Some (Fin 3))"
proof -
  have w: "list_all (\<lambda>w. is_word w \<and> CHR '')'' \<notin> set w) stat_columns"
    by (simp add: stat_columns_def is_word_def is_str_space_def is_space_def list_all_iff)
  have n: "stat_columns ! 11 = show_int 250" "stat_columns ! 12 = show_int 50"
    by (simp_all add: stat_columns_def nth_append show_int_def show_nat.simps[of 250] show_nat.simps[of 25] show_nat.simps[of 2]
        show_nat.simps[of 50] show_nat.simps[of 5] digit_char_def char_of_def bit_iff_odd)
  have "length stat_columns \<ge> 13" by (simp add: stat_columns_def)
  from server_cpu_seconds_any_name[OF w this n, of 100 "''17''" "''a) server (2''"]
  show ?thesis by (simp add: int_div_def float_simps)
qed

section \<open>The command of the server and its processor\<close>

text \<open>The words that start the server, pinned to a processor if one is given.\<close>

definition server_command :: "string \<Rightarrow> int option \<Rightarrow> string list" where
  "server_command server_path server_cpu =
     (case server_cpu of None \<Rightarrow> [server_path]
      | Some cpu \<Rightarrow> [''taskset'', ''-c'', show_int cpu, server_path])"

text \<open>\<open>affinity\<close> is what \<^verbatim>\<open>os.sched_getaffinity\<close> answers, \<open>None\<close> an error.\<close>

definition server_affinity :: "int set option \<Rightarrow> int option \<Rightarrow> bool" where
  "server_affinity affinity server_cpu =
     (case server_cpu of None \<Rightarrow> False
      | Some cpu \<Rightarrow> (case affinity of None \<Rightarrow> False | Some cpus \<Rightarrow> cpus = {cpu}))"

section \<open>The name of the processor\<close>

text \<open>
  The first line that starts with \<^verbatim>\<open>model name\<close>; without a colon in it, \<^verbatim>\<open>split\<close> has no second part.
  \<open>processor\<close> is what \<^verbatim>\<open>platform.processor\<close> answers.
\<close>

fun model_line :: "string list \<Rightarrow> py_exn + string option" where
  "model_line [] = Inr None"
| "model_line (line # rest) =
     (if take 10 line = ''model name''
      then (case split_first (CHR '':'') line of None \<Rightarrow> Inl IndexError | Some (a, b) \<Rightarrow> Inr (Some (str_strip b)))
      else model_line rest)"

definition cpu_model :: "string list option \<Rightarrow> string \<Rightarrow> py_exn + string" where
  "cpu_model cpuinfo processor =
     (let fallback = (if processor \<noteq> [] then processor else ''unknown'')
      in case cpuinfo of None \<Rightarrow> Inr fallback
         | Some lines \<Rightarrow> seq (model_line lines) (\<lambda>m. Inr (case m of None \<Rightarrow> fallback | Some name \<Rightarrow> name)))"

end
