(* ===== verification/Sweep_Metadata.thy ===== *)
theory Sweep_Metadata
  imports Sweep_Run Host_Readings
begin

text \<open>
  The record of a sweep (\<^verbatim>\<open>metadata\<close> of \<^verbatim>\<open>bench/compare.py\<close>), which is written beside its results: where and
  with what it ran, its plan, its parameters, the commands that were started and those that were
  skipped. What the operating system and the tools answer is an argument (\<open>host_facts\<close>).
\<close>

section \<open>Lines\<close>

text \<open>\<^verbatim>\<open>text.splitlines()\<close>, for characters below 256.\<close>

definition is_line_break :: "char \<Rightarrow> bool" where
  "is_line_break c \<longleftrightarrow> c \<in> {CHR 0x0A, CHR 0x0B, CHR 0x0C, CHR 0x0D, CHR 0x1C, CHR 0x1D, CHR 0x1E, CHR 0x85}"

fun split_lines :: "string \<Rightarrow> string \<Rightarrow> string list" where
  "split_lines line [] = (if line = [] then [] else [line])"
| "split_lines line (c # s) =
     (if is_line_break c
      then line # split_lines [] (if c = CHR 0x0D \<and> take 1 s = [CHR 0x0A] then drop 1 s else s)
      else split_lines (line @ [c]) s)"

definition str_lines :: "string \<Rightarrow> string list" where
  "str_lines s = split_lines [] s"

lemma split_lines_Nil [simp]: "split_lines line s = [] \<longleftrightarrow> line = [] \<and> s = []"
  by (induction line s rule: split_lines.induct) auto

lemma split_lines_plain:
  "list_all (\<lambda>c. \<not> is_line_break c) l \<Longrightarrow> split_lines line (l @ s) = split_lines (line @ l) s"
  by (induction l arbitrary: line) simp_all

text \<open>Lines that are ended by a line feed each are read back.\<close>

lemma str_lines_unlines:
  "list_all (list_all (\<lambda>c. \<not> is_line_break c)) ls \<Longrightarrow> str_lines (concat (map (\<lambda>l. l @ [CHR 0x0A]) ls)) = ls"
  unfolding str_lines_def by (induction ls) (simp_all add: split_lines_plain is_line_break_def[of "CHR 0x0A"])

section \<open>The record\<close>

definition HARNESS_VERSION :: string where
  "HARNESS_VERSION = ''comparison-v2-process-validity''"

definition RELEASE_FLAGS :: string where
  "RELEASE_FLAGS = ''-std=c++17 -Wall -Wextra -pedantic -O2 -DNDEBUG''"

text \<open>
  \<open>hf_compiler\<close>: what the compiler prints about its version. \<open>hf_cpuinfo\<close>: the text of
  \<^verbatim>\<open>/proc/cpuinfo\<close>, \<open>None\<close> if it cannot be read. \<open>hf_argv\<close>: the command line of the sweep itself.
\<close>

record host_facts =
  hf_created_utc :: string
  hf_dirty_status :: string
  hf_compiler :: string
  hf_kernel :: string
  hf_system :: string
  hf_cpuinfo :: "string option"
  hf_processor :: string
  hf_logical_cpus :: "int option"
  hf_soft_fds :: int
  hf_hard_fds :: int
  hf_argv :: "string list"

record sweep_parameters =
  sp_runs :: int
  sp_duration :: pyfloat
  sp_warmup :: pyfloat
  sp_warmup_rate :: pyfloat
  sp_drain :: pyfloat
  sp_payload_size :: int
  sp_min_delivery_ratio :: pyfloat
  sp_min_deadline_completion_ratio :: pyfloat
  sp_max_missed_offer_ratio :: pyfloat
  sp_max_scheduler_lag_ms :: pyfloat
  sp_max_read_service_gap_ms :: pyfloat
  sp_max_latency_p99_ms :: pyfloat

record sweep_metadata =
  md_created_utc :: string
  md_result_directory :: string
  md_git_sha :: string
  md_git_dirty :: bool
  md_git_dirty_status :: "string list"
  md_compiler :: string
  md_release_flags :: string
  md_kernel :: string
  md_system :: string
  md_cpu :: string
  md_logical_cpus :: "int option"
  md_fd_limit_soft :: int
  md_fd_limit_hard :: int
  md_harness_version :: string
  md_worker_processes :: int
  md_server_cpu :: "int option"
  md_worker_cpus :: "int list"
  md_invocation :: string
  md_implementations :: "string list"
  md_servers :: "string \<rightharpoonup> string"
  md_workload_groups :: "group list"
  md_parameters :: sweep_parameters
  md_historical_results_compatible :: bool
  md_commands :: "run_record list"
  md_skipped :: "skip_record list"

definition parameters_of :: "sweep_args \<Rightarrow> sweep_parameters" where
  "parameters_of a =
     \<lparr> sp_runs = sa_runs a, sp_duration = sa_duration a, sp_warmup = sa_warmup a, sp_warmup_rate = sa_warmup_rate a,
       sp_drain = sa_drain a, sp_payload_size = sa_payload_size a, sp_min_delivery_ratio = sa_min_delivery_ratio a,
       sp_min_deadline_completion_ratio = sa_min_deadline_completion_ratio a,
       sp_max_missed_offer_ratio = sa_max_missed_offer_ratio a, sp_max_scheduler_lag_ms = sa_max_scheduler_lag_ms a,
       sp_max_read_service_gap_ms = sa_max_read_service_gap_ms a, sp_max_latency_p99_ms = sa_max_latency_p99_ms a \<rparr>"

text \<open>A compiler that prints nothing has no first line.\<close>

definition metadata ::
  "string \<Rightarrow> host_facts \<Rightarrow> sweep_args \<Rightarrow> string \<Rightarrow> string list \<Rightarrow> string \<Rightarrow> group list \<Rightarrow> py_exn + sweep_metadata" where
  "metadata home f a directory implementations git_sha groups =
     seq (case str_lines (hf_compiler f) of [] \<Rightarrow> Inl IndexError | line # rest \<Rightarrow> Inr line) (\<lambda>compiler.
     seq (cpu_model (map_option str_lines (hf_cpuinfo f)) (hf_processor f)) (\<lambda>cpu.
     seq (if sa_worker_cpus a \<noteq> [] then comma_values py_int (sa_worker_cpus a) else Inr []) (\<lambda>worker_cpus.
       Inr \<lparr> md_created_utc = hf_created_utc f, md_result_directory = directory, md_git_sha = git_sha,
         md_git_dirty = (hf_dirty_status f \<noteq> []), md_git_dirty_status = str_lines (hf_dirty_status f),
         md_compiler = compiler, md_release_flags = RELEASE_FLAGS, md_kernel = hf_kernel f, md_system = hf_system f,
         md_cpu = cpu, md_logical_cpus = hf_logical_cpus f, md_fd_limit_soft = hf_soft_fds f,
         md_fd_limit_hard = hf_hard_fds f, md_harness_version = HARNESS_VERSION, md_worker_processes = sa_workers a,
         md_server_cpu = sa_server_cpu a, md_worker_cpus = worker_cpus, md_invocation = shlex_join (hf_argv f),
         md_implementations = implementations,
         md_servers = map_of (map (\<lambda>name. (name, server_binary home name)) implementations),
         md_workload_groups = groups, md_parameters = parameters_of a, md_historical_results_compatible = False,
         md_commands = [], md_skipped = [] \<rparr>)))"

text \<open>The sweep adds to the record what it starts and what it skips.\<close>

definition with_runs :: "sweep_metadata \<Rightarrow> sweep_state \<Rightarrow> sweep_metadata" where
  "with_runs md st = md\<lparr>md_commands := sw_commands st, md_skipped := sw_skipped st\<rparr>"

text \<open>What the host has to tell for the record to be complete.\<close>

definition host_tells :: "host_facts \<Rightarrow> bool" where
  "host_tells f \<longleftrightarrow>
     hf_compiler f \<noteq> [] \<and> (\<exists>cpu. cpu_model (map_option str_lines (hf_cpuinfo f)) (hf_processor f) = Inr cpu)"

lemma accepted_worker_cpus:
  assumes "plan_sweep a = Inr (implementations, groups)"
  shows "\<exists>cpus. (if sa_worker_cpus a \<noteq> [] then comma_values py_int (sa_worker_cpus a) else Inr []) = Inr cpus"
  using assms by (auto simp: plan_sweep_def seq_Inr_iff split: if_splits sum.splits py_exn.splits)

lemma metadata_total:
  assumes "plan_sweep a = Inr (implementations, groups)" "host_tells f"
  shows "\<exists>md. metadata home f a directory implementations git_sha groups = Inr md"
proof -
  obtain line rest where "str_lines (hf_compiler f) = line # rest"
    using assms(2) by (cases "str_lines (hf_compiler f)") (auto simp: host_tells_def str_lines_def)
  moreover obtain cpu where "cpu_model (map_option str_lines (hf_cpuinfo f)) (hf_processor f) = Inr cpu"
    using assms(2) unfolding host_tells_def by blast
  moreover obtain cpus where "(if sa_worker_cpus a \<noteq> [] then comma_values py_int (sa_worker_cpus a) else Inr []) = Inr cpus"
    using accepted_worker_cpus[OF assms(1)] ..
  ultimately show ?thesis unfolding metadata_def by simp
qed

lemma map_of_keyed: "x \<in> set xs \<Longrightarrow> map_of (map (\<lambda>x. (x, f x)) xs) x = Some (f x)"
  by (induction xs) auto

lemma metadata_says:
  assumes "metadata home f a directory implementations git_sha groups = Inr md"
  shows "md_parameters md = parameters_of a" "md_worker_processes md = sa_workers a" "md_server_cpu md = sa_server_cpu a"
    "name \<in> set implementations \<Longrightarrow> md_servers md name = Some (server_binary home name)"
    "md_implementations md = implementations" "md_workload_groups md = groups" "md_result_directory md = directory"
    "sa_worker_cpus a \<noteq> [] \<Longrightarrow> comma_values py_int (sa_worker_cpus a) = Inr (md_worker_cpus md)"
    "sa_worker_cpus a = [] \<Longrightarrow> md_worker_cpus md = []"
  using assms by (auto simp: metadata_def seq_Inr_iff map_of_keyed split: list.splits if_splits)

section \<open>The commands in the record\<close>

text \<open>The words of a recorded command, and the file it was told to write.\<close>

definition group_of_record :: "run_record \<Rightarrow> group" where
  "group_of_record c =
     \<lparr> g_experiment = rr_experiment c, g_workload = rr_workload c, g_total = rr_total_connections c,
       g_active = rr_active_connections c, g_rates = [] \<rparr>"

definition words_of_record :: "sweep_env \<Rightarrow> run_record \<Rightarrow> string list" where
  "words_of_record env c =
     command_of env (rr_trial c) (group_of_record c) (rr_global_rate c) (rr_implementation c)"

definition path_of_record :: "sweep_env \<Rightarrow> run_record \<Rightarrow> string" where
  "path_of_record env c =
     output_path env (rr_trial c) (group_of_record c) (rr_global_rate c) (rr_implementation c)"

lemma command_of_rates: "command_of env trial (g\<lparr>g_rates := rs\<rparr>) rate label = command_of env trial g rate label"
  "output_path env trial (g\<lparr>g_rates := rs\<rparr>) rate label = output_path env trial g rate label"
  by (simp_all add: command_of_def output_path_def output_name_def benchmark_command_def benchmark_options_def)

text \<open>
  A raising command leaves the state in which the loop is: its entry is in the record, and so is its file
  among those that are collected.
\<close>

definition command_entry :: "sweep_env \<Rightarrow> int \<Rightarrow> group \<Rightarrow> pyfloat \<Rightarrow> string \<Rightarrow> sweep_state \<Rightarrow> run_record" where
  "command_entry env trial g rate label st =
     \<lparr> rr_trial = trial, rr_implementation = label, rr_server = server_binary (se_home env) label,
       rr_experiment = g_experiment g, rr_workload = g_workload g, rr_total_connections = g_total g,
       rr_active_connections = g_active g, rr_global_rate = rate,
       rr_command = shlex_join (command_of env trial g rate label),
       rr_returncode = bo_returncode (se_runner env (length (sw_commands st)) (command_of env trial g rate label)) \<rparr>"

definition left_by_one :: "sweep_env \<Rightarrow> int \<Rightarrow> group \<Rightarrow> pyfloat \<Rightarrow> string \<Rightarrow> sweep_state \<Rightarrow> sweep_state" where
  "left_by_one env trial g rate label st =
     st\<lparr>sw_commands := sw_commands st @ [command_entry env trial g rate label st],
        sw_paths := sw_paths st @ [output_path env trial g rate label]\<rparr>"

text \<open>The state that a loop leaves, whether it ends or its body raises.\<close>

fun left_by :: "'x list \<Rightarrow> ('x \<Rightarrow> 's \<Rightarrow> py_exn + 's) \<Rightarrow> ('x \<Rightarrow> 's \<Rightarrow> 's) \<Rightarrow> 's \<Rightarrow> 's" where
  "left_by [] body left s = s"
| "left_by (x # xs) body left s = (case body x s of Inl e \<Rightarrow> left x s | Inr s' \<Rightarrow> left_by xs body left s')"

definition left_by_rate :: "sweep_env \<Rightarrow> string list \<Rightarrow> int \<Rightarrow> group \<Rightarrow> pyfloat \<Rightarrow> sweep_state \<Rightarrow> sweep_state" where
  "left_by_rate env implementations trial g rate =
     left_by (execution_order implementations trial) (run_one env trial g rate) (left_by_one env trial g rate)"

definition left_by_group :: "sweep_env \<Rightarrow> string list \<Rightarrow> int \<Rightarrow> group \<Rightarrow> sweep_state \<Rightarrow> sweep_state" where
  "left_by_group env implementations trial g st =
     left_by (g_rates g) (run_rate env implementations trial g) (left_by_rate env implementations trial g)
       (st\<lparr>sw_active := set implementations\<rparr>)"

definition left_by_sweep :: "sweep_env \<Rightarrow> string list \<Rightarrow> group list \<Rightarrow> sweep_state" where
  "left_by_sweep env implementations groups =
     left_by [1..sa_runs (se_args env)] (\<lambda>trial. for_each groups (run_group env implementations trial))
       (\<lambda>trial. left_by groups (run_group env implementations trial) (left_by_group env implementations trial))
       \<lparr> sw_active = {}, sw_commands = [], sw_skipped = [], sw_paths = [] \<rparr>"

text \<open>The record that is written, even if the loop raises.\<close>

definition written_record :: "sweep_env \<Rightarrow> string list \<Rightarrow> group list \<Rightarrow> sweep_metadata \<Rightarrow> sweep_metadata" where
  "written_record env implementations groups md = with_runs md (left_by_sweep env implementations groups)"

lemma left_by_Inr: "for_each xs body s = Inr s' \<Longrightarrow> left_by xs body left s = s'"
  by (induction xs arbitrary: s) (auto simp: exn_simps split: sum.splits)

lemma left_by_sweep_Inr: "run_sweep env implementations groups = Inr st \<Longrightarrow> left_by_sweep env implementations groups = st"
  by (simp add: run_sweep_def left_by_sweep_def left_by_Inr)

text \<open>What holds of the state between rounds, and of the state and the exception when a round raises.\<close>

lemma left_by_cases:
  assumes "P s" "\<And>x s s'. x \<in> set xs \<Longrightarrow> P s \<Longrightarrow> body x s = Inr s' \<Longrightarrow> P s'"
    and "\<And>x s e. x \<in> set xs \<Longrightarrow> P s \<Longrightarrow> body x s = Inl e \<Longrightarrow> Q e (left x s)"
  shows "(\<forall>s'. for_each xs body s = Inr s' \<longrightarrow> P s') \<and> (\<forall>e. for_each xs body s = Inl e \<longrightarrow> Q e (left_by xs body left s))"
  using assms
proof (induction xs arbitrary: s)
  case (Cons x xs)
  show ?case
  proof (cases "body x s")
    case (Inl e)
    then show ?thesis using Cons.prems by simp
  next
    case (Inr t)
    then have t: "P t" using Cons.prems(1) Cons.prems(2)[of x s t] by simp
    have "(\<forall>s'. for_each xs body t = Inr s' \<longrightarrow> P s') \<and>
        (\<forall>e. for_each xs body t = Inl e \<longrightarrow> Q e (left_by xs body left t))"
    proof (rule Cons.IH[OF t])
      fix y s s' assume "y \<in> set xs" "P s" "body y s = Inr s'"
      then show "P s'" using Cons.prems(2)[of y s s'] by simp
    next
      fix y s e assume "y \<in> set xs" "P s" "body y s = Inl e"
      then show "Q e (left y s)" using Cons.prems(3)[of y s e] by simp
    qed
    then show ?thesis using Inr by simp
  qed
qed simp

text \<open>Each entry tells the command that was started in its place and how it ended.\<close>

definition recorded :: "sweep_env \<Rightarrow> sweep_state \<Rightarrow> bool" where
  "recorded env st \<longleftrightarrow> (\<forall>(k, c)\<in>set (enumerate 0 (sw_commands st)).
     rr_command c = shlex_join (words_of_record env c) \<and>
     rr_returncode c = bo_returncode (se_runner env k (words_of_record env c)))"

definition stopped_at_empty_file :: "sweep_env \<Rightarrow> py_exn \<Rightarrow> sweep_state \<Rightarrow> bool" where
  "stopped_at_empty_file env e st \<longleftrightarrow> recorded env st \<and> e = StopIteration \<and>
     (\<exists>before c. sw_commands st = before @ [c] \<and> rr_returncode c = 0 \<and>
        bo_rows (se_runner env (length before) (words_of_record env c)) = Some [])"

lemma entry_words: "words_of_record env (command_entry env trial g rate label st) = command_of env trial g rate label"
proof -
  have "group_of_record (command_entry env trial g rate label st) = g\<lparr>g_rates := []\<rparr>"
    by (simp add: group_of_record_def command_entry_def)
  then show ?thesis by (simp add: words_of_record_def command_of_rates) (simp add: command_entry_def)
qed

lemma recorded_entry:
  assumes "recorded env st" "sw_commands st' = sw_commands st @ [command_entry env trial g rate label st]"
  shows "recorded env st'"
  using assms by (auto simp: recorded_def enumerate_snoc entry_words) (simp_all add: command_entry_def)

lemma run_one_recorded:
  assumes "recorded env st"
  shows "(\<forall>st'. run_one env trial g rate label st = Inr st' \<longrightarrow> recorded env st') \<and>
    (\<forall>e. run_one env trial g rate label st = Inl e \<longrightarrow> stopped_at_empty_file env e (left_by_one env trial g rate label st))"
proof (cases "label \<in> sw_active st")
  case False
  then show ?thesis using assms by (simp add: run_one_def recorded_def)
next
  case True
  let ?o = "se_runner env (length (sw_commands st)) (command_of env trial g rate label)"
  have r: "run_one env trial g rate label st =
    (if bo_returncode ?o \<noteq> 0 \<or> bo_rows ?o = None
     then Inr (st\<lparr>sw_commands := sw_commands st @ [command_entry env trial g rate label st], sw_active := sw_active st - {label}\<rparr>)
     else (case the (bo_rows ?o) of [] \<Rightarrow> Inl StopIteration
       | row # rows \<Rightarrow> Inr (st\<lparr>sw_commands := sw_commands st @ [command_entry env trial g rate label st],
           sw_paths := sw_paths st @ [output_path env trial g rate label],
           sw_active := (if row_valid row then sw_active st else sw_active st - {label})\<rparr>)))"
    using True by (simp add: run_one_def Let_def command_entry_def split: list.split)
  have "recorded env st'" if "run_one env trial g rate label st = Inr st'" for st'
    using that unfolding r by (intro recorded_entry[OF assms]) (auto split: if_splits list.splits)
  moreover have "stopped_at_empty_file env e (left_by_one env trial g rate label st)"
    if "run_one env trial g rate label st = Inl e" for e
  proof -
    have "recorded env (left_by_one env trial g rate label st)"
      by (rule recorded_entry[OF assms]) (simp add: left_by_one_def)
    moreover have "bo_returncode ?o = 0" "bo_rows ?o = Some []" "e = StopIteration"
      using that unfolding r by (auto split: if_splits list.splits)
    ultimately show ?thesis
      by (simp add: stopped_at_empty_file_def left_by_one_def entry_words) (simp add: command_entry_def)
  qed
  ultimately show ?thesis by blast
qed

lemma run_sweep_recorded:
  "(\<forall>st. run_sweep env implementations groups = Inr st \<longrightarrow> recorded env st) \<and>
   (\<forall>e. run_sweep env implementations groups = Inl e \<longrightarrow> stopped_at_empty_file env e (left_by_sweep env implementations groups))"
proof -
  have rate: "(\<forall>s'. run_rate env implementations trial g r s = Inr s' \<longrightarrow> recorded env s') \<and>
    (\<forall>e. run_rate env implementations trial g r s = Inl e \<longrightarrow>
       stopped_at_empty_file env e (left_by_rate env implementations trial g r s))" if "recorded env s" for trial g r s
    unfolding run_rate_def left_by_rate_def
    by (rule left_by_cases[where P = "recorded env"]) (use that run_one_recorded in blast)+
  have group: "(\<forall>s'. run_group env implementations trial g s = Inr s' \<longrightarrow> recorded env s') \<and>
    (\<forall>e. run_group env implementations trial g s = Inl e \<longrightarrow>
       stopped_at_empty_file env e (left_by_group env implementations trial g s))" if "recorded env s" for trial g s
    unfolding run_group_def left_by_group_def
    by (rule left_by_cases[where P = "recorded env"]) (use that rate in \<open>auto simp: recorded_def\<close>)
  have trial: "(\<forall>s'. for_each groups (run_group env implementations trial) s = Inr s' \<longrightarrow> recorded env s') \<and>
    (\<forall>e. for_each groups (run_group env implementations trial) s = Inl e \<longrightarrow> stopped_at_empty_file env e
       (left_by groups (run_group env implementations trial) (left_by_group env implementations trial) s))"
    if "recorded env s" for trial s
    by (rule left_by_cases[where P = "recorded env"]) (use that group in blast)+
  show ?thesis
    unfolding run_sweep_def left_by_sweep_def
    by (rule left_by_cases[where P = "recorded env"]) (use trial in \<open>auto simp: recorded_def\<close>)
qed


end
