(* ===== verification/Sweep_Main.thy ===== *)
theory Sweep_Main
  imports Bench_Main Trial_Account Sweep_Metadata
begin

text \<open>
  The whole sweep (\<^verbatim>\<open>main\<close> of \<^verbatim>\<open>bench/compare.py\<close> after its command line is parsed) and its composition
  with the benchmark that it runs: the processes that it starts are those of \<open>Bench_Main\<close>, the files it
  reads are the ones these wrote.
\<close>

section \<open>A benchmark as a process\<close>

text \<open>The exit code of Python: \<^verbatim>\<open>parser.error\<close> exits with 2, any other exception with 1.\<close>

definition exit_code :: "py_exn option \<Rightarrow> int" where
  "exit_code err = (case err of None \<Rightarrow> 0 | Some (ArgumentError s) \<Rightarrow> 2 | Some _ \<Rightarrow> 1)"

definition benchmark_process ::
  "nat \<Rightarrow> bool \<Rightarrow> (nat \<Rightarrow> trial_world) \<Rightarrow> string list \<Rightarrow> bench_outcome option" where
  "benchmark_process fuel executable worlds arguments =
     (case parse_args arguments of
        Inl e \<Rightarrow> Some \<lparr> bo_returncode = 2, bo_rows = None \<rparr>
      | Inr a \<Rightarrow>
          map_option (\<lambda>r. \<lparr> bo_returncode = exit_code (br_error r), bo_rows = map_option read_table (br_file r) \<rparr>)
            (benchmark_main fuel executable a worlds))"

section \<open>The files of a sweep\<close>

text \<open>What the directory holds after the commands, in their order: a path and the rows in the file.\<close>

definition write_file :: "sweep_env \<Rightarrow> nat \<times> run_record \<Rightarrow> (string \<rightharpoonup> csv_row list) \<Rightarrow> (string \<rightharpoonup> csv_row list)" where
  "write_file env p disk =
     (case bo_rows (se_runner env (fst p) (words_of_record env (snd p))) of
        None \<Rightarrow> disk
      | Some rows \<Rightarrow> disk(path_of_record env (snd p) \<mapsto> rows))"

definition files_of :: "sweep_env \<Rightarrow> sweep_state \<Rightarrow> string \<rightharpoonup> csv_row list" where
  "files_of env st = fold (write_file env) (enumerate 0 (sw_commands st)) Map.empty"

definition content_of :: "sweep_env \<Rightarrow> sweep_state \<Rightarrow> string \<Rightarrow> csv_row list" where
  "content_of env st path = get_default [] (files_of env st path)"

section \<open>The sweep\<close>

record sweep_report =
  sr_directory :: string
  sr_state :: sweep_state
  sr_rows :: "csv_row list"
  sr_table :: "csv_table option"
  sr_summary :: summary
  sr_printed :: "string list"

definition show_rate :: "pyfloat option \<Rightarrow> string" where
  "show_rate best = (case best of None \<Rightarrow> ''None'' | Some x \<Rightarrow> show_float x)"

definition summary_text :: "summary \<Rightarrow> string \<Rightarrow> string list" where
  "summary_text s directory =
     [[], ''valid_trials='' @ show_nat (su_valid_trials s) @ '' invalid_trials='' @ show_nat (su_invalid_trials s)] @
     map (\<lambda>((experiment, label, total), best).
       ''highest_sustainable experiment='' @ experiment @ '' label='' @ label @ '' total='' @ show_int total @
       '' rate='' @ show_rate best) (su_highest_sustainable s) @
     [''results='' @ directory]"

text \<open>
  \<open>make\<close>: does the build succeed? \<open>built\<close>: is the server of that path executable then? \<open>sha\<close>, \<open>timestamp\<close> and \<open>existing\<close>: the revision, the
  time and the paths that exist; \<open>facts\<close>: what goes into the record. The rest is as in \<open>sweep_env\<close>.
\<close>

record sweep_host =
  sh_exe :: string
  sh_home :: string
  sh_make :: bool
  sh_built :: "string \<Rightarrow> bool"
  sh_sha :: string
  sh_timestamp :: string
  sh_existing :: "string set"
  sh_runner :: "nat \<Rightarrow> string list \<Rightarrow> bench_outcome"
  sh_facts :: host_facts

definition sweep_environment :: "sweep_host \<Rightarrow> sweep_args \<Rightarrow> string \<Rightarrow> sweep_env" where
  "sweep_environment host a directory =
     \<lparr> se_exe = sh_exe host, se_home = sh_home host, se_directory = directory, se_args = a, se_runner = sh_runner host \<rparr>"

definition report_sweep :: "sweep_env \<Rightarrow> sweep_state \<Rightarrow> py_exn + sweep_report" where
  "report_sweep env st =
     (case combine_csvs (content_of env st) (sw_paths st) of (rows, table) \<Rightarrow>
        seq (write_summaries rows (sa_runs (se_args env))) (\<lambda>s.
          Inr \<lparr> sr_directory = se_directory env, sr_state = st, sr_rows = rows, sr_table = table, sr_summary = s,
            sr_printed = summary_text s (se_directory env) \<rparr>))"

text \<open>
  What is written as the record, if anything, and the report or the exception. The build has failed, a
  server is missing, or the record cannot be begun: then no benchmark is started.
\<close>

definition compare_main ::
  "nat \<Rightarrow> sweep_host \<Rightarrow> sweep_args \<Rightarrow> (sweep_metadata option \<times> (py_exn + sweep_report)) option" where
  "compare_main fuel host a =
     (case plan_sweep a of
        Inl e \<Rightarrow> Some (None, Inl e)
      | Inr (implementations, groups) \<Rightarrow>
          if \<not> sa_no_build a \<and> \<not> sh_make host then Some (None, Inl CalledProcessError)
          else if \<not> list_all (\<lambda>name. sh_built host (server_binary (sh_home host) name)) implementations
          then Some (None, Inl (ArgumentError ''release server not built''))
          else
            map_option (\<lambda>(directory, existing).
              let env = sweep_environment host a directory
              in case metadata (sh_home host) (sh_facts host) a directory implementations (sh_sha host) groups of
                   Inl e \<Rightarrow> (None, Inl e)
                 | Inr md \<Rightarrow>
                     (Some (written_record env implementations groups md),
                      seq (run_sweep env implementations groups) (report_sweep env)))
              (new_result_directory fuel (sa_result_root a) (sh_timestamp host) (sa_name a) (take 7 (sh_sha host))
                (sh_existing host)))"

section \<open>One command\<close>

text \<open>The runner starts the benchmark: some amount of fuel is enough for it.\<close>

definition runs_benchmark :: "(nat \<Rightarrow> string list \<Rightarrow> bench_outcome) \<Rightarrow> (nat \<Rightarrow> nat \<Rightarrow> trial_world) \<Rightarrow> bool" where
  "runs_benchmark runner worlds \<longleftrightarrow>
     (\<forall>k words. \<exists>fuel. benchmark_process fuel True (worlds k) (drop 2 words) = Some (runner k words))"

text \<open>The trial of a command: its row is a result for the requested parameters.\<close>

definition trial_of_command :: "sweep_args \<Rightarrow> int \<Rightarrow> group \<Rightarrow> pyfloat \<Rightarrow> string \<Rightarrow> trial_row \<Rightarrow> bool" where
  "trial_of_command a trial g rate label r \<longleftrightarrow>
     row_key r = (g_experiment g, label, g_total g, g_active g, rate) \<and> tr_workload r = g_workload g \<and> tr_run r = trial"

text \<open>What the sweep hands to a command can be handed over; in particular no path looks like an option.\<close>

definition plain_path :: "string \<Rightarrow> bool" where
  "plain_path path \<longleftrightarrow> path \<noteq> [] \<and> hd path \<noteq> CHR ''-''"

definition command_sendable :: "sweep_env \<Rightarrow> int \<Rightarrow> group \<Rightarrow> pyfloat \<Rightarrow> string \<Rightarrow> bool" where
  "command_sendable env trial g rate label \<longleftrightarrow>
     sendable (se_args env) \<and> sendable_float rate \<and> short_int trial \<and> group_ok g \<and> short_int (g_total g) \<and>
     short_int (g_active g) \<and> label \<in> set SERVERS \<and> is_value (server_binary (se_home env) label) \<and>
     plain_path (se_directory env) \<and>
     (\<exists>cpus. if sa_worker_cpus (se_args env) = [] then cpus = []
        else csv_values py_int (sa_worker_cpus (se_args env)) = Inr cpus)"

lemma output_is_value: "plain_path (se_directory env) \<Longrightarrow> is_value (output_path env trial g rate label)"
  by (simp add: output_path_def is_value_def plain_path_def)

lemma parse_command:
  assumes "command_sendable env trial g rate label"
  obtains cpus where "parse_args (drop 2 (command_of env trial g rate label)) =
      Inr (requested_args (se_home env) (se_args env) g rate label (output_path env trial g rate label) trial cpus)"
    "if sa_worker_cpus (se_args env) = [] then cpus = [] else csv_values py_int (sa_worker_cpus (se_args env)) = Inr cpus"
proof -
  obtain cpus where cpus: "if sa_worker_cpus (se_args env) = [] then cpus = []
      else csv_values py_int (sa_worker_cpus (se_args env)) = Inr cpus"
    using assms unfolding command_sendable_def by blast
  then show thesis
    using assms that[OF _ cpus] parse_benchmark_options[of "se_args env" rate trial g label "se_home env" _ cpus] benchmark_options_required
    by (simp add: command_sendable_def output_is_value parse_args_def command_of_def benchmark_command_def)
qed

text \<open>The plan of the requested parameters, if it is not refused.\<close>

lemma single_plan:
  assumes "arg_tiers b = [t]" "arg_workloads b = [w]" "arg_active_connections b = Some n" "arg_runs b = 1"
    and "snd (planned_trials b) = None"
  shows "fst (planned_trials b) = [(w, t, n, 1)]"
  using assms by (auto simp: planned_trials_def active_count_def Let_def split: if_splits)

lemma requested_plan:
  assumes "snd (planned_trials (requested_args home a g rate label out trial cpus)) = None"
  shows "fst (planned_trials (requested_args home a g rate label out trial cpus)) = [(g_workload g, g_total g, g_active g, 1)]"
  by (rule single_plan[OF _ _ _ _ assms]) (simp_all add: requested_args_def)

section \<open>The floats that the workers send\<close>

definition state_floats :: "state_dict \<Rightarrow> bool" where
  "state_floats st \<longleftrightarrow> is_float (the (d_floats st ''max_read_service_gap_ms'')) \<and> is_float (the (d_floats st ''start_skew_ms''))"

definition message_floats :: "message \<Rightarrow> bool" where
  "message_floats m \<longleftrightarrow> (\<forall>st. m = Result st \<longrightarrow> state_floats (dict_of st))"

definition floats_sent :: "pipe list \<Rightarrow> bool" where
  "floats_sent ps \<longleftrightarrow> (\<forall>p\<in>set ps. \<forall>m\<in>set (messages_of p). message_floats m)"

lemma took_floats:
  "took expected ps ms ps' \<Longrightarrow> floats_sent ps \<Longrightarrow> floats_sent ps' \<and> list_all message_floats ms"
  by (induction expected ps ms ps' rule: took.induct) (auto simp: floats_sent_def)

lemma is_float_py_max: "is_float x \<Longrightarrow> is_float y \<Longrightarrow> is_float (py_max x y)"
  by (simp add: py_max_def)

lemma is_float_max_default: "\<forall>x\<in>set xs. is_float x \<Longrightarrow> is_float (max_default xs)"
proof (cases xs)
  case (Cons x ys)
  assume "\<forall>x\<in>set xs. is_float x"
  moreover have "is_float x \<Longrightarrow> \<forall>y\<in>set ys. is_float y \<Longrightarrow> is_float (foldl py_max x ys)" for x
    by (induction ys arbitrary: x) (simp_all add: is_float_py_max)
  ultimately show ?thesis by (simp add: max_default_def Cons)
qed (simp add: max_default_def)

lemma is_float_fabs: "is_float x \<Longrightarrow> is_float (fabs x)"
proof (cases x)
  case (Fin r)
  assume "is_float x"
  then have "to_float r = Fin r" using to_float_fixed by (simp add: Fin is_float_def)
  then have "to_float (- r) = Fin (- r)" by (rule to_float_minus)
  then show ?thesis using is_float_to_float[of "- r"] \<open>is_float x\<close> by (cases "r < 0") (simp_all add: Fin)
qed simp_all

lemma merged_floats:
  assumes "\<forall>st\<in>set sts. state_floats (dict_of st)"
  shows "state_floats (merge_states fsum (map dict_of sts))"
  using assms unfolding state_floats_def merge_states_def Let_def order_states_dicts
  by (auto intro!: is_float_max_default is_float_fabs)

lemma states_of_results: "states_of ms = map dict_of (List.map_filter (\<lambda>m. case m of Result st \<Rightarrow> Some st | _ \<Rightarrow> None) ms)"
  by (induction ms) (auto simp: states_of_def List.map_filter_def split: message.splits)

lemma states_floats:
  assumes "list_all message_floats ms"
  shows "state_floats (merge_states fsum (states_of ms))"
proof -
  have "state_floats (dict_of st)" if "st \<in> set (List.map_filter (\<lambda>m. case m of Result st \<Rightarrow> Some st | _ \<Rightarrow> None) ms)" for st
  proof -
    have "Result st \<in> set ms" using that by (induction ms) (auto simp: List.map_filter_def split: message.splits)
    then show ?thesis using assms by (auto simp: list_all_iff message_floats_def)
  qed
  then show ?thesis unfolding states_of_results by (intro merged_floats) blast
qed

lemma fresh_floats: "fresh_state t \<Longrightarrow> state_floats (t_state t)"
  by (simp add: fresh_state_def state_floats_def dict_of_def empty_state_def)

lemma trial_floats:
  assumes "trial_body fuel su a w c n run (start_trial pipes) = Some (t, err)" "floats_sent pipes"
  shows "state_floats (t_state t)"
proof (cases err)
  case (Some e)
  have "fresh_state (start_trial pipes)" by (simp add: fresh_state_def start_trial_def)
  then have "fresh_state t" using trial_body_fails_fresh assms(1) Some unfolding leads_def by fastforce
  then show ?thesis by (rule fresh_floats)
next
  case None
  obtain t1 t2 t3 t4 where s: "setup_workers su c (start_trial pipes) = Some (t1, None)"
    and wu: "warm_up su a w c n run t1 = Some (t2, None)"
    and p: "launch_profiler su a t2 = Inr t3"
    and m: "wait_for_metrics fuel su 1 (\<lambda>_ t. t) t3 = Some (t4, None)"
    and d: "with_phase su a w c n (arg_duration a) (phase_token c n run) (measure_phase fuel su a) t4 = Some (t, None)"
    using assms(1) None by (auto simp: trial_body_def after_None stage_of_None)
  have start: "floats_sent (t_pipes (start_trial pipes))" using assms(2) by (simp add: start_trial_def)
  have "floats_sent (t_pipes t1)" using s start took_floats by (elim setup_workers_None) blast
  then have "floats_sent (t_pipes t2)" using wu took_floats by (elim warm_up_None) (auto simp: wire_def)
  moreover have "t_pipes t4 = t_pipes t2" using launch_profiler_Inr[OF p] wait_for_metrics_None[OF m] by auto
  ultimately have f: "floats_sent (t_pipes t4)" by simp
  obtain ph where "measure_phase fuel su a ph (t4\<lparr>t_tick := Suc (t_tick t4)\<rparr>) = Some (t, None)"
    using d by (auto simp: with_phase_def split: sum.splits)
  from measure_phase_None[OF this] obtain ms where ms: "took ''result'' (t_pipes t4) ms (t_pipes t)"
    "t_state t = merge_states (sum_floats su) (states_of ms)" by auto
  show ?thesis unfolding ms(2) using took_floats[OF ms(1) f] states_floats by blast
qed

lemma perform_readable:
  assumes "perform fuel a world (w, c, n, run) = Some (Inr r)" "floats_sent (tw_pipes world)"
    and "is_float (arg_duration a)" "is_float (arg_rate a)" "short_int c" "short_int n"
  shows "row_readable r"
proof -
  obtain t err where t: "trial_body fuel (tw_surroundings world) a w c n run (start_trial (tw_pipes world)) = Some (t, err)"
    and r: "result_row a w c n run (outcome_of (tw_surroundings world) a c (tw_timestamp world) (tw_affinity world) (tw_log world) t err) = Inr r"
    using assms(1) by (auto simp: perform_def run_trial_def)
  have "state_floats (t_state t)" by (rule trial_floats[OF t assms(2)])
  then show ?thesis using assms(3-6) by (intro result_row_readable[OF r]) (simp_all add: outcome_floats_def outcome_of_def state_floats_def)
qed

lemma command_row_readable:
  assumes "benchmark_main fuel True a worlds = Some res" "br_error res = None" "r \<in> set (br_rows res)"
    and "fst (planned_trials a) = [(w, c, n, run)]" "\<forall>j. floats_sent (tw_pipes (worlds j))"
    and "is_float (arg_duration a)" "is_float (arg_rate a)" "short_int c" "short_int n"
  shows "row_readable r"
  using benchmark_main_performed[OF assms(1-3)] perform_readable assms(4-9) by fastforce

section \<open>The rows of a sweep\<close>

lemma command_rows:
  assumes "runs_benchmark (se_runner env) worlds" "command_sendable env trial g rate label" "\<forall>k j. floats_sent (tw_pipes (worlds k j))"
    and "bo_rows (se_runner env k (command_of env trial g rate label)) = Some rows"
  obtains r cpus where "rows = [csv_line r]" "trial_of_command (se_args env) trial g rate label r"
    "is_result (requested_args (se_home env) (se_args env) g rate label (output_path env trial g rate label) trial cpus) r"
    "row_readable r"
proof -
  let ?out = "output_path env trial g rate label"
  obtain cpus where p: "parse_args (drop 2 (command_of env trial g rate label)) =
      Inr (requested_args (se_home env) (se_args env) g rate label ?out trial cpus)" (is "_ = Inr ?a")
    using parse_command[OF assms(2)] .
  obtain fuel where "benchmark_process fuel True (worlds k) (drop 2 (command_of env trial g rate label)) =
      Some (se_runner env k (command_of env trial g rate label))"
    using assms(1) unfolding runs_benchmark_def by blast
  then obtain res where m: "benchmark_main fuel True ?a (worlds k) = Some res"
    and o: "se_runner env k (command_of env trial g rate label) =
      \<lparr> bo_returncode = exit_code (br_error res), bo_rows = map_option read_table (br_file res) \<rparr>"
    by (auto simp: benchmark_process_def p)
  have f: "map_option read_table (br_file res) = Some rows" using assms(4) o by simp
  have e: "br_error res = None"
  proof (cases "br_error res")
    case (Some err)
    then have "br_file res = None" using m end_benchmark_error
      by (auto simp: benchmark_main_def split: sum.splits prod.splits)
    then show ?thesis using f by simp
  qed simp
  note ok = benchmark_main_ok[OF m e]
  have "list_all2 (row_of_plan ?a) [(g_workload g, g_total g, g_active g, 1)] (br_rows res)"
    using ok(3) requested_plan[OF ok(2)] by simp
  then obtain r where r: "br_rows res = [r]" "row_of_plan ?a (g_workload g, g_total g, g_active g, 1) r"
    by (auto simp: list_all2_Cons1)
  show thesis
  proof (rule that)
    show "rows = [csv_line r]" using ok(5) f r(1) by (simp add: requested_args_def)
    show "trial_of_command (se_args env) trial g rate label r"
      using r(2) by (auto simp: row_of_plan_def trial_of_command_def requested_args_def)
    show "is_result ?a r" using ok(4) r(1) by simp
    have "is_float (arg_duration ?a)" "is_float (arg_rate ?a)" "short_int (g_total g)" "short_int (g_active g)"
      using assms(2) by (simp_all add: command_sendable_def sendable_def sendable_float_def requested_args_def)
    then show "row_readable r"
      using command_row_readable[OF m e _ requested_plan[OF ok(2)]] assms(3) r(1) by simp
  qed
qed

text \<open>A recorded command of the plan.\<close>

definition planned_command :: "sweep_env \<Rightarrow> string list \<Rightarrow> group list \<Rightarrow> run_record \<Rightarrow> bool" where
  "planned_command env implementations groups c \<longleftrightarrow>
     rr_trial c \<in> {1..sa_runs (se_args env)} \<and> rr_implementation c \<in> set implementations \<and>
     rr_server c = server_binary (se_home env) (rr_implementation c) \<and>
     rr_command c = shlex_join (words_of_record env c) \<and>
     (\<exists>g\<in>set groups. rr_global_rate c \<in> set (g_rates g) \<and> group_of_record c = g\<lparr>g_rates := []\<rparr>)"

text \<open>A result file that was collected is the one of a recorded command.\<close>

definition collected :: "sweep_env \<Rightarrow> sweep_state \<Rightarrow> bool" where
  "collected env st \<longleftrightarrow> (\<forall>path\<in>set (sw_paths st). \<exists>(k, c)\<in>set (enumerate 0 (sw_commands st)).
     path_of_record env c = path \<and> bo_rows (se_runner env k (words_of_record env c)) \<noteq> None)"

lemma run_one_record:
  assumes "run_one env trial g rate label st = Inr st'"
  shows "sw_commands st' = sw_commands st \<and> sw_paths st' = sw_paths st \<or>
    (\<exists>c. sw_commands st' = sw_commands st @ [c] \<and> rr_trial c = trial \<and> rr_implementation c = label \<and> rr_global_rate c = rate \<and>
       group_of_record c = g\<lparr>g_rates := []\<rparr> \<and> rr_server c = server_binary (se_home env) label \<and>
       rr_command c = shlex_join (words_of_record env c) \<and>
       (sw_paths st' = sw_paths st \<or> sw_paths st' = sw_paths st @ [path_of_record env c] \<and>
          bo_rows (se_runner env (length (sw_commands st)) (words_of_record env c)) \<noteq> None))"
proof (cases "label \<in> sw_active st")
  case True
  define c where "c = \<lparr> rr_trial = trial, rr_implementation = label, rr_server = server_binary (se_home env) label,
    rr_experiment = g_experiment g, rr_workload = g_workload g, rr_total_connections = g_total g,
    rr_active_connections = g_active g, rr_global_rate = rate, rr_command = shlex_join (command_of env trial g rate label),
    rr_returncode = bo_returncode (se_runner env (length (sw_commands st)) (command_of env trial g rate label)) \<rparr>"
  have g: "group_of_record c = g\<lparr>g_rates := []\<rparr>" by (simp add: group_of_record_def c_def)
  then have w: "words_of_record env c = command_of env trial g rate label" "path_of_record env c = output_path env trial g rate label"
    by (simp_all add: words_of_record_def path_of_record_def command_of_rates) (simp_all add: c_def)
  have "sw_commands st' = sw_commands st @ [c] \<and> (sw_paths st' = sw_paths st \<or> sw_paths st' = sw_paths st @ [path_of_record env c] \<and>
      bo_rows (se_runner env (length (sw_commands st)) (words_of_record env c)) \<noteq> None)"
    unfolding w using assms True by (auto simp: run_one_def Let_def c_def split: if_splits list.splits)
  then show ?thesis using g w(1) by (intro disjI2 exI[of _ c]) (simp add: c_def)
qed (use assms in \<open>auto simp: run_one_def\<close>)

lemma run_sweep_records:
  assumes "run_sweep env implementations groups = Inr st"
  shows "list_all (planned_command env implementations groups) (sw_commands st) \<and> collected env st"
proof -
  let ?P = "\<lambda>st. list_all (planned_command env implementations groups) (sw_commands st) \<and> collected env st"
  have one: "?P st'" if "run_one env trial g rate label st = Inr st'" "?P st" "trial \<in> {1..sa_runs (se_args env)}"
    "g \<in> set groups" "rate \<in> set (g_rates g)" "label \<in> set implementations" for trial g rate label st st'
    using run_one_record[OF that(1)] that(2-6)
    by (auto simp: planned_command_def collected_def enumerate_snoc)
  show ?thesis
    using assms unfolding run_sweep_def
  proof (rule for_each_invariant)
    show "?P \<lparr> sw_active = {}, sw_commands = [], sw_skipped = [], sw_paths = [] \<rparr>" by (simp add: collected_def)
    fix trial s s' assume t: "trial \<in> set [1..sa_runs (se_args env)]" "?P s" "for_each groups (run_group env implementations trial) s = Inr s'"
    from t(3,2) show "?P s'"
    proof (rule for_each_invariant)
      fix g s s' assume g: "g \<in> set groups" "?P s" "run_group env implementations trial g s = Inr s'"
      have "?P (s\<lparr>sw_active := set implementations\<rparr>)" using g(2) by (simp add: collected_def)
      with g(3)[unfolded run_group_def] show "?P s'"
      proof (rule for_each_invariant)
        fix rate s s' assume r: "rate \<in> set (g_rates g)" "?P s" "run_rate env implementations trial g rate s = Inr s'"
        from r(3)[unfolded run_rate_def] r(2) show "?P s'"
          by (rule for_each_invariant) (rule one, use t(1) g(1) r(1) in auto)
      qed
    qed
  qed
qed

text \<open>Everything in a plan can be handed over.\<close>

definition plan_sendable :: "sweep_env \<Rightarrow> string list \<Rightarrow> group list \<Rightarrow> bool" where
  "plan_sendable env implementations groups \<longleftrightarrow>
     (\<forall>trial\<in>{1..sa_runs (se_args env)}. \<forall>g\<in>set groups. \<forall>rate\<in>set (g_rates g). \<forall>label\<in>set implementations.
        command_sendable env trial g rate label)"

lemma command_sendable_rates:
  "command_sendable env trial g rate label \<Longrightarrow> command_sendable env trial (g\<lparr>g_rates := []\<rparr>) rate label"
  by (auto simp: command_sendable_def command_of_rates group_ok_def)

section \<open>The record of a sweep\<close>

text \<open>The parameters of a benchmark agree with the record of the sweep and with the record of the command.\<close>

definition as_recorded :: "sweep_metadata \<Rightarrow> run_record \<Rightarrow> bench_args \<Rightarrow> bool" where
  "as_recorded md c b \<longleftrightarrow>
     (let p = md_parameters md
      in arg_duration b = sp_duration p \<and> arg_warmup b = sp_warmup p \<and> arg_warmup_rate b = Some (sp_warmup_rate p) \<and>
         arg_drain b = sp_drain p \<and> arg_payload_size b = sp_payload_size p \<and>
         arg_min_delivery_ratio b = sp_min_delivery_ratio p \<and>
         arg_min_deadline_completion_ratio b = sp_min_deadline_completion_ratio p \<and>
         arg_max_missed_offer_ratio b = sp_max_missed_offer_ratio p \<and>
         arg_max_scheduler_lag_ms b = sp_max_scheduler_lag_ms p \<and>
         arg_max_read_service_gap_ms b = sp_max_read_service_gap_ms p \<and>
         arg_max_latency_p99_ms b = sp_max_latency_p99_ms p) \<and>
     arg_workers b = md_worker_processes md \<and> arg_server_cpu b = md_server_cpu md \<and> arg_worker_cpus b = md_worker_cpus md \<and>
     md_servers md (rr_implementation c) = Some (arg_server b) \<and> arg_server b = rr_server c \<and>
     arg_label b = rr_implementation c \<and> arg_experiment b = rr_experiment c \<and> arg_workloads b = [rr_workload c] \<and>
     arg_tiers b = [rr_total_connections c] \<and> arg_active_connections b = Some (rr_active_connections c) \<and>
     arg_rate b = rr_global_rate c \<and> arg_runs b = 1 \<and> arg_trial_id b = rr_trial c \<and>
     arg_profile b = ''none''"

lemma csv_values_comma: "csv_values cast s = Inr xs \<Longrightarrow> comma_values cast s = Inr xs"
  by (auto simp: csv_values_def seq_Inr_iff split: if_splits)

text \<open>C8: the record of a sweep is enough to run every trial again: each recorded command line, read by a shell
  and by the benchmark's parser, asks for exactly the parameters, limits, workers, processors and server that
  the record names, and for the trial, workload, connection counts and rate of the command's entry.\<close>

theorem recorded_commands_reproducible:
  assumes "plan_sendable env implementations groups" "run_sweep env implementations groups = Inr st"
    and "metadata (se_home env) f (se_args env) (se_directory env) implementations git_sha groups = Inr md"
  shows "\<forall>c\<in>set (md_commands (with_runs md st)). \<exists>words b. shell_split (rr_command c) = Some words \<and>
    parse_args (drop 2 words) = Inr b \<and> as_recorded (with_runs md st) c b"
proof
  fix c assume "c \<in> set (md_commands (with_runs md st))"
  then have c: "planned_command env implementations groups c"
    using run_sweep_records[OF assms(2)] by (simp add: with_runs_def list_all_iff)
  then have "command_sendable env (rr_trial c) (group_of_record c) (rr_global_rate c) (rr_implementation c)"
    using assms(1) command_sendable_rates unfolding planned_command_def plan_sendable_def by metis
  from parse_command[OF this] obtain cpus where
    p: "parse_args (drop 2 (words_of_record env c)) = Inr (requested_args (se_home env) (se_args env) (group_of_record c)
      (rr_global_rate c) (rr_implementation c) (path_of_record env c) (rr_trial c) cpus)"
    and cpus: "if sa_worker_cpus (se_args env) = [] then cpus = [] else csv_values py_int (sa_worker_cpus (se_args env)) = Inr cpus"
    unfolding words_of_record_def path_of_record_def by metis
  have "md_worker_cpus md = cpus"
    using cpus metadata_says(8,9)[OF assms(3)] by (auto dest: csv_values_comma split: if_splits)
  then have "as_recorded (with_runs md st) c (requested_args (se_home env) (se_args env) (group_of_record c)
      (rr_global_rate c) (rr_implementation c) (path_of_record env c) (rr_trial c) cpus)"
    using c metadata_says(1-4)[OF assms(3)]
    by (simp add: as_recorded_def with_runs_def requested_args_def parameters_of_def planned_command_def group_of_record_def
        default_args_def)
  moreover have "shell_split (rr_command c) = Some (words_of_record env c)"
    using c shlex_join_roundtrip by (simp add: planned_command_def)
  ultimately show "\<exists>words b. shell_split (rr_command c) = Some words \<and> parse_args (drop 2 words) = Inr b \<and>
      as_recorded (with_runs md st) c b"
    using p by blast
qed

section \<open>The files that are read\<close>

lemma write_files_Some:
  "fold (write_file env) ps disk path = Some rows \<Longrightarrow> disk path = Some rows \<or>
     (\<exists>(k, c)\<in>set ps. path_of_record env c = path \<and> bo_rows (se_runner env k (words_of_record env c)) = Some rows)"
proof (induction ps arbitrary: disk)
  case (Cons p ps)
  then have "fold (write_file env) ps (write_file env p disk) path = Some rows" by simp
  from Cons.IH[OF this] consider "write_file env p disk path = Some rows"
    | "\<exists>(k, c)\<in>set ps. path_of_record env c = path \<and> bo_rows (se_runner env k (words_of_record env c)) = Some rows"
    by blast
  then show ?case
  proof cases
    case 1
    then show ?thesis by (cases p) (auto simp: write_file_def split: option.splits if_splits)
  next
    case 2
    then show ?thesis by auto
  qed
qed simp

lemma write_files_exists:
  "disk path \<noteq> None \<or> (\<exists>(k, c)\<in>set ps. path_of_record env c = path \<and> bo_rows (se_runner env k (words_of_record env c)) \<noteq> None)
     \<Longrightarrow> fold (write_file env) ps disk path \<noteq> None"
proof (induction ps arbitrary: disk)
  case (Cons p ps)
  have "write_file env p disk path \<noteq> None \<or>
      (\<exists>(k, c)\<in>set ps. path_of_record env c = path \<and> bo_rows (se_runner env k (words_of_record env c)) \<noteq> None)"
    using Cons.prems by (cases p) (auto simp: write_file_def split: option.split)
  then have "fold (write_file env) ps (write_file env p disk) path \<noteq> None" by (rule Cons.IH)
  then show ?case by simp
qed simp

lemma collected_content:
  assumes "collected env st" "path \<in> set (sw_paths st)"
  obtains k c rows where "(k, c) \<in> set (enumerate 0 (sw_commands st))" "path_of_record env c = path"
    "bo_rows (se_runner env k (words_of_record env c)) = Some rows" "content_of env st path = rows"
proof -
  have "files_of env st path \<noteq> None"
    unfolding files_of_def using assms by (intro write_files_exists) (auto simp: collected_def)
  then obtain rows where r: "files_of env st path = Some rows" by auto
  from write_files_Some[OF this[unfolded files_of_def]] show thesis
    using that r by (auto simp: content_of_def get_default_def)
qed

text \<open>The trials of a sweep: for every collected file the row of a planned command, under the sweep's limits.\<close>

definition trial_of_file :: "sweep_env \<Rightarrow> sweep_state \<Rightarrow> string \<Rightarrow> trial_row \<Rightarrow> bool" where
  "trial_of_file env st path r \<longleftrightarrow>
     (\<exists>c\<in>set (sw_commands st). path_of_record env c = path \<and>
        trial_of_command (se_args env) (rr_trial c) (group_of_record c) (rr_global_rate c) (rr_implementation c) r \<and>
        (\<exists>cpus. is_result (requested_args (se_home env) (se_args env) (group_of_record c) (rr_global_rate c) (rr_implementation c)
           path (rr_trial c) cpus) r))"

lemma collected_trials:
  assumes "collected env st" "list_all (planned_command env implementations groups) (sw_commands st)"
    and "plan_sendable env implementations groups" "runs_benchmark (se_runner env) worlds" "\<forall>k j. floats_sent (tw_pipes (worlds k j))"
  shows "set paths \<subseteq> set (sw_paths st) \<Longrightarrow> \<exists>rs. concat (map (content_of env st) paths) = map csv_line rs \<and>
    list_all2 (trial_of_file env st) paths rs \<and> (\<forall>r\<in>set rs. row_readable r)"
proof (induction paths)
  case (Cons path paths)
  then obtain rs where rs: "concat (map (content_of env st) paths) = map csv_line rs"
    "list_all2 (trial_of_file env st) paths rs" "\<forall>r\<in>set rs. row_readable r" by auto
  have "path \<in> set (sw_paths st)" using Cons.prems by simp
  then obtain k c rows where k: "(k, c) \<in> set (enumerate 0 (sw_commands st))" "path_of_record env c = path"
    "bo_rows (se_runner env k (words_of_record env c)) = Some rows" "content_of env st path = rows"
    by (rule collected_content[OF assms(1)])
  have c: "c \<in> set (sw_commands st)" using k(1) by (metis in_set_enumerate_eq nth_mem prod.sel diff_zero add.commute add_0)
  then have "planned_command env implementations groups c" using assms(2) by (simp add: list_all_iff)
  then have "command_sendable env (rr_trial c) (group_of_record c) (rr_global_rate c) (rr_implementation c)"
    using assms(3) command_sendable_rates unfolding planned_command_def plan_sendable_def by metis
  from command_rows[OF assms(4) this assms(5) k(3)[unfolded words_of_record_def]] obtain r cpus where
    r: "rows = [csv_line r]" "row_readable r"
      "trial_of_command (se_args env) (rr_trial c) (group_of_record c) (rr_global_rate c) (rr_implementation c) r"
      "is_result (requested_args (se_home env) (se_args env) (group_of_record c) (rr_global_rate c) (rr_implementation c)
        path (rr_trial c) cpus) r"
    using k(2) unfolding path_of_record_def by metis
  then have "trial_of_file env st path r" using c k(2) by (auto simp: trial_of_file_def)
  then show ?case using rs r(1,2) k(4) by (intro exI[of _ "r # rs"]) simp
qed simp

section \<open>The sweep from end to end\<close>

lemma run_one_total:
  assumes "runs_benchmark (se_runner env) worlds" "command_sendable env trial g rate label" "\<forall>k j. floats_sent (tw_pipes (worlds k j))"
  shows "\<exists>st'. run_one env trial g rate label st = Inr st'"
proof (cases "bo_rows (se_runner env (length (sw_commands st)) (command_of env trial g rate label))")
  case None
  then show ?thesis by (simp add: run_one_def Let_def)
next
  case (Some rows)
  from command_rows[OF assms Some] obtain r where "rows = [csv_line r]" by metis
  then show ?thesis using Some by (simp add: run_one_def Let_def)
qed

lemma run_sweep_total:
  assumes "runs_benchmark (se_runner env) worlds" "\<forall>k j. floats_sent (tw_pipes (worlds k j))" "plan_sendable env implementations groups"
  shows "\<exists>st. run_sweep env implementations groups = Inr st"
proof -
  have total: "\<exists>st. for_each xs body st0 = Inr st" if "\<And>x s. x \<in> set xs \<Longrightarrow> \<exists>s'. body x s = Inr s'"
    for xs :: "'x list" and body and st0 :: sweep_state
    using for_each_total[of "\<lambda>_. True" st0 xs body] that by blast
  have one: "\<exists>s'. run_one env trial g rate label s = Inr s'"
    if "trial \<in> {1..sa_runs (se_args env)}" "g \<in> set groups" "rate \<in> set (g_rates g)" "label \<in> set implementations"
    for trial g rate label s
    using run_one_total[OF assms(1) _ assms(2)] assms(3) that unfolding plan_sendable_def by blast
  show ?thesis
    unfolding run_sweep_def run_group_def run_rate_def
    by (rule for_each_total[of "\<lambda>_. True", OF TrueI, simplified])
      (intro for_each_total[of "\<lambda>_. True", OF TrueI, simplified]; simp add: one)
qed

lemma command_sendable_directory:
  assumes "command_sendable env trial g rate label" "se_args env' = se_args env" "se_home env' = se_home env"
    and "plain_path (se_directory env')"
  shows "command_sendable env' trial g rate label"
  using assms(1,4) by (simp only: command_sendable_def assms(2,3))

lemma plan_sendable_directory:
  assumes "plan_sendable (sweep_environment host a directory) implementations groups"
  shows "plan_sendable (sweep_environment host a (directory @ tail)) implementations groups"
proof -
  let ?env = "sweep_environment host a directory" and ?env' = "sweep_environment host a (directory @ tail)"
  have e: "se_args ?env' = se_args ?env" "se_home ?env' = se_home ?env"
    "plain_path (se_directory ?env) \<Longrightarrow> plain_path (se_directory ?env')"
    by (auto simp: sweep_environment_def plain_path_def)
  have "command_sendable ?env' trial g rate label" if "command_sendable ?env trial g rate label" for trial g rate label
    using command_sendable_directory[OF that e(1,2)] e(3) that unfolding command_sendable_def by blast
  then show ?thesis using assms unfolding plan_sendable_def e(1) by blast
qed

lemma trials_rates:
  assumes "list_all (planned_command env implementations groups) (sw_commands st)"
    "list_all2 (trial_of_file env st) paths rs" "\<forall>g\<in>set groups. NaN \<notin> set (g_rates g)"
  shows "\<forall>r\<in>set rs. tr_global_offered_rate_s r \<noteq> NaN"
proof
  fix r assume "r \<in> set rs"
  then obtain path where "trial_of_file env st path r"
    using assms(2) by (metis in_set_conv_nth list_all2_conv_all_nth)
  then obtain c where "c \<in> set (sw_commands st)" "tr_global_offered_rate_s r = rr_global_rate c"
    by (auto simp: trial_of_file_def trial_of_command_def row_key_def)
  then show "tr_global_offered_rate_s r \<noteq> NaN"
    using assms(1,3) by (auto simp: list_all_iff planned_command_def)
qed


section \<open>A concrete sweep\<close>

lemma runner_exists:
  assumes "\<forall>k j. time_passes (tw_surroundings (worlds k j))"
  shows "\<exists>runner. runs_benchmark runner worlds"
proof -
  have "\<exists>out fuel. benchmark_process fuel True (worlds k) (drop 2 words) = Some out" for k words
  proof (cases "parse_args (drop 2 words)")
    case (Inr b)
    obtain n r where "benchmark_main n True b (worlds k) = Some r"
      using benchmark_main_settles[of "worlds k" True b] assms unfolding settles_def by blast
    then show ?thesis by (auto simp: benchmark_process_def Inr)
  qed (simp add: benchmark_process_def)
  then have "\<forall>k. \<exists>f. \<forall>words. \<exists>fuel. benchmark_process fuel True (worlds k) (drop 2 words) = Some (f words)" by metis
  then show ?thesis unfolding runs_benchmark_def by metis
qed

definition two_worlds :: "nat \<Rightarrow> nat \<Rightarrow> trial_world" where
  "two_worlds k j =
     \<lparr> tw_surroundings = passing, tw_timestamp = ''now'', tw_affinity = False, tw_log = [], tw_pipes = two_pipes \<rparr>"

lemma two_worlds_floats: "floats_sent (tw_pipes (two_worlds k j))"
  by (simp add: two_worlds_def floats_sent_def two_pipes_def message_floats_def state_floats_def dict_of_def one_done_def empty_state_def)

definition small_facts :: host_facts where
  "small_facts =
     \<lparr> hf_created_utc = ''t'', hf_dirty_status = [], hf_compiler = ''g++ 13'', hf_kernel = ''6.1'', hf_system = ''Linux'',
       hf_cpuinfo = None, hf_processor = [], hf_logical_cpus = Some 8, hf_soft_fds = 1024, hf_hard_fds = 4096,
       hf_argv = [''compare.py''] \<rparr>"

definition small_host :: "(nat \<Rightarrow> string list \<Rightarrow> bench_outcome) \<Rightarrow> sweep_host" where
  "small_host runner =
     \<lparr> sh_exe = ''python'', sh_home = ''/r'', sh_make = True, sh_built = (\<lambda>path. True), sh_sha = ''0123456789'', sh_timestamp = ''t'',
       sh_existing = {}, sh_runner = runner, sh_facts = small_facts \<rparr>"

lemma small_facts_tell: "host_tells small_facts"
  by (simp add: host_tells_def small_facts_def cpu_model_def)

lemma small_host_tells: "host_tells (sh_facts (small_host runner))"
  by (simp add: small_host_def small_facts_tell)

lemma small_plan_sendable:
  assumes "se_args env = small_sweep" "se_home env = ''/r''" "plain_path (se_directory env)"
  shows "plan_sendable env [''poll'', ''epoll''] small_groups"
proof -
  have r: "sendable_float (Fin (numeral k))" if "numeral k \<le> (2 ^ 53 :: int)" for k
    using that by (rule sendable_numeral)
  have "sa_runs small_sweep = 2" "sa_worker_cpus small_sweep = []" by (simp_all add: small_sweep_def default_sweep_def)
  moreover have "short_int trial" if "trial \<in> {1..2}" for trial using that by (simp add: short_small)
  ultimately show ?thesis
    using assms by (auto simp: plan_sendable_def command_sendable_def small_sendable small_groups_def group_ok_def
        short_small r SERVERS_def is_value_def server_binary_def)
qed


theorem recorded_commands_reproducible_witness:
  "\<exists>st md. run_sweep failing_env [''poll'', ''epoll''] small_groups = Inr st \<and> md_commands (with_runs md st) \<noteq> [] \<and>
     (\<forall>c\<in>set (md_commands (with_runs md st)). \<exists>words b. shell_split (rr_command c) = Some words \<and>
        parse_args (drop 2 words) = Inr b \<and> as_recorded (with_runs md st) c b)"
proof -
  obtain st where st: "run_sweep failing_env [''poll'', ''epoll''] small_groups = Inr st" "sw_commands st \<noteq> []"
    using failing_sweep by blast
  have e: "se_args failing_env = small_sweep" "se_home failing_env = ''/r''" "se_directory failing_env = ''/d''"
    by (simp_all add: failing_env_def)
  have p: "plan_sendable failing_env [''poll'', ''epoll''] small_groups"
    by (rule small_plan_sendable) (simp_all add: e plain_path_def)
  obtain md where "metadata (se_home failing_env) small_facts (se_args failing_env) (se_directory failing_env)
      [''poll'', ''epoll''] ''0123'' small_groups = Inr md"
    using metadata_total[OF small_plan small_facts_tell] unfolding e(1) by blast
  from recorded_commands_reproducible[OF p st(1) this] show ?thesis
    using st by (intro exI[of _ st] exI[of _ md]) (simp add: with_runs_def)
qed

end
