(* ===== verification/Sheet_Names.thy ===== *)
theory Sheet_Names
  imports Float_Text Fresh_Names
begin

text \<open>
  Names in a workbook (\<^verbatim>\<open>bench/csv_to_xlsx.py\<close>): the letters of a column (\<^verbatim>\<open>column_name\<close>) and the
  titles of the worksheets (\<^verbatim>\<open>sheet_names\<close>), which a spreadsheet limits to 31 characters and
  compares without regard to case. File names are ASCII here, for which \<^verbatim>\<open>str.casefold\<close> maps the
  capital letters.
\<close>

section \<open>Columns\<close>

function column_loop :: "nat \<Rightarrow> string \<Rightarrow> string" where
  "column_loop number name =
     (if number = 0 then name
      else column_loop ((number - 1) div 26) (char_of (65 + (number - 1) mod 26) # name))"
  by auto
termination
  by (relation "measure fst") auto

declare column_loop.simps [simp del]

definition column_name :: "nat \<Rightarrow> string" where
  "column_name number = column_loop number []"

text \<open>The number of a column from its letters.\<close>

definition column_number :: "string \<Rightarrow> nat" where
  "column_number s = foldl (\<lambda>n c. 26 * n + (of_char c - 64)) 0 s"

lemma column_loop_acc: "column_loop n s = column_loop n [] @ s"
proof (induction n arbitrary: s rule: less_induct)
  case (less n)
  show ?case
  proof (cases "n = 0")
    case True
    then show ?thesis by (simp add: column_loop.simps[of 0])
  next
    case False
    let ?c = "char_of (65 + (n - 1) mod 26)"
    have lt: "(n - 1) div 26 < n" using False by auto
    show ?thesis
      using False less[OF lt, of "?c # s"] less[OF lt, of "[?c]"] by (simp add: column_loop.simps[of n])
  qed
qed

lemma column_name_0: "column_name 0 = []"
  by (simp add: column_name_def column_loop.simps[of 0])

lemma column_name_step: "0 < n \<Longrightarrow> column_name n = column_name ((n - 1) div 26) @ [char_of (65 + (n - 1) mod 26)]"
  using column_loop_acc[of "(n - 1) div 26" "[char_of (65 + (n - 1) mod 26)]"]
  by (simp add: column_name_def column_loop.simps[of n])

lemma letter_code: "i < 26 \<Longrightarrow> (of_char (char_of (65 + i :: nat)) :: nat) = 65 + i"
  by simp

lemma column_name_props:
  "column_number (column_name n) = n \<and> (\<forall>c\<in>set (column_name n). 65 \<le> (of_char c :: nat) \<and> (of_char c :: nat) \<le> 90)"
proof (induction n rule: less_induct)
  case (less n)
  show ?case
  proof (cases "n = 0")
    case True
    then show ?thesis by (simp add: column_name_0 column_number_def)
  next
    case False
    then have lt: "(n - 1) div 26 < n" by auto
    have "n = 26 * ((n - 1) div 26) + (1 + (n - 1) mod 26)" using False by presburger
    then show ?thesis
      using False less[OF lt] by (auto simp: column_name_step column_number_def)
  qed
qed

lemma column_name_length: "n \<le> 16384 \<Longrightarrow> length (column_name n) \<le> 3"
proof -
  assume n: "n \<le> 16384"
  have shorter: "length (column_name m) \<le> Suc (length (column_name ((m - 1) div 26)))" for m
    by (cases "m = 0") (simp_all add: column_name_0 column_name_step)
  let ?a = "(n - 1) div 26" let ?b = "(?a - 1) div 26"
  have a: "?a \<le> 630" using n by simp
  then have b: "?b \<le> 24" by simp
  have "length (column_name m) \<le> 1" if "m \<le> 24" for m
    using that by (cases "m = 0") (simp_all add: column_name_0 column_name_step)
  from this[OF b] shorter[of n] shorter[of ?a] show ?thesis by linarith
qed

interpretation columns: codec column_name column_number "\<lambda>_. True"
  by unfold_locales (simp add: column_name_props)

text \<open>The letters of a column name it uniquely: they are read back as its number, are capital
  letters only, and are at most three for every column a worksheet can have.\<close>

theorem column_name_roundtrip:
  "column_number (column_name n) = n \<and> list_all (\<lambda>c. 65 \<le> (of_char c :: nat) \<and> (of_char c :: nat) \<le> 90) (column_name n) \<and>
   (n \<le> 16384 \<longrightarrow> length (column_name n) \<le> 3)"
  using column_name_props[of n] column_name_length[of n] by (simp add: list_all_iff)

theorem column_name_roundtrip_witness:
  "column_number (column_name 16384) = 16384 \<and> length (column_name 16384) \<le> 3"
  using column_name_roundtrip[of 16384] by simp

section \<open>Worksheets\<close>

definition invalid_sheet_char :: "char \<Rightarrow> bool" where
  "invalid_sheet_char c \<longleftrightarrow> c \<in> {CHR 0x5C, CHR ''/'', CHR ''*'', CHR ''?'', CHR '':'', CHR ''['', CHR '']''}"

definition strip_char :: "char \<Rightarrow> string \<Rightarrow> string" where
  "strip_char x s = rev (dropWhile (\<lambda>c. c = x) (rev (dropWhile (\<lambda>c. c = x) s)))"

definition casefold :: "string \<Rightarrow> string" where
  "casefold s = map lower_char s"

text \<open>\<^verbatim>\<open>s[:n]\<close>; a negative end counts from the back.\<close>

definition slice_to :: "int \<Rightarrow> string \<Rightarrow> string" where
  "slice_to n s = (if 0 \<le> n then take (nat n) s else take (nat (int (length s) + n)) s)"

definition sheet_base :: "string \<Rightarrow> string" where
  "sheet_base stem =
     (let s = strip_char (CHR 0x27) (map (\<lambda>c. if invalid_sheet_char c then CHR ''_'' else c) stem)
      in if s = [] then ''Sheet'' else s)"

definition sheet_choice :: "string \<Rightarrow> nat \<Rightarrow> string" where
  "sheet_choice base =
     suffix_choice (take 31 base)
       (\<lambda>suffix. let ending = ''_'' @ show_nat suffix in slice_to (31 - int (length ending)) base @ ending)"

text \<open>The names so far and the folded names in use; the fuel bounds the search for one name.\<close>

fun sheet_loop :: "nat \<Rightarrow> string list \<Rightarrow> string list \<Rightarrow> string set \<Rightarrow> string list option" where
  "sheet_loop fuel [] names used = Some names"
| "sheet_loop fuel (stem # stems) names used =
     (case first_free (\<lambda>name. casefold name \<in> used) (sheet_choice (sheet_base stem)) fuel 0 of
        None \<Rightarrow> None
      | Some name \<Rightarrow> sheet_loop fuel stems (names @ [name]) (insert (casefold name) used))"

definition sheet_names :: "nat \<Rightarrow> string list \<Rightarrow> string list option" where
  "sheet_names fuel stems = sheet_loop fuel stems [] {}"

lemma lower_digit: "is_digit_char c \<Longrightarrow> lower_char c = c"
  by (simp add: lower_char_def is_digit_char_def Let_def)

text \<open>The key of a choice with a suffix ends in the suffix.\<close>

lemma sheet_choice_key: "0 < k \<Longrightarrow> \<exists>p. casefold (sheet_choice base k) = p @ CHR ''_'' # show_nat (Suc k)"
proof -
  have "map lower_char (show_nat n) = show_nat n" for n
    by (intro map_idI lower_digit) (auto dest: show_nat_digits)
  moreover have "lower_char (CHR ''_'') = CHR ''_''" by (simp add: lower_char_def)
  ultimately show "0 < k \<Longrightarrow> \<exists>p. casefold (sheet_choice base k) = p @ CHR ''_'' # show_nat (Suc k)"
    by (simp add: casefold_def sheet_choice_def suffix_choice_def)
qed

lemma no_underscore_digits: "CHR ''_'' \<notin> set (show_nat n)"
  using show_nat_digits[of "CHR ''_''" n] by (auto simp: is_digit_char_def)

interpretation sheet_titles: fresh_names "sheet_choice base" casefold bound for base bound
proof unfold_locales
  show "inj_on (\<lambda>k. casefold (sheet_choice base k)) {1..<bound}"
  proof (rule inj_onI)
    fix i j assume "i \<in> {1..<bound}" "j \<in> {1..<bound}" and eq: "casefold (sheet_choice base i) = casefold (sheet_choice base j)"
    then obtain p q where "casefold (sheet_choice base i) = p @ CHR ''_'' # show_nat (Suc i)"
      "casefold (sheet_choice base j) = q @ CHR ''_'' # show_nat (Suc j)"
      using sheet_choice_key[of i base] sheet_choice_key[of j base] by auto
    with eq have "rev (p @ CHR ''_'' # show_nat (Suc i)) = rev (q @ CHR ''_'' # show_nat (Suc j))" by simp
    then have "rev (show_nat (Suc i)) @ CHR ''_'' # rev p = rev (show_nat (Suc j)) @ CHR ''_'' # rev q" by simp
    from same_split[OF this] no_underscore_digits show "i = j" by simp
  qed
qed

text \<open>What a spreadsheet requires of a title: between one and 31 characters, none of the seven that it
  reserves.\<close>

definition title_ok :: "string \<Rightarrow> bool" where
  "title_ok name \<longleftrightarrow> name \<noteq> [] \<and> length name \<le> 31 \<and> (\<forall>c\<in>set name. \<not> invalid_sheet_char c)"

lemma sheet_base_ok: "sheet_base stem \<noteq> [] \<and> (\<forall>c\<in>set (sheet_base stem). \<not> invalid_sheet_char c)"
proof -
  let ?m = "map (\<lambda>c. if invalid_sheet_char c then CHR ''_'' else c) stem"
  have sub: "set (strip_char x s) \<subseteq> set s" for x s
    unfolding strip_char_def by (auto dest!: set_dropWhileD)
  have us: "\<not> invalid_sheet_char (CHR ''_'')" by (simp add: invalid_sheet_char_def)
  have m: "\<not> invalid_sheet_char c" if "c \<in> set ?m" for c using that us by (auto split: if_splits)
  have "\<forall>c\<in>set ''Sheet''. \<not> invalid_sheet_char c" by (simp add: invalid_sheet_char_def)
  moreover have "\<forall>c\<in>set (strip_char (CHR 0x27) ?m). \<not> invalid_sheet_char c" using sub[of "CHR 0x27" ?m] m by blast
  ultimately show ?thesis unfolding sheet_base_def Let_def by (cases "strip_char (CHR 0x27) ?m = []") simp_all
qed

lemma sheet_choice_ok:
  assumes "base \<noteq> []" "\<forall>c\<in>set base. \<not> invalid_sheet_char c" "k < 10 ^ 29"
  shows "title_ok (sheet_choice base k)"
proof (cases "k = 0")
  case True
  then show ?thesis using assms in_set_takeD[of _ 31 base] by (auto simp: title_ok_def sheet_choice_def suffix_choice_def)
next
  case False
  have "Suc k < 10 ^ 30" using assms(3) by simp
  then have len: "length (show_nat (Suc k)) \<le> 30" by (rule length_show_nat) simp
  have "\<not> invalid_sheet_char c" if "c \<in> set (show_nat (Suc k))" for c
    using show_nat_digits[OF that] by (auto simp: is_digit_char_def invalid_sheet_char_def)
  moreover have "\<not> invalid_sheet_char (CHR ''_'')" by (simp add: invalid_sheet_char_def)
  ultimately show ?thesis
    using False len assms(2) in_set_takeD[of _ _ base]
    by (auto simp: title_ok_def sheet_choice_def suffix_choice_def Let_def slice_to_def)
qed

lemma sheet_loop_correct:
  assumes "length names + length stems < 10 ^ 28" "length names + length stems + 2 \<le> fuel"
    and "used = casefold ` set names" "distinct (map casefold names)" "\<forall>n\<in>set names. title_ok n"
  shows "\<exists>result. sheet_loop fuel stems names used = Some result \<and> length result = length names + length stems \<and>
    take (length names) result = names \<and> distinct (map casefold result) \<and> (\<forall>n\<in>set result. title_ok n)"
  using assms
proof (induction stems arbitrary: names used)
  case Nil
  then show ?case by simp
next
  case (Cons stem stems)
  let ?c = "sheet_choice (sheet_base stem)"
  have card: "finite used" "card used \<le> length names"
    using Cons.prems(3) card_image_le[of "set names" casefold] card_length[of names] by (auto intro: order_trans)
  have "(10::nat) ^ 29 = 10 * 10 ^ 28" by simp
  then have big: "card used + 2 < 10 ^ 29" using card(2) Cons.prems(1) by linarith
  have n: "card used + 2 \<le> card used + 2" by simp
  obtain name where name: "first_free (\<lambda>x. casefold x \<in> used) ?c (card used + 2) 0 = Some name"
    using sheet_titles.enough_rounds[OF card(1) n n] by blast
  then have found: "first_free (\<lambda>x. casefold x \<in> used) ?c fuel 0 = Some name"
    by (rule first_free_mono) (use card(2) Cons.prems(2) in simp)
  have fresh: "casefold name \<notin> used" using sheet_titles.found_is_free[OF name] by simp
  obtain k where k: "name = ?c k" "\<forall>i. 0 \<le> i \<and> i < k \<longrightarrow> casefold (?c i) \<in> used" using first_free_Some[OF name] by blast
  have "k \<le> card used + 1"
  proof (rule ccontr)
    assume "\<not> k \<le> card used + 1"
    then have "first_free (\<lambda>x. casefold x \<in> used) ?c (card used + 2) 0 = None"
      unfolding first_free_None using k(2) by simp
    then show False using name by simp
  qed
  then have ok: "title_ok name" unfolding k(1) using sheet_base_ok big by (intro sheet_choice_ok) auto
  have "\<exists>result. sheet_loop fuel stems (names @ [name]) (insert (casefold name) used) = Some result \<and>
      length result = length (names @ [name]) + length stems \<and> take (length (names @ [name])) result = names @ [name] \<and>
      distinct (map casefold result) \<and> (\<forall>n\<in>set result. title_ok n)"
    by (rule Cons.IH) (use Cons.prems fresh ok in auto)
  then obtain result where r: "sheet_loop fuel stems (names @ [name]) (insert (casefold name) used) = Some result"
    "length result = length (names @ [name]) + length stems" "take (length (names @ [name])) result = names @ [name]"
    "distinct (map casefold result)" "\<forall>n\<in>set result. title_ok n" by blast
  have "take (length names) result = take (length names) (take (length (names @ [name])) result)" by (simp add: min_def)
  then have "take (length names) result = names" unfolding r(3) by simp
  then show ?case using r found by (auto intro!: exI[of _ result])
qed

text \<open>C38: every file gets its worksheet title: the search for one ends (one round more than there are
  files, and the first choice, are enough), and the titles are what a spreadsheet accepts: one to 31
  characters, no reserved ones, and no two that differ only in case.\<close>

theorem sheet_names_valid:
  assumes "length stems < 10 ^ 28" "length stems + 2 \<le> fuel"
  shows "\<exists>names. sheet_names fuel stems = Some names \<and> length names = length stems \<and>
    distinct (map casefold names) \<and> (\<forall>n\<in>set names. title_ok n)"
  using sheet_loop_correct[of "[]" stems fuel "{}"] assms by (auto simp: sheet_names_def)

theorem sheet_names_valid_witness:
  "\<exists>names. sheet_names 5 [''run'', ''RUN'', ''a/b''] = Some names \<and> distinct (map casefold names) \<and> length names = 3"
  using sheet_names_valid[of "[''run'', ''RUN'', ''a/b'']" 5] by auto

text \<open>Apostrophes are removed from the ends of a file name, but the title is cut to 31 characters
  afterwards and may then end in one, which a spreadsheet refuses.\<close>

theorem sheet_title_apostrophe:
  "sheet_names 1 [replicate 30 (CHR ''a'') @ [CHR 0x27] @ ''b''] = Some [replicate 30 (CHR ''a'') @ [CHR 0x27]]"
  by (simp add: sheet_names_def sheet_base_def strip_char_def invalid_sheet_char_def sheet_choice_def suffix_choice_def
      numeral_eq_Suc Let_def)

end
