(* ===== verification/Workbook.thy ===== *)
theory Workbook
  imports Sheet_Names Py_Format
begin

text \<open>
  The workbook that \<^verbatim>\<open>bench/csv_to_xlsx.py\<close> writes: the XML of cells and worksheets with the limits of
  a spreadsheet, the parts of the archive, and the checks of \<^verbatim>\<open>main\<close>. The rows of a CSV file, as
  \<^verbatim>\<open>csv.reader\<close> yields them, are an argument. Text is a string of UTF-8 bytes; the white space and
  the digits that the code tests for are the ASCII ones.
\<close>

section \<open>Cells\<close>

text \<open>The control characters XML does not have become the replacement character.\<close>

definition invalid_xml_char :: "char \<Rightarrow> bool" where
  "invalid_xml_char c \<longleftrightarrow>
     (let n = of_char c :: nat in n \<le> 8 \<or> n = 11 \<or> n = 12 \<or> 14 \<le> n \<and> n \<le> 31)"

definition replacement :: string where
  "replacement = [CHR 0xEF, CHR 0xBF, CHR 0xBD]"

definition sanitize :: "string \<Rightarrow> string" where
  "sanitize v = concat (map (\<lambda>c. if invalid_xml_char c then replacement else [c]) v)"

text \<open>The regular expression \<^verbatim>\<open>NUMBER\<close> on a whole value.\<close>

definition digits_first :: "string \<Rightarrow> bool" where
  "digits_first s \<longleftrightarrow> s \<noteq> [] \<and> list_all is_digit_char s"

definition exponent_ok :: "string \<Rightarrow> bool" where
  "exponent_ok s =
     (case s of [] \<Rightarrow> True
      | c # cs \<Rightarrow> (c = CHR ''e'' \<or> c = CHR ''E'') \<and>
          digits_first (case cs of [] \<Rightarrow> [] | d # ds \<Rightarrow> if d = CHR ''+'' \<or> d = CHR ''-'' then ds else cs))"

definition is_number :: "string \<Rightarrow> bool" where
  "is_number s =
     (let body = (case s of [] \<Rightarrow> [] | c # cs \<Rightarrow> if c = CHR ''-'' then cs else s);
          whole = takeWhile is_digit_char body; rest = drop (length whole) body
      in (whole = ''0'' \<or> whole \<noteq> [] \<and> hd whole \<noteq> CHR ''0'') \<and>
         (case rest of [] \<Rightarrow> True
          | c # cs \<Rightarrow>
              if c = CHR ''.'' then
                (let part = takeWhile is_digit_char cs in part \<noteq> [] \<and> exponent_ok (drop (length part) cs))
              else exponent_ok rest))"

text \<open>\<^verbatim>\<open>xml.sax.saxutils.escape\<close> and \<^verbatim>\<open>quoteattr\<close>.\<close>

fun escape_char :: "char \<Rightarrow> string" where
  "escape_char c =
     (if c = CHR ''&'' then ''&amp;'' else if c = CHR ''>'' then ''&gt;'' else if c = CHR ''<'' then ''&lt;'' else [c])"

definition escape :: "string \<Rightarrow> string" where
  "escape s = concat (map escape_char s)"

definition double_quote_char :: char where
  "double_quote_char = CHR 0x22"

definition quoteattr :: "string \<Rightarrow> string" where
  "quoteattr s =
     (let d = concat (map (\<lambda>c. if c = CHR 0x0A then ''&#10;'' else if c = CHR 0x0D then ''&#13;''
            else if c = CHR 0x09 then ''&#9;'' else escape_char c) s)
      in if double_quote_char \<in> set d
         then (if CHR 0x27 \<in> set d
           then double_quote_char # concat (map (\<lambda>c. if c = double_quote_char then ''&quot;'' else [c]) d) @ [double_quote_char]
           else CHR 0x27 # d @ [CHR 0x27])
         else double_quote_char # d @ [double_quote_char])"

definition attribute :: "string \<Rightarrow> string \<Rightarrow> string" where
  "attribute name v = '' '' @ name @ ''='' @ [double_quote_char] @ v @ [double_quote_char]"

definition cell_xml :: "string \<Rightarrow> string \<Rightarrow> string" where
  "cell_xml reference v =
     (let v = sanitize v
      in if is_number v then ''<c'' @ attribute ''r'' reference @ ''><v>'' @ v @ ''</v></c>''
         else
           ''<c'' @ attribute ''r'' reference @ attribute ''t'' ''inlineStr'' @ ''><is><t'' @
           (if v \<noteq> [] \<and> (is_str_space (hd v) \<or> is_str_space (last v)) then attribute ''xml:space'' ''preserve'' else []) @
           ''>'' @ escape v @ ''</t></is></c>'')"

section \<open>Reading a cell\<close>

text \<open>The text of an element: what follows its opening tags, with the entities replaced.\<close>

function skip_tags :: "string \<Rightarrow> string" where
  "skip_tags s = (if s \<noteq> [] \<and> hd s = CHR ''<'' then skip_tags (tl (dropWhile (\<lambda>c. c \<noteq> CHR ''>'') s)) else s)"
  by auto
termination
proof (relation "measure length")
  fix s :: string
  assume s: "s \<noteq> [] \<and> hd s = CHR ''<''"
  have "length (dropWhile (\<lambda>c. c \<noteq> CHR ''>'') s) \<le> length s" by (rule length_dropWhile_le)
  then show "(tl (dropWhile (\<lambda>c. c \<noteq> CHR ''>'') s), s) \<in> measure length" using s by (cases s) auto
qed simp

declare skip_tags.simps [simp del]

function unescape :: "string \<Rightarrow> string" where
  "unescape s =
     (if s = [] then []
      else if take 5 s = ''&amp;'' then CHR ''&'' # unescape (drop 5 s)
      else if take 4 s = ''&gt;'' then CHR ''>'' # unescape (drop 4 s)
      else if take 4 s = ''&lt;'' then CHR ''<'' # unescape (drop 4 s)
      else hd s # unescape (tl s))"
  by auto
termination
  by (relation "measure length") auto

declare unescape.simps [simp del]

definition cell_text :: "string \<Rightarrow> string" where
  "cell_text xml = unescape (takeWhile (\<lambda>c. c \<noteq> CHR ''<'') (skip_tags xml))"

lemma unescape_char: "unescape (escape_char c @ s) = c # unescape s"
proof -
  have "unescape (c # s) = c # unescape s" if "c \<noteq> CHR ''&''"
    using that by (subst unescape.simps) simp
  then show ?thesis by (auto simp: unescape.simps[of "_ # _"])
qed

lemma unescape_escape: "unescape (escape s) = s"
proof (induction s)
  case Nil
  then show ?case by (simp add: escape_def unescape.simps[of "[]"])
next
  case (Cons c s)
  then show ?case using unescape_char[of c "escape s"] by (simp add: escape_def)
qed

lemma escape_no_markup: "CHR ''<'' \<notin> set (escape s)"
  by (auto simp: escape_def split: if_splits)

lemma skip_tag: "CHR ''>'' \<notin> set t \<Longrightarrow> skip_tags (CHR ''<'' # t @ CHR ''>'' # s) = skip_tags s"
proof -
  assume "CHR ''>'' \<notin> set t"
  then have "dropWhile (\<lambda>c. c \<noteq> CHR ''>'') (CHR ''<'' # t @ CHR ''>'' # s) = CHR ''>'' # s"
    by (simp add: dropWhile_append3 dropWhile_append)
  then show ?thesis by (subst skip_tags.simps) simp
qed

lemma skip_tags_text: "s \<noteq> [] \<Longrightarrow> hd s \<noteq> CHR ''<'' \<Longrightarrow> skip_tags s = s"
  by (subst skip_tags.simps) simp

lemma sanitize_nonempty: "v \<noteq> [] \<Longrightarrow> sanitize v \<noteq> []"
  by (cases v) (auto simp: sanitize_def replacement_def)

lemma number_value_char:
  "is_number s \<Longrightarrow> c \<in> set s \<Longrightarrow> is_digit_char c \<or> c = CHR ''-'' \<or> c = CHR ''.'' \<or> c = CHR ''e'' \<or> c = CHR ''E'' \<or> c = CHR ''+''"
proof -
  let ?ok = "\<lambda>c. is_digit_char c \<or> c = CHR ''-'' \<or> c = CHR ''.'' \<or> c = CHR ''e'' \<or> c = CHR ''E'' \<or> c = CHR ''+''"
  assume n: "is_number s" and c: "c \<in> set s"
  define body where "body = (case s of [] \<Rightarrow> [] | c # cs \<Rightarrow> if c = CHR ''-'' then cs else s)"
  have split: "x = takeWhile is_digit_char x @ drop (length (takeWhile is_digit_char x)) x" for x
    by (metis dropWhile_eq_drop takeWhile_dropWhile_id)
  have digits: "\<forall>c\<in>set (takeWhile is_digit_char x). ?ok c" for x by (auto dest: set_takeWhileD)
  have e: "\<forall>c\<in>set x. ?ok c" if "exponent_ok x" for x
    using that by (cases x) (auto simp: exponent_ok_def digits_first_def list_all_iff split: list.splits if_splits)
  have "\<forall>c\<in>set (drop (length (takeWhile is_digit_char body)) body). ?ok c"
  proof (cases "drop (length (takeWhile is_digit_char body)) body")
    case (Cons d ds)
    show ?thesis
    proof (cases "d = CHR ''.''")
      case True
      then have "exponent_ok (drop (length (takeWhile is_digit_char ds)) ds)"
        using n Cons by (auto simp: is_number_def Let_def body_def[symmetric])
      from e[OF this] digits[of ds] have "\<forall>c\<in>set ds. ?ok c" using split[of ds] by (metis UnE set_append)
      then show ?thesis using Cons True by simp
    next
      case False
      then have "exponent_ok (d # ds)" using n Cons by (auto simp: is_number_def Let_def body_def[symmetric])
      from e[OF this] show ?thesis using Cons by simp
    qed
  qed simp
  then have "\<forall>c\<in>set body. ?ok c" using digits[of body] split[of body] by (metis UnE set_append)
  then show "?ok c" using c by (cases s) (auto simp: body_def split: if_splits)
qed

lemma unescape_plain: "CHR ''&'' \<notin> set s \<Longrightarrow> unescape s = s"
proof (induction s)
  case Nil
  then show ?case by (simp add: unescape.simps[of "[]"])
next
  case (Cons c s)
  then show ?case by (subst unescape.simps) auto
qed



section \<open>Worksheets\<close>

definition XML_HEADER :: string where
  "XML_HEADER = ''<?xml'' @ attribute ''version'' ''1.0'' @ attribute ''encoding'' ''UTF-8'' @ attribute ''standalone'' ''yes'' @ ''?>''"

definition SHEET_NS :: string where
  "SHEET_NS = ''http://schemas.openxmlformats.org/spreadsheetml/2006/main''"

definition REL_NS :: string where
  "REL_NS = ''http://schemas.openxmlformats.org/package/2006/relationships''"

definition OFFICE_REL_NS :: string where
  "OFFICE_REL_NS = ''http://schemas.openxmlformats.org/officeDocument/2006/relationships''"

definition row_xml :: "nat \<Rightarrow> string list \<Rightarrow> string" where
  "row_xml row_number row =
     ''<row'' @ attribute ''r'' (show_nat row_number) @ ''>'' @
     concat (map (\<lambda>(column, v). if v \<noteq> [] then cell_xml (column_name column @ show_nat row_number) v else [])
       (enumerate 1 row)) @ ''</row>''"

fun sheet_rows :: "nat \<Rightarrow> string list list \<Rightarrow> py_exn + string list" where
  "sheet_rows row_number [] = Inr []"
| "sheet_rows row_number (row # rows) =
     (if 1048576 < row_number then Inl ValueError
      else if 16384 < length row then Inl ValueError
      else seq (sheet_rows (Suc row_number) rows) (\<lambda>out. Inr (row_xml row_number row # out)))"

definition worksheet_xml :: "string list list \<Rightarrow> py_exn + string" where
  "worksheet_xml rows =
     seq (sheet_rows 1 rows) (\<lambda>out.
       Inr (XML_HEADER @ ''<worksheet'' @ attribute ''xmlns'' SHEET_NS @ ''><sheetData>'' @ concat out @ ''</sheetData></worksheet>''))"

lemma sheet_rows_Inr:
  assumes "0 < n"
  shows "(\<exists>out. sheet_rows n rows = Inr out) \<longleftrightarrow>
    (rows = [] \<or> n + length rows \<le> 1048577) \<and> list_all (\<lambda>row. length row \<le> 16384) rows"
  using assms
proof (induction rows arbitrary: n)
  case (Cons row rows)
  have "(\<exists>out. sheet_rows n (row # rows) = Inr out) \<longleftrightarrow>
      n \<le> 1048576 \<and> length row \<le> 16384 \<and> (\<exists>out. sheet_rows (Suc n) rows = Inr out)"
    by (auto simp: exn_simps)
  also have "\<dots> \<longleftrightarrow> n \<le> 1048576 \<and> length row \<le> 16384 \<and>
      (rows = [] \<or> Suc n + length rows \<le> 1048577) \<and> list_all (\<lambda>row. length row \<le> 16384) rows"
    using Cons.IH[of "Suc n"] by simp
  finally show ?case by auto
qed simp

lemma sheet_rows_error: "sheet_rows n rows = Inl e \<Longrightarrow> e = ValueError"
  by (induction n rows rule: sheet_rows.induct) (auto simp: seq_Inl_iff split: if_splits)

text \<open>A worksheet is written exactly when the file stays within what a spreadsheet holds, 1,048,576
  rows of at most 16,384 columns; otherwise the conversion fails with \<^verbatim>\<open>ValueError\<close>.\<close>

theorem worksheet_limits:
  "if length rows \<le> 1048576 \<and> list_all (\<lambda>row. length row \<le> 16384) rows
   then \<exists>xml. worksheet_xml rows = Inr xml else worksheet_xml rows = Inl ValueError"
proof -
  have "(\<exists>out. sheet_rows 1 rows = Inr out) \<longleftrightarrow> length rows \<le> 1048576 \<and> list_all (\<lambda>row. length row \<le> 16384) rows"
    using sheet_rows_Inr[of 1 rows] by auto
  then show ?thesis using sheet_rows_error[of 1 rows] by (cases "sheet_rows 1 rows") (auto simp: worksheet_xml_def)
qed

section \<open>The archive\<close>

text \<open>\<^verbatim>\<open>Path.name\<close> and \<^verbatim>\<open>Path.stem\<close>.\<close>

definition path_name :: "string \<Rightarrow> string" where
  "path_name p = rev (takeWhile (\<lambda>c. c \<noteq> CHR ''/'') (rev p))"

text \<open>The text after the last point, if it is neither the first nor the last character.\<close>

definition path_suffix :: "string \<Rightarrow> string option" where
  "path_suffix p =
     (let name = path_name p; ext = rev (takeWhile (\<lambda>c. c \<noteq> CHR ''.'') (rev name))
      in if ext \<noteq> [] \<and> length ext + 1 < length name then Some ext else None)"

definition path_stem :: "string \<Rightarrow> string" where
  "path_stem p =
     (case path_suffix p of None \<Rightarrow> path_name p
      | Some ext \<Rightarrow> take (length (path_name p) - length ext - 1) (path_name p))"

definition numbered :: "(nat \<Rightarrow> 'a \<Rightarrow> string) \<Rightarrow> 'a list \<Rightarrow> string" where
  "numbered f xs = concat (map (\<lambda>(i, x). f i x) (enumerate 1 xs))"

definition sheet_entry :: "nat \<Rightarrow> string \<Rightarrow> string" where
  "sheet_entry i name =
     ''<sheet name='' @ quoteattr name @ attribute ''sheetId'' (show_nat i) @ attribute ''r:id'' (''rId'' @ show_nat i) @ ''/>''"

definition sheet_relationship :: "nat \<Rightarrow> string \<Rightarrow> string" where
  "sheet_relationship i path =
     ''<Relationship'' @ attribute ''Id'' (''rId'' @ show_nat i) @ attribute ''Type'' (OFFICE_REL_NS @ ''/worksheet'') @
     attribute ''Target'' (''worksheets/sheet'' @ show_nat i @ ''.xml'') @ ''/>''"

definition sheet_type :: "nat \<Rightarrow> string \<Rightarrow> string" where
  "sheet_type i path =
     ''<Override'' @ attribute ''PartName'' (''/xl/worksheets/sheet'' @ show_nat i @ ''.xml'') @
     attribute ''ContentType'' ''application/vnd.openxmlformats-officedocument.spreadsheetml.worksheet+xml'' @ ''/>''"

definition fixed_parts :: "string list \<Rightarrow> string list \<Rightarrow> (string \<times> string) list" where
  "fixed_parts names paths =
     [(''[Content_Types].xml'',
         XML_HEADER @ ''<Types'' @ attribute ''xmlns'' ''http://schemas.openxmlformats.org/package/2006/content-types'' @
         ''><Default'' @ attribute ''Extension'' ''rels'' @
         attribute ''ContentType'' ''application/vnd.openxmlformats-package.relationships+xml'' @ ''/><Default'' @
         attribute ''Extension'' ''xml'' @ attribute ''ContentType'' ''application/xml'' @ ''/><Override'' @
         attribute ''PartName'' ''/xl/workbook.xml'' @
         attribute ''ContentType'' ''application/vnd.openxmlformats-officedocument.spreadsheetml.sheet.main+xml'' @ ''/>'' @
         numbered sheet_type paths @ ''</Types>''),
      (''_rels/.rels'',
         XML_HEADER @ ''<Relationships'' @ attribute ''xmlns'' REL_NS @ ''><Relationship'' @ attribute ''Id'' ''rId1'' @
         attribute ''Type'' (OFFICE_REL_NS @ ''/officeDocument'') @ attribute ''Target'' ''xl/workbook.xml'' @
         ''/></Relationships>''),
      (''xl/workbook.xml'',
         XML_HEADER @ ''<workbook'' @ attribute ''xmlns'' SHEET_NS @ attribute ''xmlns:r'' OFFICE_REL_NS @ ''><sheets>'' @
         numbered sheet_entry names @ ''</sheets></workbook>''),
      (''xl/_rels/workbook.xml.rels'',
         XML_HEADER @ ''<Relationships'' @ attribute ''xmlns'' REL_NS @ ''>'' @ numbered sheet_relationship paths @
         ''</Relationships>'')]"

definition sheet_part :: "nat \<Rightarrow> string" where
  "sheet_part i = ''xl/worksheets/sheet'' @ show_nat i @ ''.xml''"

text \<open>The worksheets of the files in turn; the content of a file (or the exception of reading it) is an
  argument.\<close>

fun sheet_parts :: "(string \<Rightarrow> py_exn + string list list) \<Rightarrow> nat \<Rightarrow> string list \<Rightarrow> py_exn + (string \<times> string) list" where
  "sheet_parts content i [] = Inr []"
| "sheet_parts content i (path # paths) =
     seq (seq (content path) worksheet_xml) (\<lambda>xml.
     seq (sheet_parts content (Suc i) paths) (\<lambda>parts. Inr ((sheet_part i, xml) # parts)))"

type_synonym archives = "string \<rightharpoonup> (string \<times> string) list"

text \<open>The result and the archives on disk afterwards: a failure removes the unfinished output.\<close>

definition create_workbook ::
  "nat \<Rightarrow> (string \<Rightarrow> py_exn + string list list) \<Rightarrow> string \<Rightarrow> string list \<Rightarrow> archives \<Rightarrow> ((py_exn + unit) \<times> archives) option" where
  "create_workbook fuel content output paths disk =
     (case sheet_names fuel (map path_stem paths) of None \<Rightarrow> None
      | Some names \<Rightarrow>
          Some (case sheet_parts content 1 paths of
              Inl e \<Rightarrow> (Inl e, disk(output := None))
            | Inr sheets \<Rightarrow> (Inr (), disk(output \<mapsto> fixed_parts names paths @ sheets))))"

text \<open>\<^verbatim>\<open>main\<close>; which paths exist and which are files is asked of the file system.\<close>

definition convert ::
  "nat \<Rightarrow> (string \<Rightarrow> py_exn + string list list) \<Rightarrow> (string \<Rightarrow> bool) \<Rightarrow> (string \<Rightarrow> bool) \<Rightarrow> string \<Rightarrow> string list \<Rightarrow> archives \<Rightarrow>
    ((py_exn + unit) \<times> archives) option" where
  "convert fuel content path_exists is_file output paths disk =
     (if map_option (map lower_char) (path_suffix output) \<noteq> Some ''xlsx''
      then Some (Inl (ArgumentError ''output filename must end in .xlsx''), disk)
      else if path_exists output then Some (Inl (ArgumentError ''output already exists''), disk)
      else if filter (\<lambda>p. \<not> is_file p) paths \<noteq> [] then Some (Inl (ArgumentError ''input file not found''), disk)
      else map_option (apfst (\<lambda>r. case r of
            Inl e \<Rightarrow> Inl (if e \<in> {OSError, CsvError, ValueError} then ArgumentError ''invalid input'' else e)
          | Inr u \<Rightarrow> Inr u))
        (create_workbook fuel content output paths disk))"

lemma sheet_parts_Inr:
  "sheet_parts content i paths = Inr parts \<Longrightarrow> map fst parts = map sheet_part [i..<i + length paths] \<and>
    list_all2 (\<lambda>path part. seq (content path) worksheet_xml = Inr (snd part)) paths parts"
proof (induction paths arbitrary: i parts)
  case (Cons path paths)
  then obtain xml ps where "seq (content path) worksheet_xml = Inr xml" "sheet_parts content (Suc i) paths = Inr ps"
    "parts = (sheet_part i, xml) # ps"
    by (auto simp: seq_Inr_iff)
  moreover have "[i..<i + length (path # paths)] = i # [Suc i..<Suc i + length paths]"
    by (simp add: upt_conv_Cons del: upt_Suc)
  ultimately show ?case using Cons.IH[of "Suc i" ps] by (simp del: upt_Suc)
qed simp

lemma sheet_part_inject: "sheet_part i = sheet_part j \<longleftrightarrow> i = j"
  by (simp add: sheet_part_def)

text \<open>C40: a conversion either leaves a complete workbook, with one worksheet per input file, written
  from that file and in the order given, besides the four fixed parts, no part name occurring twice;
  or it fails and leaves no output file. Other files are untouched either way.\<close>

theorem create_workbook_complete_or_absent:
  assumes "length paths < 10 ^ 28" "length paths + 2 \<le> fuel"
  shows "\<exists>result disk'. create_workbook fuel content output paths disk = Some (result, disk') \<and>
    (\<forall>f. f \<noteq> output \<longrightarrow> disk' f = disk f) \<and>
    (case result of
       Inl e \<Rightarrow> disk' output = None
     | Inr _ \<Rightarrow> \<exists>parts. disk' output = Some parts \<and> distinct (map fst parts) \<and> length parts = 4 + length paths \<and>
         list_all2 (\<lambda>path part. seq (content path) worksheet_xml = Inr (snd part)) paths (drop 4 parts))"
proof -
  obtain names where n: "sheet_names fuel (map path_stem paths) = Some names"
    using sheet_loop_correct[of "[]" "map path_stem paths" fuel "{}"] assms by (auto simp: sheet_names_def)
  show ?thesis
  proof (cases "sheet_parts content 1 paths")
    case (Inl e)
    have "create_workbook fuel content output paths disk = Some (Inl e, disk(output := None))"
      by (simp only: create_workbook_def n Inl option.case sum.case)
    then show ?thesis by simp
  next
    case (Inr sheets)
    note sheets = sheet_parts_Inr[OF Inr]
    let ?F = "fixed_parts names paths"
    have "distinct (map fst sheets)" using sheets by (simp add: distinct_map inj_on_def sheet_part_inject)
    moreover have "distinct (map fst ?F)" "length ?F = 4" by (simp_all add: fixed_parts_def)
    moreover have "set (map fst ?F) \<inter> set (map fst sheets) = {}"
    proof -
      have "sheet_part i \<notin> set (map fst ?F)" for i by (simp add: fixed_parts_def sheet_part_def)
      moreover have "set (map fst sheets) \<subseteq> range sheet_part" unfolding conjunct1[OF sheets] by auto
      ultimately show ?thesis by blast
    qed
    moreover have "length sheets = length paths" using sheets list_all2_lengthD by metis
    ultimately have parts: "distinct (map fst (?F @ sheets))"
      "length (?F @ sheets) = 4 + length paths" "drop 4 (?F @ sheets) = sheets"
      unfolding map_append distinct_append by simp_all
    have created: "create_workbook fuel content output paths disk = Some (Inr (), disk(output \<mapsto> ?F @ sheets))"
      by (simp only: create_workbook_def n Inr option.case sum.case)
    obtain ps where ps: "ps = ?F @ sheets" by blast
    have each: "list_all2 (\<lambda>path part. seq (content path) worksheet_xml = Inr (snd part)) paths (drop 4 ps)"
      unfolding ps parts(3) by (rule conjunct2[OF sheets])
    show ?thesis
      using created parts(1,2) each unfolding ps[symmetric]
      by (intro exI[of _ "Inr ()"] exI[of _ "disk(output \<mapsto> ps)"]) simp
  qed
qed

theorem create_workbook_complete_or_absent_witness:
  "\<exists>result disk'. create_workbook 4 (\<lambda>p. Inr [[''a'', ''1'']]) ''o.xlsx'' [''x.csv''] Map.empty = Some (result, disk') \<and>
    result = Inr () \<and> (\<exists>parts. disk' ''o.xlsx'' = Some parts \<and> length parts = 5)"
proof -
  let ?c = "\<lambda>p :: string. Inr [[''a'', ''1'']] :: py_exn + string list list"
  have "sheet_parts ?c 1 [''x.csv''] \<noteq> Inl e" for e by (simp add: worksheet_xml_def)
  then obtain parts where p: "sheet_parts ?c 1 [''x.csv''] = Inr parts" by (cases "sheet_parts ?c 1 [''x.csv'']") auto
  have "length [''x.csv''] < 10 ^ 28" "length [''x.csv''] + 2 \<le> (4::nat)" by simp_all
  from create_workbook_complete_or_absent[OF this, of ?c "''o.xlsx''" Map.empty] p show ?thesis
    by (auto simp: create_workbook_def split: option.splits)
qed

end
