(* ===== verification/Spec2Isabelle.thy ===== *)
theory Spec2Isabelle
  imports Statistics Schedule Phase_Config Load_State Client_IO Worker_Phase Worker_Progress Worker_Main
    Trial_Result Trial_Run Trial_End Trial_Account Result_File Bench_Main Host_Readings Diagnostics Sweep_Plan
    Command_Line Sweep_Run Sweep_Metadata Sweep_Summary Sweep_Main Sheet_Names Workbook
begin

text \<open>
  The benchmark harness of the chat server, \<^verbatim>\<open>src/bench\<close>: four Python programs that put load on a
  server, measure it, compare two servers, and turn the results into a workbook. The development follows
  the code function by function; the properties are numbered where they stand.

  The program. A sweep (\<^verbatim>\<open>compare.py\<close>) plans experiments, starts one benchmark process per trial with a
  command line, reads the result file of each, and writes a combined table, a summary and a record. A
  benchmark (\<^verbatim>\<open>benchmark.py\<close>) checks its command line and runs its planned trials: for each it starts the
  server and some worker processes, talks to the workers through pipes, and makes of their merged counters
  a row with a verdict. A worker connects its share of the clients and, in every phase, sends offers on
  a schedule and reads the answers from non-blocking sockets. \<^verbatim>\<open>profile.py\<close> runs one benchmark under a
  profiler; \<^verbatim>\<open>csv_to_xlsx.py\<close> converts tables.

  Foundations.
  \<^item> \<open>Prelude\<close>: exceptions as values of a sum type (\<open>seq\<close>, \<open>for_each\<close>), the bounded loop \<open>loop\<close> with what
    is needed to show that it \<open>settles\<close>, decimal numbers, the contract \<open>codec\<close> of an encoding that can be
    read back (interpreted for decimal numbers, Python integers, worksheet columns, command lines, CSV).
  \<^item> \<open>Py_Float\<close>: binary64 as rationals with rounding to nearest even, infinities and \<^verbatim>\<open>nan\<close>; the laws of a
    rounding are the locale \<open>rounding\<close>, interpreted for binary64. \<open>Float_Text\<close>, \<open>Py_Text\<close>, \<open>Py_Format\<close>:
    floats and integers as text and back, the string and bytes operations, fixed-point formatting.
  \<^item> \<open>Min_Heap\<close>: \<^verbatim>\<open>heapq\<close> as CPython has it, an interpretation of the contract \<open>min_queue\<close>.
    \<open>Fresh_Names\<close>: the search for a name that is not taken, a locale for result directories and titles.
    \<open>Shell_Words\<close> (\<^verbatim>\<open>shlex\<close>), \<open>Comma_Lists\<close>, \<open>Csv_Text\<close> (the writer and the reader of \<^verbatim>\<open>csv\<close>).

  The worker (\<^verbatim>\<open>benchmark.py\<close>).
  \<^item> \<open>Schedule\<close> (\<open>partition_clients\<close>, \<open>rotate_ready\<close>, \<open>schedule_for_clients\<close>, \<open>due_offers\<close>): the schedule is
    a heap of the first offers, the harvest is bounded and in order, rotation is fair.
  \<^item> \<open>Load_State\<close> (\<open>empty_state\<close>, \<open>normalize_state\<close>, \<open>merge_states\<close>): counters and how they are merged.
  \<^item> \<open>Client_IO\<close> (from \<open>new_client\<close> to \<open>service_events\<close>): a connection, whose socket is a script of what the
    kernel answers; the step relation \<open>conn_step\<close> is the histories of a connection, and its invariant says
    that bytes are conserved in order, queues bounded, the selector exact and completions balanced.
  \<^item> \<open>Worker_Phase\<close> and \<open>Worker_Progress\<close> (\<open>run_phase\<close>): the accounting of offers when a phase returns, the
    exceptions it may leave, and that it ends when the clocks advance.
  \<^item> \<open>Worker_Main\<close> (\<open>connect_client\<close>, \<open>settle_clients\<close>, \<open>worker_main\<close>): the worker refines the protocol
    \<open>worker_step\<close> of messages that its parent expects.

  The benchmark (\<^verbatim>\<open>benchmark.py\<close>).
  \<^item> \<open>Phase_Config\<close>: the parsed command line (\<open>bench_args\<close>), its checks, the planned trials, \<open>phase_config\<close>.
  \<^item> \<open>Trial_Run\<close> (\<open>run_trial\<close> and its waiting loops), \<open>Trial_End\<close> (\<open>stop_profiler\<close> and the final clause),
    \<open>Host_Readings\<close> (\<open>server_cpu_seconds\<close>, \<open>cpu_model\<close>): which commands the workers get, what an exception
    leaves, which processes are left running. \<open>Trial_Account\<close> composes parent and workers: the merged
    counters of a trial account for the offers of the whole trial.
  \<^item> \<open>Statistics\<close> (\<open>percentile\<close>), \<open>Trial_Result\<close> (the row, \<open>classify_result\<close>, \<open>print_summary\<close>), \<open>Result_File\<close>
    (the row in the CSV file and what a sweep reads back of it), \<open>Bench_Main\<close> (\<open>main\<close>: all rows or no file).
  \<^item> \<open>Diagnostics\<close>: profilers, disconnect lines of the log, and \<^verbatim>\<open>profile.py\<close>.

  The sweep (\<^verbatim>\<open>compare.py\<close>) and the conversion (\<^verbatim>\<open>csv_to_xlsx.py\<close>).
  \<^item> \<open>Sweep_Plan\<close> (\<open>experiment_groups\<close>, \<open>new_result_directory\<close>), \<open>Command_Line\<close> (\<open>benchmark_command\<close> and how
    the benchmark's parser reads it), \<open>Sweep_Run\<close> (the loop of \<open>main\<close> with its early stop), \<open>Sweep_Metadata\<close>
    (\<open>metadata\<close>, and the record that is written even if the loop raises), \<open>Sweep_Summary\<close> (\<open>combine_csvs\<close>, \<open>write_summaries\<close>).
  \<^item> \<open>Sweep_Main\<close> (\<open>main\<close>) runs the benchmark of \<open>Bench_Main\<close> as the child process: from an accepted plan to
    the summary, which is the benchmark's verdict on the trials that were ordered; and every recorded
    command can be run again.
  \<^item> \<open>Sheet_Names\<close>, \<open>Workbook\<close>: titles, columns, cells, and that a conversion leaves a complete file or none.

  Arguments of the model. What the program does not decide is an argument: the readings of the clocks
  (\<open>env\<close>, \<open>surroundings\<close>: any sequence, indexed by the number of readings), the answers of the sockets, the
  arrival of messages, the files that exist, what git, the compiler and the kernel answer, how processes
  react to signals, and how \<^verbatim>\<open>sum\<close> adds the CPU seconds of the workers (\<open>fsum\<close>, \<open>sum_floats\<close>: its
  rounding differs between versions of Python). Theorems that need them to be sensible say so, for
  instance that the clocks advance (\<open>passes\<close>, \<open>time_passes\<close>).

  Fuel. A loop that waits takes fuel and gives \<open>None\<close> when it is used up; that it returns is proved as
  \<open>settles\<close>: from some fuel on there is one result. This holds for phases, workers, trials and
  benchmarks whenever the clocks advance, whatever sockets, pipes and files do. The search for a free name
  needs two rounds more than there are names taken. Everything else is structural recursion or has a measure.

  Not modelled. The C++ servers (another language; the harness sees them through sockets). The calls that
  start processes, pick a free port, run git and the compiler, and handle temporary files (that the build
  fails is modelled, that git or the compiler fail is not). Abbreviated options and the \<^verbatim>\<open>--option=value\<close> form of \<^verbatim>\<open>argparse\<close>, which the programs do
  not use among themselves. The JSON text, the encoding of text files, the container format of the workbook,
  the banner with the versions, and the progress lines of a sweep. A failing send of a worker's own message.
  Characters are those below 256. Python's order of a list of rates that contains \<^verbatim>\<open>nan\<close> is not stated.
\<close>

end
